(* ===== verification/Prelude.thy ===== *)
theory Prelude
  imports Main "HOL-Library.Word" "HOL-Library.AList"
begin

text \<open>
  Shared vocabulary of the development: machine integers and byte strings, the outcome of a Rust
  call (a value, an error value, or a panic), the slice and iterator operations of the Rust
  standard library that the sources use, and the two map types \<open>HashMap\<close> and \<open>BTreeMap\<close> behind
  one interface.

  A \<open>usize\<close> is a \<open>nat\<close> here: every \<open>usize\<close> of the sources is a length or an index of an
  allocated vector.  A \<open>u32\<close> is a \<open>32 word\<close>, so \<open>x as usize\<close> is \<open>unat x\<close> and
  \<open>n as u32\<close> is \<open>of_nat n\<close>, which truncates as the Rust cast does.
\<close>

section \<open>Machine integers and bytes\<close>

type_synonym u8 = "8 word"
type_synonym u32 = "32 word"
type_synonym bytes = "u8 list"

named_theorems outcome_simps
named_theorems group_simps

lemma unat_of_nat_u32: "n < 2 ^ 32 \<Longrightarrow> unat (of_nat n :: u32) = n"
  by (simp add: unat_of_nat take_bit_nat_eq_self)

lemma of_nat_unat_u32 [simp]: "of_nat (unat (w :: u32)) = w"
  by simp

section \<open>Outcomes of Rust calls\<close>

text \<open>
  \<open>Ok\<close> and \<open>Err\<close> are the constructors of \<open>Result\<close>.  \<open>Panic\<close> is an unwinding panic:
  a failed \<open>unwrap\<close>, \<open>expect\<close> or \<open>assert!\<close>, or an index out of bounds.
\<close>

datatype ('e, 'a) outcome = Ok 'a | Err 'e | Panic

fun and_then :: "('e, 'a) outcome \<Rightarrow> ('a \<Rightarrow> ('e, 'b) outcome) \<Rightarrow> ('e, 'b) outcome" where
  "and_then (Ok x) f = f x"
| "and_then (Err e) f = Err e"
| "and_then Panic f = Panic"

fun map_err :: "('e \<Rightarrow> 'd) \<Rightarrow> ('e, 'a) outcome \<Rightarrow> ('d, 'a) outcome" where
  "map_err f (Ok x) = Ok x"
| "map_err f (Err e) = Err (f e)"
| "map_err f Panic = Panic"

fun unwrap :: "('e, 'a) outcome \<Rightarrow> ('d, 'a) outcome" where
  "unwrap (Ok x) = Ok x"
| "unwrap (Err e) = Panic"
| "unwrap Panic = Panic"

fun ok_or :: "'a option \<Rightarrow> 'e \<Rightarrow> ('e, 'a) outcome" where
  "ok_or (Some x) e = Ok x"
| "ok_or None e = Err e"

fun expect :: "'a option \<Rightarrow> ('e, 'a) outcome" where
  "expect (Some x) = Ok x"
| "expect None = Panic"

definition rust_assert :: "bool \<Rightarrow> ('e, unit) outcome" where
  "rust_assert b = (if b then Ok () else Panic)"

fun is_ok :: "('e, 'a) outcome \<Rightarrow> bool" where
  "is_ok (Ok _) = True"
| "is_ok _ = False"

lemma and_then_eq_Ok [outcome_simps]:
  "and_then m f = Ok y \<longleftrightarrow> (\<exists>x. m = Ok x \<and> f x = Ok y)"
  by (cases m) auto

lemma and_then_eq_Err [outcome_simps]:
  "and_then m f = Err e \<longleftrightarrow> m = Err e \<or> (\<exists>x. m = Ok x \<and> f x = Err e)"
  by (cases m) auto

lemma and_then_eq_Panic [outcome_simps]:
  "and_then m f = Panic \<longleftrightarrow> m = Panic \<or> (\<exists>x. m = Ok x \<and> f x = Panic)"
  by (cases m) auto

lemma map_err_eq [outcome_simps]:
  "map_err f m = Ok x \<longleftrightarrow> m = Ok x"
  "map_err f m = Panic \<longleftrightarrow> m = Panic"
  "map_err f m = Err d \<longleftrightarrow> (\<exists>e. m = Err e \<and> d = f e)"
  by (cases m; auto)+

lemma unwrap_eq [outcome_simps]:
  "unwrap m = Ok x \<longleftrightarrow> m = Ok x"
  "unwrap m \<noteq> Err e"
  "unwrap m = Panic \<longleftrightarrow> (\<forall>x. m \<noteq> Ok x)"
  by (cases m; auto)+

lemma ok_or_eq [outcome_simps]:
  "ok_or x e = Ok y \<longleftrightarrow> x = Some y"
  "ok_or x e \<noteq> Panic"
  "ok_or x e = Err d \<longleftrightarrow> x = None \<and> d = e"
  by (cases x; auto)+

lemma expect_eq [outcome_simps]:
  "expect x = Ok y \<longleftrightarrow> x = Some y"
  "expect x = Panic \<longleftrightarrow> x = None"
  "expect x \<noteq> Err e"
  by (cases x; auto)+

lemma rust_assert_eq [outcome_simps]:
  "rust_assert b = Ok u \<longleftrightarrow> b"
  "rust_assert b = Panic \<longleftrightarrow> \<not> b"
  "rust_assert b \<noteq> Err e"
  by (auto simp: rust_assert_def)

lemma rust_assert_simps [simp]:
  "rust_assert True = Ok ()" "rust_assert False = Panic"
  by (simp_all add: rust_assert_def)

section \<open>Slices and iterators\<close>

definition slice_get :: "'a list \<Rightarrow> nat \<Rightarrow> 'a option" where
  "slice_get xs i = (if i < length xs then Some (xs ! i) else None)"

definition slice_index :: "'a list \<Rightarrow> nat \<Rightarrow> ('e, 'a) outcome" where
  "slice_index xs i = expect (slice_get xs i)"

text \<open>\<open>xs[i] = x\<close> and \<open>&xs[a..b]\<close>.\<close>

definition slice_set :: "'a list \<Rightarrow> nat \<Rightarrow> 'a \<Rightarrow> ('e, 'a list) outcome" where
  "slice_set xs i x = (if i < length xs then Ok (xs[i := x]) else Panic)"

definition slice_range :: "'a list \<Rightarrow> nat \<Rightarrow> nat \<Rightarrow> ('e, 'a list) outcome" where
  "slice_range xs a b = (if a \<le> b \<and> b \<le> length xs then Ok (take (b - a) (drop a xs)) else Panic)"

definition slice_first :: "'a list \<Rightarrow> 'a option" where
  "slice_first xs = (case xs of [] \<Rightarrow> None | x # _ \<Rightarrow> Some x)"

text \<open>\<open>iter().rposition(p)\<close>: the index of the last element that satisfies \<open>p\<close>.\<close>

fun rposition :: "('a \<Rightarrow> bool) \<Rightarrow> 'a list \<Rightarrow> nat option" where
  "rposition p [] = None"
| "rposition p (x # xs) =
     (case rposition p xs of Some i \<Rightarrow> Some (Suc i) | None \<Rightarrow> if p x then Some 0 else None)"

text \<open>
  \<open>iter().map(f).collect()\<close> when \<open>f\<close> may fail or panic: the elements are visited in order and
  the first error or panic is the result.
\<close>

fun try_map :: "('a \<Rightarrow> ('e, 'b) outcome) \<Rightarrow> 'a list \<Rightarrow> ('e, 'b list) outcome" where
  "try_map f [] = Ok []"
| "try_map f (x # xs) = and_then (f x) (\<lambda>y. and_then (try_map f xs) (\<lambda>ys. Ok (y # ys)))"

fun try_fold :: "('b \<Rightarrow> 'a \<Rightarrow> ('e, 'b) outcome) \<Rightarrow> 'b \<Rightarrow> 'a list \<Rightarrow> ('e, 'b) outcome" where
  "try_fold f acc [] = Ok acc"
| "try_fold f acc (x # xs) = and_then (f acc x) (\<lambda>acc'. try_fold f acc' xs)"

text \<open>
  \<open>zip_eq\<close> of \<open>itertools\<close>, with what is done to the pairs: it panics when one side ends before the other.
\<close>

definition zip_eq_with :: "('a \<Rightarrow> 'b \<Rightarrow> 'c) \<Rightarrow> 'a list \<Rightarrow> 'b list \<Rightarrow> ('e, 'c list) outcome" where
  "zip_eq_with f xs ys = (if length xs = length ys then Ok (map2 f xs ys) else Panic)"

lemma slice_get_simps [simp]:
  "slice_get [] i = None"
  "slice_get (x # xs) 0 = Some x"
  "slice_get (x # xs) (Suc i) = slice_get xs i"
  by (simp_all add: slice_get_def)

lemma slice_get_eq_Some: "slice_get xs i = Some x \<longleftrightarrow> i < length xs \<and> xs ! i = x"
  by (simp add: slice_get_def)

lemma slice_get_eq_None: "slice_get xs i = None \<longleftrightarrow> length xs \<le> i"
  by (simp add: slice_get_def not_less)

lemma slice_index_eq [outcome_simps]:
  "slice_index xs i = Ok x \<longleftrightarrow> i < length xs \<and> xs ! i = x"
  "slice_index xs i = Panic \<longleftrightarrow> length xs \<le> i"
  "slice_index xs i \<noteq> Err e"
  by (auto simp: slice_index_def outcome_simps slice_get_eq_Some slice_get_eq_None)

lemma slice_index_if: "slice_index xs i = (if i < length xs then Ok (xs ! i) else Panic)"
  by (simp add: slice_index_def slice_get_def)

lemma map2_map_same: "map2 f xs (map g xs) = map (\<lambda>x. f x (g x)) xs"
  by (induction xs) simp_all

lemma take_eq_slots:
  assumes "length ys = n"
  shows "take n xs = ys \<longleftrightarrow> (\<forall>i<n. i < length xs \<and> xs ! i = ys ! i)"
proof
  assume R: "\<forall>i<n. i < length xs \<and> xs ! i = ys ! i"
  then have "n \<le> length xs" by (metis not_le order.irrefl)
  with R assms show "take n xs = ys" by (intro nth_equalityI) auto
qed (use assms in auto)

lemma slice_first_simps [simp]: "slice_first [] = None" "slice_first (x # xs) = Some x"
  by (simp_all add: slice_first_def)

lemma slice_first_eq_Some: "slice_first xs = Some x \<longleftrightarrow> xs \<noteq> [] \<and> hd xs = x"
  by (cases xs) auto

lemma rposition_snoc:
  "rposition p (xs @ [x]) = (if p x then Some (length xs) else rposition p xs)"
  by (induction xs) (auto split: option.splits)

lemma rposition_None: "rposition p xs = None \<longleftrightarrow> (\<forall>x\<in>set xs. \<not> p x)"
  by (induction xs) (auto split: option.splits)

lemma rposition_bound: "rposition p xs = Some i \<Longrightarrow> i < length xs \<and> p (xs ! i)"
  by (induction xs rule: rev_induct) (auto simp: rposition_snoc nth_append split: if_splits)

lemma rposition_full:
  "(case rposition p xs of None \<Rightarrow> 0 | Some i \<Rightarrow> i + 1) = length xs \<longleftrightarrow> xs = [] \<or> p (last xs)"
proof (cases xs rule: rev_cases)
  case Nil
  then show ?thesis by simp
next
  case (snoc ys y)
  then show ?thesis
    by (auto simp: rposition_snoc dest!: rposition_bound split: option.splits)
qed

lemma try_map_Ok:
  "try_map f xs = Ok ys \<longleftrightarrow> list_all2 (\<lambda>x y. f x = Ok y) xs ys"
proof (induction xs arbitrary: ys)
  case Nil
  then show ?case by auto
next
  case (Cons x xs)
  then show ?case
    by (auto simp: outcome_simps list_all2_Cons1)
qed

lemma try_map_Ok_map: "(\<And>x. x \<in> set xs \<Longrightarrow> f x = Ok (g x)) \<Longrightarrow> try_map f xs = Ok (map g xs)"
  by (induction xs) auto

lemma try_map_not_Panic: "(\<And>x. x \<in> set xs \<Longrightarrow> f x \<noteq> Panic) \<Longrightarrow> try_map f xs \<noteq> Panic"
  by (induction xs) (auto simp: outcome_simps)

lemma try_map_map: "try_map f (map g xs) = try_map (\<lambda>x. f (g x)) xs"
  by (induction xs) simp_all

lemma list_all_choice: "list_all (\<lambda>x. \<exists>y. P x y) xs \<Longrightarrow> \<exists>ys. list_all2 P xs ys"
  by (induction xs) (auto intro: list_all2_Cons[THEN iffD2])

lemma try_fold_append:
  "try_fold f acc (xs @ ys) = and_then (try_fold f acc xs) (\<lambda>acc'. try_fold f acc' ys)"
proof (induction xs arbitrary: acc)
  case (Cons x xs)
  then show ?case by (cases "f acc x") simp_all
qed simp

lemma and_then_Ok [simp]: "and_then m Ok = m"
  by (cases m) simp_all

lemma try_fold_not_Panic:
  "(\<And>acc x. x \<in> set xs \<Longrightarrow> f acc x \<noteq> Panic) \<Longrightarrow> try_fold f acc xs \<noteq> Panic"
  by (induction xs arbitrary: acc) (auto simp: outcome_simps)

lemma try_fold_not_Err:
  "(\<And>acc x e. f acc x \<noteq> Err e) \<Longrightarrow> try_fold f acc xs \<noteq> Err e"
  by (induction xs arbitrary: acc) (auto simp: outcome_simps)

lemma try_fold_Ok_fold:
  "(\<And>acc x. x \<in> set xs \<Longrightarrow> f acc x = Ok (g x acc)) \<Longrightarrow> try_fold f acc xs = Ok (fold g xs acc)"
  by (induction xs arbitrary: acc) auto

section \<open>Maps\<close>

text \<open>
  A \<open>HashMap\<close> is an association list with distinct keys.  Its iteration order is not
  specified in Rust; a function that takes a \<open>HashMap\<close> is therefore stated over every list of
  entries, in any order.  A \<open>BTreeMap\<close> is an association list sorted by key, the order in
  which it is iterated.
\<close>

type_synonym ('k, 'v) hash_map = "('k \<times> 'v) list"
type_synonym ('k, 'v) btree_map = "('k \<times> 'v) list"

definition hm_insert :: "'k \<Rightarrow> 'v \<Rightarrow> ('k, 'v) hash_map \<Rightarrow> ('k, 'v) hash_map" where
  "hm_insert k v m = AList.update k v m"

fun bt_insert :: "'k::linorder \<Rightarrow> 'v \<Rightarrow> ('k, 'v) btree_map \<Rightarrow> ('k, 'v) btree_map" where
  "bt_insert k v [] = [(k, v)]"
| "bt_insert k v ((k', v') # m) =
     (if k < k' then (k, v) # (k', v') # m
      else if k = k' then (k, v) # m
      else (k', v') # bt_insert k v m)"

text \<open>\<open>iter.collect()\<close> into a map: entries are inserted in order, a later entry replacing an
  earlier one with the same key.\<close>

definition collect_entries :: "('k \<Rightarrow> 'v \<Rightarrow> 'm \<Rightarrow> 'm) \<Rightarrow> 'm \<Rightarrow> ('k \<times> 'v) list \<Rightarrow> 'm" where
  "collect_entries ins emp kvs = fold (\<lambda>(k, v) m. ins k v m) kvs emp"

abbreviation hm_collect :: "('k \<times> 'v) list \<Rightarrow> ('k, 'v) hash_map" where
  "hm_collect \<equiv> collect_entries hm_insert []"

abbreviation bt_collect :: "('k::linorder \<times> 'v) list \<Rightarrow> ('k, 'v) btree_map" where
  "bt_collect \<equiv> collect_entries bt_insert []"

locale entry_map =
  fixes emp :: "('k \<times> 'v) list"
    and ins :: "'k \<Rightarrow> 'v \<Rightarrow> ('k \<times> 'v) list \<Rightarrow> ('k \<times> 'v) list"
    and invar :: "('k \<times> 'v) list \<Rightarrow> bool"
  assumes emp_invar: "invar emp"
    and emp_lookup: "map_of emp = Map.empty"
    and ins_invar: "invar m \<Longrightarrow> invar (ins k v m)"
    and ins_lookup: "invar m \<Longrightarrow> map_of (ins k v m) = (map_of m)(k \<mapsto> v)"
    and invar_distinct: "invar m \<Longrightarrow> distinct (map fst m)"
begin

lemma fold_collect:
  "invar m \<Longrightarrow> invar (fold (\<lambda>(k, v) m. ins k v m) kvs m) \<and>
     map_of (fold (\<lambda>(k, v) m. ins k v m) kvs m) = map_of m ++ map_of (rev kvs)"
  by (induction kvs arbitrary: m) (auto simp: ins_invar ins_lookup)

lemma collect_invar: "invar (collect_entries ins emp kvs)"
  using fold_collect[OF emp_invar] by (simp add: collect_entries_def)

lemma collect_lookup: "map_of (collect_entries ins emp kvs) = map_of (rev kvs)"
  using fold_collect[OF emp_invar] by (simp add: collect_entries_def emp_lookup)

lemma collect_lookup_distinct:
  "distinct (map fst kvs) \<Longrightarrow> map_of (collect_entries ins emp kvs) = map_of kvs"
  by (metis collect_lookup distinct_rev map_of_inject_set rev_map set_rev)

lemma collect_distinct: "distinct (map fst (collect_entries ins emp kvs))"
  by (rule invar_distinct[OF collect_invar])

lemma collect_set:
  "distinct (map fst kvs) \<Longrightarrow> set (collect_entries ins emp kvs) = set kvs"
  by (metis collect_distinct collect_lookup_distinct map_of_inject_set)

lemma collect_keys: "fst ` set (collect_entries ins emp kvs) = fst ` set kvs"
  by (metis collect_lookup dom_map_of_conv_image_fst set_rev)

lemma collect_length:
  "distinct (map fst kvs) \<Longrightarrow> length (collect_entries ins emp kvs) = length kvs"
  by (metis collect_distinct collect_set distinct_card distinct_map)

end

lemma bt_insert_keys: "fst ` set (bt_insert k v m) = insert k (fst ` set m)"
  by (induction k v m rule: bt_insert.induct) auto

lemma bt_insert_member: "(a, b) \<in> set (bt_insert k v m) \<Longrightarrow> a = k \<or> (a, b) \<in> set m"
  by (induction k v m rule: bt_insert.induct) (auto split: if_splits)

lemma bt_insert_sorted:
  "sorted_wrt (<) (map fst m) \<Longrightarrow> sorted_wrt (<) (map fst (bt_insert k v m))"
  by (induction k v m rule: bt_insert.induct) (fastforce dest: bt_insert_member)+

lemma bt_insert_lookup:
  "sorted_wrt (<) (map fst m) \<Longrightarrow> map_of (bt_insert k v m) = (map_of m)(k \<mapsto> v)"
  by (induction k v m rule: bt_insert.induct) auto

interpretation hash_map: entry_map "[]" hm_insert "\<lambda>m. distinct (map fst m)"
  by unfold_locales (auto simp: hm_insert_def update_conv' distinct_update)

interpretation btree: entry_map "[]" bt_insert "\<lambda>m. sorted_wrt (<) (map fst m)"
  by unfold_locales (simp_all add: bt_insert_sorted bt_insert_lookup strict_sorted_iff[THEN iffD1])

end
