(* ===== verification/Poly_Lists.thy ===== *)
theory Poly_Lists
  imports Prelude
begin

text \<open>
  Dense polynomials as coefficient lists (coefficient of \<open>x^i\<close> at position \<open>i\<close>, the
  representation of \<open>ark_poly\<close>'s \<open>DensePolynomial\<close>): evaluation, also of polynomials whose
  coefficients are points of a group on which the scalar field acts (the Feldman commitments
  \<open>F_i\<close>), root counting, and Lagrange interpolation.  This is the reference mathematics against
  which the code is proved; none of it models a function of the sources.
\<close>

section \<open>A field acting on a group\<close>

locale scalar_action =
  fixes mul :: "'g::ab_group_add \<Rightarrow> 'f::field \<Rightarrow> 'g"
  assumes mul_add_left: "mul (P + Q) x = mul P x + mul Q x"
    and mul_add_right: "mul P (x + y) = mul P x + mul P y"
    and mul_mul: "mul (mul P x) y = mul P (x * y)"
    and mul_one [simp]: "mul P 1 = P"
begin

lemma zero_mul [simp]: "mul 0 x = 0"
  using mul_add_left[of 0 0 x] by simp

lemma mul_zero [simp]: "mul P 0 = 0"
  using mul_add_right[of P 0 0] by simp

lemma mul_minus_right: "mul P (- x) = - mul P x"
  using mul_add_right[of P x "- x"] by (simp add: eq_neg_iff_add_eq_0 add.commute)

lemma mul_minus_left: "mul (- P) x = - mul P x"
  using mul_add_left[of P "- P" x] by (simp add: eq_neg_iff_add_eq_0 add.commute)

lemma mul_diff_right: "mul P (x - y) = mul P x - mul P y"
  using mul_add_right[of P x "- y"] by (simp add: mul_minus_right)

lemma mul_cancel_inverse [simp]:
  "x \<noteq> 0 \<Longrightarrow> mul (mul P x) (inverse x) = P" "x \<noteq> 0 \<Longrightarrow> mul (mul P (inverse x)) x = P"
  by (simp_all add: mul_mul)

lemma mul_commute: "mul (mul P x) y = mul (mul P y) x"
  by (simp add: mul_mul mult.commute)

lemma mul_eq_0_iff [simp]: "mul P x = 0 \<longleftrightarrow> P = 0 \<or> x = 0"
proof
  assume 0: "mul P x = 0"
  show "P = 0 \<or> x = 0"
  proof (rule ccontr)
    assume "\<not> (P = 0 \<or> x = 0)"
    then have "P = mul (mul P x) (inverse x)" and "P \<noteq> 0" by auto
    with 0 show False by simp
  qed
qed auto

lemma mul_right_cancel: "x \<noteq> 0 \<Longrightarrow> mul P x = mul Q x \<longleftrightarrow> P = Q"
  by (metis mul_cancel_inverse(1))

lemma mul_left_cancel: "P \<noteq> 0 \<Longrightarrow> mul P x = mul P y \<longleftrightarrow> x = y"
  by (metis eq_iff_diff_eq_0 mul_diff_right mul_eq_0_iff)

lemma mul_sum_list_left: "mul (sum_list Ps) x = sum_list (map (\<lambda>P. mul P x) Ps)"
  by (induction Ps) (simp_all add: mul_add_left)

lemma mul_sum_list_right: "mul P (sum_list xs) = sum_list (map (mul P) xs)"
  by (induction xs) (simp_all add: mul_add_right)

lemmas mul_simps = mul_add_left mul_add_right mul_mul mul_minus_left mul_minus_right

end

interpretation field_action: scalar_action "(*) :: 'f::field \<Rightarrow> 'f \<Rightarrow> 'f"
  by unfold_locales (simp_all add: algebra_simps)

section \<open>Evaluation\<close>

fun gpeval :: "('g::ab_group_add \<Rightarrow> 'f \<Rightarrow> 'g) \<Rightarrow> 'g list \<Rightarrow> 'f \<Rightarrow> 'g" where
  "gpeval mul [] x = 0"
| "gpeval mul (C # Cs) x = C + mul (gpeval mul Cs x) x"

abbreviation peval :: "'f::field list \<Rightarrow> 'f \<Rightarrow> 'f" where
  "peval \<equiv> gpeval (*)"

context scalar_action begin

lemma gpeval_map_mul: "gpeval mul (map (mul P) cs) x = mul P (peval cs x)"
  by (induction cs) (simp_all add: mul_simps mult.commute)

lemma gpeval_add:
  "length Cs = length Ds \<Longrightarrow>
     gpeval mul (map2 (+) Cs Ds) x = gpeval mul Cs x + gpeval mul Ds x"
  by (induction Cs Ds rule: list_induct2) (simp_all add: mul_simps add_ac)

lemma gpeval_zero_point: "gpeval mul Cs 0 = (case Cs of [] \<Rightarrow> 0 | C # _ \<Rightarrow> C)"
  by (cases Cs) simp_all

lemma gpeval_pad: "gpeval mul (Cs @ replicate k 0) x = gpeval mul Cs x"
proof (induction Cs)
  case Nil
  show ?case by (induction k) simp_all
qed simp

lemma gpeval_smult: "gpeval mul (map (\<lambda>C. mul C a) Cs) x = mul (gpeval mul Cs x) a"
  by (induction Cs) (simp_all add: mul_simps mult.commute)

lemma gpeval_zeros: "set Cs \<subseteq> {0} \<Longrightarrow> gpeval mul Cs x = 0"
  by (induction Cs) auto

end

lemmas peval_add = field_action.gpeval_add
  and peval_zero_point = field_action.gpeval_zero_point
  and peval_pad = field_action.gpeval_pad

lemma peval_smult: "peval (map ((*) a) cs) x = a * peval cs x"
  by (rule field_action.gpeval_map_mul)

section \<open>Root counting\<close>

text \<open>Synthetic division by \<open>x - a\<close>.\<close>

fun sdiv :: "'f::field \<Rightarrow> 'f list \<Rightarrow> 'f list" where
  "sdiv a [] = []"
| "sdiv a (c # cs) = (if cs = [] then [] else peval cs a # sdiv a cs)"

lemma length_sdiv [simp]: "length (sdiv a cs) = length cs - 1"
  by (induction cs) (auto simp: Suc_diff_1)

lemma peval_sdiv: "peval cs x = peval cs a + (x - a) * peval (sdiv a cs) x"
proof (induction cs)
  case (Cons c cs)
  have "peval cs x * x = (peval cs a + (x - a) * peval (sdiv a cs) x) * x"
    using Cons.IH by simp
  then show ?case by (simp add: algebra_simps)
qed simp

lemma sdiv_zeros: "peval cs a = 0 \<Longrightarrow> set (sdiv a cs) \<subseteq> {0} \<Longrightarrow> set cs \<subseteq> {0}"
  by (induction cs) (auto split: if_splits)

lemma too_many_roots:
  "distinct xs \<Longrightarrow> length cs \<le> length xs \<Longrightarrow> (\<And>x. x \<in> set xs \<Longrightarrow> peval cs x = 0) \<Longrightarrow> set cs \<subseteq> {0}"
proof (induction xs arbitrary: cs)
  case (Cons a xs)
  have root: "peval (sdiv a cs) x = 0" if "x \<in> set xs" for x
  proof -
    have "x \<noteq> a" using that Cons.prems(1) by auto
    moreover have "peval cs x = 0" "peval cs a = 0" using that Cons.prems(3) by auto
    ultimately show ?thesis using peval_sdiv[of cs x a] by simp
  qed
  have "set (sdiv a cs) \<subseteq> {0}"
    using Cons.prems(1,2) root by (intro Cons.IH) auto
  then show ?case using Cons.prems(3) by (intro sdiv_zeros[of cs a]) simp_all
qed simp

lemma peval_diff:
  "length cs = length ds \<Longrightarrow> peval (map2 (-) cs ds) x = peval cs x - peval ds x"
  by (induction cs ds rule: list_induct2) (simp_all add: left_diff_distrib)

lemma peval_unique:
  assumes "length cs = length ds" "distinct xs" "length cs \<le> length xs"
    and "\<And>x. x \<in> set xs \<Longrightarrow> peval cs x = peval ds x"
  shows "cs = ds"
proof -
  have "set (map2 (-) cs ds) \<subseteq> {0}"
    using assms by (intro too_many_roots[of xs]) (auto simp: peval_diff)
  then have "map2 (-) cs ds ! i = 0" if "i < length cs" for i
    using that assms(1) by (metis length_map length_zip min.idem nth_mem singletonD subsetD)
  then show ?thesis
    using assms(1) by (intro nth_equalityI) auto
qed

section \<open>Interpolation\<close>

text \<open>Functions that some polynomial with \<open>n\<close> coefficients computes.\<close>

definition polyfun :: "nat \<Rightarrow> ('f::field \<Rightarrow> 'f) \<Rightarrow> bool" where
  "polyfun n f \<longleftrightarrow> (\<exists>cs. length cs = n \<and> f = peval cs)"

lemma polyfun_peval: "length cs \<le> n \<Longrightarrow> polyfun n (peval cs)"
  unfolding polyfun_def
  by (rule exI[of _ "cs @ replicate (n - length cs) 0"]) (auto simp: peval_pad)

lemma polyfun_add: "polyfun n f \<Longrightarrow> polyfun n g \<Longrightarrow> polyfun n (\<lambda>x. f x + g x)"
  unfolding polyfun_def
  by clarify (rule_tac x = "map2 (+) cs csa" in exI, auto simp: peval_add)

lemma polyfun_smult: "polyfun n f \<Longrightarrow> polyfun n (\<lambda>x. a * f x)"
  unfolding polyfun_def
  by clarify (rule_tac x = "map ((*) a) cs" in exI, auto simp: peval_smult)

lemma polyfun_zero: "polyfun n (\<lambda>x. 0)"
  using polyfun_peval[of "[]" n] by (simp add: gpeval.simps[abs_def])

lemma polyfun_sum: "(\<And>j. j \<in> S \<Longrightarrow> polyfun n (f j)) \<Longrightarrow> polyfun n (\<lambda>x. \<Sum>j\<in>S. f j x)"
  by (induction S rule: infinite_finite_induct) (auto intro: polyfun_add polyfun_zero)

lemma polyfun_linear:
  assumes "polyfun n f"
  shows "polyfun (Suc n) (\<lambda>x. (m - x) * f x)"
proof -
  obtain cs where cs: "length cs = n" "f = peval cs" using assms by (auto simp: polyfun_def)
  have "polyfun (Suc n) (\<lambda>x. m * peval cs x + (- 1) * peval (0 # cs) x)"
    by (intro polyfun_add polyfun_smult polyfun_peval) (simp_all add: cs)
  moreover have "(\<lambda>x. m * peval cs x + (- 1) * peval (0 # cs) x) = (\<lambda>x. (m - x) * f x)"
    by (auto simp: cs algebra_simps)
  ultimately show ?thesis by simp
qed

lemma polyfun_prod: "finite S \<Longrightarrow> polyfun (Suc (card S)) (\<lambda>x. \<Prod>m\<in>S. (m - x) / c m)"
proof (induction S rule: finite_induct)
  case empty
  have "peval [1] = (\<lambda>x::'a. 1)" by auto
  then show ?case using polyfun_peval[of "[1::'a]" 1] by simp
next
  case (insert a S)
  from polyfun_smult[OF polyfun_linear[OF insert.IH], of "inverse (c a)" a]
  show ?case using insert.hyps by (simp add: field_simps)
qed

lemma polyfun_agree:
  assumes "polyfun n f" "polyfun n g" "distinct xs" "n \<le> length xs"
    and "\<And>x. x \<in> set xs \<Longrightarrow> f x = g x"
  shows "f = g"
  using assms peval_unique by (metis polyfun_def)

text \<open>The Lagrange basis polynomial of the node \<open>x_j\<close> among the nodes \<open>S\<close>, at \<open>x\<close>.\<close>

definition lagrange_basis :: "'f::field set \<Rightarrow> 'f \<Rightarrow> 'f \<Rightarrow> 'f" where
  "lagrange_basis S x_j x = (\<Prod>m\<in>S - {x_j}. (m - x) / (m - x_j))"

lemma lagrange_basis_self: "lagrange_basis S x_j x_j = 1"
  unfolding lagrange_basis_def by (rule prod.neutral) auto

lemma lagrange_basis_other:
  "finite S \<Longrightarrow> x \<in> S \<Longrightarrow> x \<noteq> x_j \<Longrightarrow> lagrange_basis S x_j x = 0"
  unfolding lagrange_basis_def by (rule prod_zero) auto

lemma polyfun_lagrange_basis:
  "finite S \<Longrightarrow> x_j \<in> S \<Longrightarrow> polyfun (card S) (lagrange_basis S x_j)"
  using polyfun_prod[of "S - {x_j}" "\<lambda>m. m - x_j"] card_Suc_Diff1[of S x_j]
  by (simp only: lagrange_basis_def[abs_def] finite_Diff)

theorem interpolation_any:
  assumes "finite S" "x \<in> S"
  shows "(\<Sum>x_j\<in>S. y x_j * lagrange_basis S x_j x) = y x"
proof -
  have "(\<Sum>x_j\<in>S. y x_j * lagrange_basis S x_j x) = (\<Sum>x_j\<in>S. if x_j = x then y x else 0)"
    using assms by (intro sum.cong) (auto simp: lagrange_basis_self lagrange_basis_other)
  with assms show ?thesis by simp
qed

theorem lagrange_interpolation:
  assumes "distinct xs" "length cs \<le> length xs"
  shows "(\<Sum>x_j\<in>set xs. peval cs x_j * lagrange_basis (set xs) x_j x) = peval cs x"
proof -
  let ?g = "\<lambda>x. \<Sum>x_j\<in>set xs. peval cs x_j * lagrange_basis (set xs) x_j x"
  have card: "card (set xs) = length xs" using assms(1) by (simp add: distinct_card)
  have "polyfun (length xs) ?g"
    by (intro polyfun_sum polyfun_smult)
      (use polyfun_lagrange_basis[of "set xs"] card in simp)
  moreover have "polyfun (length xs) (peval cs)" using assms(2) by (rule polyfun_peval)
  ultimately have "?g = peval cs"
    by (rule polyfun_agree[where xs = xs]) (use assms(1) in \<open>auto simp: interpolation_any\<close>)
  then show ?thesis by (rule fun_cong)
qed

end
