(* ===== verification/Ark.thy ===== *)
theory Ark
  imports Poly_Lists
begin

text \<open>
  The arkworks crates are not part of the repository, so the development is parametric in them,
  as the Rust code is generic over \<open>E: Pairing\<close>.  A record holds the operations the sources
  call; a locale states the documented laws the protocol relies on.  The scalar field is a type
  of class \<open>field\<close>, the source groups are types of class \<open>ab_group_add\<close> (a point in affine and
  in projective coordinates is the same group element, so \<open>into_group\<close>, \<open>into_affine\<close> and
  \<open>normalize_batch\<close> are identities), and the target field is used only through \<open>one\<close>, \<open>*\<close>,
  \<open>pow\<close> and equality, so a type of class \<open>comm_monoid_mult\<close> is enough.
\<close>

section \<open>\<open>ark_ec\<close>: the pairing engine\<close>

record ('f, 'g1, 'g2, 'gt) pairing =
  g1_generator :: 'g1
  g2_generator :: 'g2
  g1_mul :: "'g1 \<Rightarrow> 'f \<Rightarrow> 'g1"
  g2_mul :: "'g2 \<Rightarrow> 'f \<Rightarrow> 'g2"
  g1_batch_mul :: "'g1 \<Rightarrow> 'f list \<Rightarrow> 'g1 list"
  g2_batch_mul :: "'g2 \<Rightarrow> 'f list \<Rightarrow> 'g2 list"
  pair :: "'g1 \<Rightarrow> 'g2 \<Rightarrow> 'gt"
  multi_pairing :: "'g1 list \<Rightarrow> 'g2 list \<Rightarrow> 'gt"
  into_bigint :: "'f \<Rightarrow> nat"

locale cyclic_action = scalar_action mul
  for mul :: "'g::ab_group_add \<Rightarrow> 'f::field \<Rightarrow> 'g" +
  fixes gen :: 'g
  assumes gen_nonzero [simp]: "gen \<noteq> 0"
    and generates: "\<exists>x. P = mul gen x"
begin

lemma dlogE:
  obtains x where "P = mul gen x"
  using generates by blast

lemma gen_inj [simp]: "mul gen x = mul gen y \<longleftrightarrow> x = y"
  by (simp add: mul_left_cancel)

lemma gen_map_inj [simp]: "map (mul gen) xs = map (mul gen) ys \<longleftrightarrow> xs = ys"
  by (rule inj_map_eq_map) (rule injI, simp)

text \<open>A list of points is the image of a list of scalars.\<close>

lemma dlog_listE:
  obtains xs where "Ps = map (mul gen) xs"
proof -
  have "\<exists>xs. Ps = map (mul gen) xs"
  proof (induction Ps)
    case (Cons P Ps)
    then obtain xs where "Ps = map (mul gen) xs" by blast
    moreover obtain x where "P = mul gen x" by (rule dlogE)
    ultimately have "P # Ps = map (mul gen) (x # xs)" by simp
    then show ?case by (rule exI)
  qed simp
  then show ?thesis using that by blast
qed

end

locale pairing_laws =
  g1: cyclic_action "g1_mul E" "g1_generator E" + g2: cyclic_action "g2_mul E" "g2_generator E"
  for E :: "('f::field, 'g1::ab_group_add, 'g2::ab_group_add, 'gt::comm_monoid_mult) pairing" +
  assumes g1_batch: "g1_batch_mul E P xs = map (g1_mul E P) xs"
    and g2_batch: "g2_batch_mul E Q xs = map (g2_mul E Q) xs"
    and pair_add_left: "pair E (P + P') Q = pair E P Q * pair E P' Q"
    and pair_add_right: "pair E P (Q + Q') = pair E P Q * pair E P Q'"
    and pair_zero_left [simp]: "pair E 0 Q = 1"
    and pair_zero_right [simp]: "pair E P 0 = 1"
    and pair_nondegenerate: "pair E P Q = 1 \<Longrightarrow> P = 0 \<or> Q = 0"
    and multi_pairing: "length Ps = length Qs \<Longrightarrow>
      multi_pairing E Ps Qs = prod_list (map2 (pair E) Ps Qs)"
    and bigint: "of_nat (into_bigint E x) = x"
begin

lemma pair_of_nat_left: "pair E (g1_mul E P (of_nat n)) Q = pair E P Q ^ n"
  by (induction n) (simp_all add: g1.mul_add_right pair_add_left)

lemma pair_of_nat_right: "pair E P (g2_mul E Q (of_nat n)) = pair E P Q ^ n"
  by (induction n) (simp_all add: g2.mul_add_right pair_add_right)

lemma pair_mul_left: "pair E (g1_mul E P x) Q = pair E P Q ^ into_bigint E x"
  using pair_of_nat_left[of P "into_bigint E x" Q] by (simp add: bigint)

lemma pair_mul_right: "pair E P (g2_mul E Q x) = pair E P Q ^ into_bigint E x"
  using pair_of_nat_right[of P Q "into_bigint E x"] by (simp add: bigint)

lemma pair_shift: "pair E (g1_mul E P x) Q = pair E P (g2_mul E Q x)"
  by (simp add: pair_mul_left pair_mul_right)

lemma pair_eq_1_iff [simp]: "pair E P Q = 1 \<longleftrightarrow> P = 0 \<or> Q = 0"
  using pair_nondegenerate by auto

lemma pair_minus_left: "pair E (- P) Q * pair E P Q = 1"
  by (simp flip: pair_add_left)

lemma pair_left_cancel: "P \<noteq> 0 \<Longrightarrow> pair E P Q = pair E P Q' \<longleftrightarrow> Q = Q'"
proof
  assume P: "P \<noteq> 0" and eq: "pair E P Q = pair E P Q'"
  have "pair E P (Q - Q') = pair E P Q * pair E P (- Q')"
    by (simp flip: pair_add_right)
  also have "\<dots> = pair E P (Q' - Q')" by (simp add: eq flip: pair_add_right)
  finally have "pair E P (Q - Q') = 1" by simp
  with P show "Q = Q'" by simp
qed simp

lemma pair_right_cancel: "Q \<noteq> 0 \<Longrightarrow> pair E P Q = pair E P' Q \<longleftrightarrow> P = P'"
proof
  assume Q: "Q \<noteq> 0" and eq: "pair E P Q = pair E P' Q"
  have "pair E (P - P') Q = pair E P Q * pair E (- P') Q"
    by (simp flip: pair_add_left)
  also have "\<dots> = pair E (P' - P') Q" by (simp add: eq flip: pair_add_left)
  finally have "pair E (P - P') Q = 1" by simp
  with Q show "P = P'" by simp
qed simp

lemma multi_pairing_two:
  "multi_pairing E [P, P'] [Q, Q'] = pair E P Q * pair E P' Q'"
  by (simp add: multi_pairing)

text \<open>The form in which the sources compare two pairings: a product with a negated argument.\<close>

lemma pair_product_one:
  "pair E (- P) Q * pair E P' Q' = 1 \<longleftrightarrow> pair E P Q = pair E P' Q'"
proof
  assume 1: "pair E (- P) Q * pair E P' Q' = 1"
  have "pair E P' Q' = pair E P' Q' * (pair E (- P) Q * pair E P Q)"
    by (simp add: pair_minus_left)
  also have "\<dots> = (pair E (- P) Q * pair E P' Q') * pair E P Q" by (simp only: mult_ac)
  finally show "pair E P Q = pair E P' Q'" by (simp add: 1)
qed (metis pair_minus_left)

lemma pair_sum_right:
  "prod_list (map (pair E P) Qs) = pair E P (sum_list Qs)"
  by (induction Qs) (simp_all add: pair_add_right)

end

section \<open>\<open>ark_poly\<close>: evaluation domains and dense polynomials\<close>

text \<open>
  \<open>dom_new\<close> is \<open>GeneralEvaluationDomain::new\<close> (it may fail), \<open>dom_elements\<close> is \<open>elements()\<close>
  collected, \<open>dom_fft\<close> is \<open>fft_in_place\<close> on vectors of \<open>G1\<close> points, \<open>poly_evaluate\<close> is
  \<open>Polynomial::evaluate\<close> on coefficient vectors, \<open>poly_evaluate_over_domain\<close> is
  \<open>evaluate_over_domain_by_ref\<close>.
\<close>

record ('f, 'g1, 'd) ark_poly =
  dom_new :: "nat \<Rightarrow> 'd option"
  dom_elements :: "'d \<Rightarrow> 'f list"
  dom_fft :: "'d \<Rightarrow> 'g1 list \<Rightarrow> 'g1 list"
  poly_evaluate :: "'f list \<Rightarrow> 'f \<Rightarrow> 'f"
  poly_evaluate_over_domain :: "'f list \<Rightarrow> 'd \<Rightarrow> 'f list"

locale domain_laws = scalar_action mul
  for mul :: "'g1::ab_group_add \<Rightarrow> 'f::field \<Rightarrow> 'g1" +
  fixes A :: "('f, 'g1, 'd) ark_poly"
  assumes dom_size: "dom_new A n = Some d \<Longrightarrow> n \<le> length (dom_elements A d)"
    and dom_distinct: "dom_new A n = Some d \<Longrightarrow> distinct (dom_elements A d)"
    and dom_nonzero: "dom_new A n = Some d \<Longrightarrow> 0 \<notin> set (dom_elements A d)"
    and fft_eval: "dom_new A n = Some d \<Longrightarrow> length Cs \<le> length (dom_elements A d) \<Longrightarrow>
      dom_fft A d Cs = map (gpeval mul Cs) (dom_elements A d)"
    and evaluate: "poly_evaluate A cs x = peval cs x"
    and evaluate_domain: "dom_new A n = Some d \<Longrightarrow> length cs \<le> length (dom_elements A d) \<Longrightarrow>
      poly_evaluate_over_domain A cs d = map (peval cs) (dom_elements A d)"

section \<open>\<open>ark_std\<close>: randomness\<close>

text \<open>
  A random number generator is a state that the sampling functions pass on.  \<open>scalar_rand\<close> is
  \<open>ScalarField::rand\<close>; \<open>poly_rand d\<close> is \<open>DensePolynomial::rand\<close>, which returns a polynomial of
  degree \<open>d\<close>.
\<close>

record ('f, 'r) ark_rand =
  scalar_rand :: "'r \<Rightarrow> 'f \<times> 'r"
  poly_rand :: "nat \<Rightarrow> 'r \<Rightarrow> 'f list \<times> 'r"

locale rand_laws =
  fixes R :: "('f::field, 'r) ark_rand"
  assumes poly_rand_length: "poly_rand R d r = (p, r') \<Longrightarrow> length p = Suc d"
    and poly_rand_lead: "poly_rand R d r = (p, r') \<Longrightarrow> last p \<noteq> 0"

section \<open>The discrete-logarithm representation\<close>

text \<open>
  Every pairing of prime order is isomorphic to one whose groups are the scalar field itself:
  a point is represented by its discrete logarithm, and the target group by the exponents of
  \<open>e(G, H)\<close>.  The laws of \<open>pairing_laws\<close> hold for it over any prime field, given the canonical
  representative of a field element.
\<close>

datatype 'f expo = Expo (exponent: 'f)

instantiation expo :: (comm_monoid_add) comm_monoid_mult
begin
definition one_expo :: "'a expo" where "one_expo = Expo 0"
definition times_expo :: "'a expo \<Rightarrow> 'a expo \<Rightarrow> 'a expo" where
  "times_expo a b = Expo (exponent a + exponent b)"
instance
  by standard (auto simp: one_expo_def times_expo_def add_ac)
end

definition dlog_pairing :: "('f::field \<Rightarrow> nat) \<Rightarrow> ('f, 'f, 'f, 'f expo) pairing" where
  "dlog_pairing repr = \<lparr> g1_generator = 1, g2_generator = 1, g1_mul = (*), g2_mul = (*),
     g1_batch_mul = (\<lambda>P xs. map ((*) P) xs), g2_batch_mul = (\<lambda>Q xs. map ((*) Q) xs),
     pair = (\<lambda>P Q. Expo (P * Q)),
     multi_pairing = (\<lambda>Ps Qs. prod_list (map2 (\<lambda>P Q. Expo (P * Q)) Ps Qs)),
     into_bigint = repr \<rparr>"

lemma dlog_pairing_laws:
  assumes "\<And>x. of_nat (repr x) = (x :: 'f::field)"
  shows "pairing_laws (dlog_pairing repr)"
  by unfold_locales
    (simp_all add: dlog_pairing_def algebra_simps one_expo_def times_expo_def assms)

end
