(* ===== verification/Sample.thy ===== *)
theory Sample
  imports Ark
begin

text \<open>
  A concrete prime field, the integers modulo 17, with the discrete-logarithm pairing, evaluation
  domains of sizes 1, 2, 4, 8 and 16, and a deterministic generator.  The component theories
  evaluate their definitions on it, so that every law assumed of the arkworks crates is seen to
  be satisfiable together with the hypotheses of each theorem.
\<close>

typedef f17 = "{0::int..<17}"
  morphisms f17_rep f17_abs
  by (rule exI[of _ 0]) simp

setup_lifting type_definition_f17

instantiation f17 :: field
begin

lift_definition zero_f17 :: f17 is 0 by simp
lift_definition one_f17 :: f17 is 1 by simp
lift_definition plus_f17 :: "f17 \<Rightarrow> f17 \<Rightarrow> f17" is "\<lambda>x y. (x + y) mod 17" by simp
lift_definition minus_f17 :: "f17 \<Rightarrow> f17 \<Rightarrow> f17" is "\<lambda>x y. (x - y) mod 17" by simp
lift_definition uminus_f17 :: "f17 \<Rightarrow> f17" is "\<lambda>x. (- x) mod 17" by simp
lift_definition times_f17 :: "f17 \<Rightarrow> f17 \<Rightarrow> f17" is "\<lambda>x y. (x * y) mod 17" by simp
lift_definition inverse_f17 :: "f17 \<Rightarrow> f17" is "\<lambda>x. (x ^ 15) mod 17" by simp
definition divide_f17 :: "f17 \<Rightarrow> f17 \<Rightarrow> f17" where "divide_f17 x y = x * inverse y"

lemma f17_fermat: "x \<in> {0::int..<17} \<Longrightarrow> x \<noteq> 0 \<Longrightarrow> (x ^ 15 mod 17 * x) mod 17 = 1"
proof -
  assume "x \<in> {0::int..<17}" "x \<noteq> 0"
  then have "x \<in> set [1..16]" by simp
  moreover have "\<forall>x \<in> set [1..16]. (x ^ 15 mod 17 * x) mod 17 = (1::int)" by code_simp
  ultimately show ?thesis by blast
qed

instance
proof
  fix a b c :: f17
  show "a + b + c = a + (b + c)" by transfer (simp add: mod_simps add.assoc)
  show "a + b = b + a" by transfer (simp add: add.commute)
  show "0 + a = a" by transfer simp
  show "- a + a = 0" by transfer (simp add: mod_simps)
  show "a - b = a + - b" by transfer (simp add: mod_simps)
  show "a * b * c = a * (b * c)" by transfer (simp add: mod_simps mult.assoc)
  show "a * b = b * a" by transfer (simp add: mult.commute)
  show "1 * a = a" by transfer simp
  show "(a + b) * c = a * c + b * c" by transfer (simp add: mod_simps algebra_simps)
  show "(0::f17) \<noteq> 1" by transfer simp
  show "a \<noteq> 0 \<Longrightarrow> inverse a * a = 1" by transfer (rule f17_fermat)
  show "a div b = a * inverse b" by (rule divide_f17_def)
  show "inverse (0::f17) = 0" by transfer simp
qed

end

instantiation f17 :: equal
begin
definition equal_f17 :: "f17 \<Rightarrow> f17 \<Rightarrow> bool" where
  "equal_f17 x y \<longleftrightarrow> f17_rep x = f17_rep y"
instance
  by standard (simp add: equal_f17_def f17_rep_inject)
end

definition f17_nat :: "f17 \<Rightarrow> nat" where
  "f17_nat x = nat (f17_rep x)"

lemma f17_of_nat_rep: "f17_rep (of_nat n) = int n mod 17"
  by (induction n) (auto simp: zero_f17.rep_eq one_f17.rep_eq plus_f17.rep_eq mod_simps ac_simps)

lemma f17_of_nat [simp]: "of_nat (f17_nat x) = x"
proof -
  have "f17_rep x \<in> {0..<17}" by (rule f17_rep)
  then have "f17_rep (of_nat (f17_nat x)) = f17_rep x"
    unfolding f17_of_nat_rep by (simp add: f17_nat_def)
  then show ?thesis by (simp add: f17_rep_inject)
qed

abbreviation E17 :: "(f17, f17, f17, f17 expo) pairing" where
  "E17 \<equiv> dlog_pairing f17_nat"

interpretation e17: pairing_laws E17
  by (rule dlog_pairing_laws) simp

text \<open>The domain of \<open>n\<close> points: the smallest power of two that is at least \<open>n\<close>, up to 16.\<close>

definition dom17_gen :: "nat \<Rightarrow> (nat \<times> f17) option" where
  "dom17_gen n = (if n \<le> 1 then Some (1, 1) else if n \<le> 2 then Some (2, 16)
     else if n \<le> 4 then Some (4, 4) else if n \<le> 8 then Some (8, 2)
     else if n \<le> 16 then Some (16, 3) else None)"

definition dom17_new :: "nat \<Rightarrow> f17 list option" where
  "dom17_new n = map_option (\<lambda>(k, g). map ((^) g) [0..<k]) (dom17_gen n)"

definition A17 :: "(f17, f17, f17 list) ark_poly" where
  "A17 = \<lparr> dom_new = dom17_new, dom_elements = (\<lambda>d. d),
     dom_fft = (\<lambda>d Cs. map (gpeval (*) Cs) d), poly_evaluate = peval,
     poly_evaluate_over_domain = (\<lambda>cs d. map (peval cs) d) \<rparr>"

lemma dom17_cases:
  assumes "dom17_new n = Some d"
  shows "n \<le> length d" "distinct d" "0 \<notin> set d"
proof -
  have "\<forall>(k, g) \<in> {(1, 1), (2, 16), (4, 4), (8, 2), (16, 3 :: f17)}.
      distinct (map ((^) g) [0..<k]) \<and> 0 \<notin> set (map ((^) g) [0..<k])"
    by code_simp
  then show "n \<le> length d" "distinct d" "0 \<notin> set d"
    using assms by (auto simp: dom17_new_def dom17_gen_def simp del: set_map split: if_splits)
qed

interpretation a17: domain_laws "(*)" A17
  by unfold_locales (auto simp: A17_def dest: dom17_cases)

text \<open>A counter as the generator state; every sampled value is nonzero.\<close>

definition next17 :: "nat \<Rightarrow> f17" where
  "next17 k = of_nat (Suc (k mod 16))"

definition R17 :: "(f17, nat) ark_rand" where
  "R17 = \<lparr> scalar_rand = (\<lambda>k. (next17 k, Suc k)),
     poly_rand = (\<lambda>d k. (map next17 [k..<k + Suc d], k + Suc d)) \<rparr>"

lemma next17_nonzero: "next17 k \<noteq> 0"
proof
  assume "next17 k = 0"
  then have "int (Suc (k mod 16)) mod 17 = 0"
    using f17_of_nat_rep[of "Suc (k mod 16)"] by (simp add: next17_def zero_f17.rep_eq)
  moreover have "int (Suc (k mod 16)) < 17" by simp
  ultimately show False by simp
qed

interpretation r17: rand_laws R17
  by unfold_locales (auto simp: R17_def last_map next17_nonzero simp del: upt_Suc)

end
