(* ===== verification/Keypair.thy ===== *)
theory Keypair
  imports Sample "HOL-Library.Option_ord"
begin

text \<open>
  \<open>ferveo-common/src/keypair.rs\<close> and \<open>ferveo-common/src/lib.rs\<close>: validator keypairs, their byte
  encodings and their order.  The arkworks point encodings are the parameter \<open>codec\<close>; the
  generator that a seed creates (\<open>StdRng::from_seed\<close>) is the parameter \<open>from_seed\<close>.
\<close>

section \<open>Point encodings\<close>

record 'p codec =
  serialize_compressed :: "'p \<Rightarrow> bytes option"
  deserialize_compressed :: "bytes \<Rightarrow> 'p option"

text \<open>
  What the sources rely on: writing to a byte vector succeeds, a group element has a fixed
  encoded size, and reading the encoding back gives the element.
\<close>

locale codec_laws =
  fixes K :: "'p codec" and size :: nat
  assumes encodes: "\<exists>bs. serialize_compressed K p = Some bs \<and> length bs = size \<and>
      deserialize_compressed K bs = Some p"
begin

lemma encodeE:
  obtains bs where "serialize_compressed K p = Some bs" "length bs = size"
    "deserialize_compressed K bs = Some p"
  using encodes by blast

end

section \<open>Errors\<close>

datatype common_error =
    InvalidByteLength nat nat
  | SerializationError
  | InvalidSeedLength nat
  | IdentityEncryptionKey

type_synonym 'a common_result = "(common_error, 'a) outcome"

definition to_bytes :: "'p codec \<Rightarrow> 'p \<Rightarrow> bytes common_result" where
  "to_bytes K item = ok_or (serialize_compressed K item) SerializationError"

definition from_bytes :: "'p codec \<Rightarrow> bytes \<Rightarrow> 'p common_result" where
  "from_bytes K bytes = ok_or (deserialize_compressed K bytes) SerializationError"

section \<open>Public keys\<close>

record 'g2 public_key =
  encryption_key :: 'g2

definition public_key_serialized_size :: nat where
  "public_key_serialized_size = 96"

text \<open>\<open>GenericArray::from_slice\<close> panics on a slice of another length.\<close>

definition public_key_to_bytes :: "'g2 codec \<Rightarrow> 'g2 public_key \<Rightarrow> bytes common_result" where
  "public_key_to_bytes K pk =
     and_then (to_bytes K (encryption_key pk)) (\<lambda>as_bytes.
     if length as_bytes = 96 then Ok as_bytes else Panic)"

definition public_key_from_bytes :: "'g2::zero codec \<Rightarrow> bytes \<Rightarrow> 'g2 public_key common_result" where
  "public_key_from_bytes K bytes =
     (if length bytes \<noteq> 96 then Err (InvalidByteLength public_key_serialized_size (length bytes))
      else and_then (from_bytes K bytes) (\<lambda>ek.
        if ek = 0 then Err IdentityEncryptionKey else Ok \<lparr> encryption_key = ek \<rparr>))"

text \<open>
  \<open>Ord for PublicKey\<close>: by the \<open>x\<close> coordinate, then by \<open>y\<close>; the identity has no coordinates,
  and \<open>None\<close> is below every \<open>Some\<close>.
\<close>

datatype ordering = Less | Equal | Greater

definition rust_cmp :: "'a::linorder \<Rightarrow> 'a \<Rightarrow> ordering" where
  "rust_cmp a b = (if a < b then Less else if a = b then Equal else Greater)"

definition public_key_cmp ::
  "('g2 \<Rightarrow> 'c::linorder option) \<Rightarrow> ('g2 \<Rightarrow> 'c option) \<Rightarrow> 'g2 public_key \<Rightarrow> 'g2 public_key \<Rightarrow> ordering"
where
  "public_key_cmp coord_x coord_y self other =
     (if coord_x (encryption_key self) = coord_x (encryption_key other)
      then rust_cmp (coord_y (encryption_key self)) (coord_y (encryption_key other))
      else rust_cmp (coord_x (encryption_key self)) (coord_x (encryption_key other)))"

definition public_key_partial_cmp ::
  "('g2 \<Rightarrow> 'c::linorder option) \<Rightarrow> ('g2 \<Rightarrow> 'c option) \<Rightarrow> 'g2 public_key \<Rightarrow> 'g2 public_key \<Rightarrow> ordering option"
where
  "public_key_partial_cmp coord_x coord_y self other = Some (public_key_cmp coord_x coord_y self other)"

section \<open>Keypairs\<close>

record 'f keypair =
  decryption_key :: 'f

definition keypair_public_key ::
  "('f, 'g1, 'g2, 'gt) pairing \<Rightarrow> 'f keypair \<Rightarrow> 'g2 public_key" where
  "keypair_public_key E kp =
     \<lparr> encryption_key = g2_mul E (g2_generator E) (decryption_key kp) \<rparr>"

definition keypair_cmp :: "'f::linorder keypair \<Rightarrow> 'f keypair \<Rightarrow> ordering" where
  "keypair_cmp self other = rust_cmp (decryption_key self) (decryption_key other)"

definition keypair_partial_cmp :: "'f::linorder keypair \<Rightarrow> 'f keypair \<Rightarrow> ordering option" where
  "keypair_partial_cmp self other = Some (keypair_cmp self other)"

definition keypair_new :: "('f, 'r) ark_rand \<Rightarrow> 'r \<Rightarrow> 'f keypair \<times> 'r" where
  "keypair_new R rng = (let (x, rng') = scalar_rand R rng in (\<lparr> decryption_key = x \<rparr>, rng'))"

definition secure_randomness_size :: nat where
  "secure_randomness_size = 32"

definition keypair_from_secure_randomness ::
  "('f, 'r) ark_rand \<Rightarrow> (bytes \<Rightarrow> 'r) \<Rightarrow> bytes \<Rightarrow> 'f keypair common_result" where
  "keypair_from_secure_randomness R from_seed bytes =
     (if length bytes \<noteq> secure_randomness_size then Err (InvalidSeedLength (length bytes))
      else Ok (fst (keypair_new R (from_seed bytes))))"

text \<open>\<open>rand::thread_rng()\<close> is the argument.\<close>

definition keypair_random :: "('f, 'r) ark_rand \<Rightarrow> 'r \<Rightarrow> 'f keypair" where
  "keypair_random R thread_rng = fst (keypair_new R thread_rng)"

section \<open>Properties\<close>

lemma public_key_eq_iff: "pk = pk' \<longleftrightarrow> encryption_key pk = encryption_key (pk' :: 'g2 public_key)"
  by (cases pk; cases pk') simp

context pairing_laws begin

lemma public_key_zero_iff: "encryption_key (keypair_public_key E kp) = 0 \<longleftrightarrow> decryption_key kp = 0"
  by (simp add: keypair_public_key_def)

lemma public_key_inj: "keypair_public_key E kp = keypair_public_key E kp' \<longleftrightarrow> kp = kp'"
  by (cases kp; cases kp') (simp add: keypair_public_key_def)

end

context codec_laws begin

lemma public_key_roundtrip_laws:
  assumes "size = 96"
  shows "\<exists>bs. public_key_to_bytes K pk = Ok bs \<and> length bs = 96 \<and>
    deserialize_compressed K bs = Some (encryption_key pk)"
  using encodes[of "encryption_key pk"] assms
  by (auto simp: public_key_to_bytes_def to_bytes_def)

end

text \<open>
  A validator public key survives its byte encoding unless it is the identity, and then
  decoding reports \<open>IdentityEncryptionKey\<close>; encoding never panics.
\<close>

lemma public_key_bytes_roundtrip:
  assumes "codec_laws K 96"
  shows "\<exists>bs. public_key_to_bytes K pk = Ok bs \<and> length bs = 96 \<and>
    public_key_from_bytes K bs =
      (if encryption_key pk = 0 then Err IdentityEncryptionKey else Ok pk)"
  using codec_laws.public_key_roundtrip_laws[OF assms refl, of pk]
  by (auto simp: public_key_from_bytes_def from_bytes_def)

text \<open>A fixed-size encoding of the sample field, for the witnesses.\<close>

definition codec17 :: "nat \<Rightarrow> f17 codec" where
  "codec17 n = \<lparr> serialize_compressed = (\<lambda>x. Some (of_nat (f17_nat x) # replicate (n - 1) 0)),
     deserialize_compressed = (\<lambda>bs. case bs of [] \<Rightarrow> None | b # _ \<Rightarrow> Some (of_nat (unat b))) \<rparr>"

lemma f17_nat_bound: "f17_nat x < 17"
proof -
  have "f17_rep x \<in> {0..<17}" by (rule f17_rep)
  then show ?thesis by (auto simp: f17_nat_def)
qed

lemma codec17_laws: "0 < n \<Longrightarrow> codec_laws (codec17 n) n"
proof unfold_locales
  fix p assume "0 < n"
  have "unat (of_nat (f17_nat p) :: u8) = f17_nat p"
    using f17_nat_bound[of p] by (simp add: unat_of_nat take_bit_nat_eq_self)
  then show "\<exists>bs. serialize_compressed (codec17 n) p = Some bs \<and> length bs = n \<and>
      deserialize_compressed (codec17 n) bs = Some p"
    using \<open>0 < n\<close> by (auto simp: codec17_def)
qed

interpretation codec96: codec_laws "codec17 96" 96
  by (rule codec17_laws) simp

interpretation codec48: codec_laws "codec17 48" 48
  by (rule codec17_laws) simp

text \<open>
  \<open>cmp\<close> on public keys is the strict total order of the coordinate pairs: it is \<open>Equal\<close>
  exactly on keys with equal coordinates, swapping the arguments swaps \<open>Less\<close> and
  \<open>Greater\<close>, and \<open>Less\<close> is transitive.
\<close>

lemma public_key_cmp_total_order:
  fixes cx cy :: "'g2 \<Rightarrow> 'c::linorder option"
  shows "(public_key_cmp cx cy a b = Equal \<longleftrightarrow>
      cx (encryption_key a) = cx (encryption_key b) \<and> cy (encryption_key a) = cy (encryption_key b))
    \<and> (public_key_cmp cx cy a b = Greater \<longleftrightarrow> public_key_cmp cx cy b a = Less)
    \<and> (public_key_cmp cx cy a b = Less \<and> public_key_cmp cx cy b c = Less \<longrightarrow>
        public_key_cmp cx cy a c = Less)"
  by (auto simp: public_key_cmp_def rust_cmp_def split: if_splits)

end
