(* ===== verification/Hash_To_Curve.thy ===== *)
theory Hash_To_Curve
  imports Prelude
begin

text \<open>
  \<open>ferveo-tdec/src/hash_to_curve.rs\<close>: the glue between the message expansion and curve arithmetic of
  the external \<open>miracl_core\<close> library and the points of arkworks.  The library is a parameter; the
  buffers, their fixed sizes and every index into them are the code's.
\<close>

text \<open>
  \<open>BIG\<close> and \<open>DBIG\<close> are natural numbers.  A method that writes through a reference takes the buffer or
  the point and returns it: \<open>xmd_expand hash hlen okm olen dst msg\<close>, \<open>ecp2_add P Q\<close>,
  \<open>ecp2_cfp P\<close> (cofactor clearing), \<open>ecp2_affine P\<close>, \<open>ecp2_tobytes P buffer compress\<close>.
  \<open>from_random_bytes\<close> is that of arkworks' \<open>G2Affine\<close>.
\<close>

record ('fp, 'fp2, 'ecp2, 'g2) miracl =
  rom_modulus :: nat
  rom_curve_order :: nat
  mc_sha2 :: nat
  ecp_hash_type :: nat
  big_nbits :: "nat \<Rightarrow> nat"
  xmd_expand :: "nat \<Rightarrow> nat \<Rightarrow> bytes \<Rightarrow> nat \<Rightarrow> bytes \<Rightarrow> bytes \<Rightarrow> bytes"
  dbig_frombytes :: "bytes \<Rightarrow> nat"
  fp_new_big :: "nat \<Rightarrow> 'fp"
  fp2_new :: 'fp2
  fp2_new_fps :: "'fp \<Rightarrow> 'fp \<Rightarrow> 'fp2"
  ecp2_map2point :: "'fp2 \<Rightarrow> 'ecp2"
  ecp2_add :: "'ecp2 \<Rightarrow> 'ecp2 \<Rightarrow> 'ecp2"
  ecp2_cfp :: "'ecp2 \<Rightarrow> 'ecp2"
  ecp2_affine :: "'ecp2 \<Rightarrow> 'ecp2"
  ecp2_tobytes :: "'ecp2 \<Rightarrow> bytes \<Rightarrow> bool \<Rightarrow> bytes"
  from_random_bytes :: "bytes \<Rightarrow> 'g2 option"

text \<open>Writing into a buffer does not change its length.\<close>

locale miracl_laws =
  fixes M :: "('fp, 'fp2, 'ecp2, 'g2) miracl"
  assumes expand_length: "length (xmd_expand M hash hlen okm olen dst msg) = length okm"
    and tobytes_length: "length (ecp2_tobytes M P buf compress) = length buf"

text \<open>
  What the code relies on when it says that \<open>expect\<close> cannot fire: the modulus has at most 381 bits and
  the order at most 255, and the byte-reversed encoding of a point of the group, without its leading
  byte, decodes.
\<close>

locale curve_laws = miracl_laws M for M :: "('fp, 'fp2, 'ecp2, 'g2) miracl" +
  assumes modulus_bits: "0 < big_nbits M (rom_modulus M)" "big_nbits M (rom_modulus M) \<le> 381"
    and order_bits: "0 < big_nbits M (rom_curve_order M)" "big_nbits M (rom_curve_order M) \<le> 255"
    and encoded_point_decodes:
      "from_random_bytes M (rev (tl (ecp2_tobytes M (ecp2_affine M (ecp2_cfp M P)) (replicate 97 0) True))) \<noteq> None"

section \<open>Operations\<close>

type_synonym 'a curve_result = "(unit, 'a) outcome"

text \<open>Both the subtraction and the addition wrap for \<open>a = 0\<close>; division by 0 panics.\<close>

definition ceil_div :: "nat \<Rightarrow> nat \<Rightarrow> nat curve_result" where
  "ceil_div a b =
     (if b = 0 then Panic
      else if a = 0 then Ok (((2 ^ 64 - 1) div b + 1) mod 2 ^ 64)
      else Ok ((a - 1) div b + 1))"

text \<open>\<open>for j in 0..L { fd[j] = okm[start + j]; }\<close>\<close>

definition copy_chunk :: "bytes \<Rightarrow> nat \<Rightarrow> nat \<Rightarrow> bytes \<Rightarrow> bytes curve_result" where
  "copy_chunk okm start L fd =
     try_fold (\<lambda>fd j. and_then (slice_index okm (start + j)) (\<lambda>b. slice_set fd j b)) fd [0..<L]"

definition field_from_chunk ::
  "('fp, 'fp2, 'ecp2, 'g2) miracl \<Rightarrow> nat \<Rightarrow> nat \<Rightarrow> bytes \<Rightarrow> 'fp curve_result" where
  "field_from_chunk M q L fd =
     and_then (slice_range fd 0 L) (\<lambda>chunk. Ok (fp_new_big M (dbig_frombytes M chunk mod q)))"

definition hash_to_field2_step ::
  "('fp, 'fp2, 'ecp2, 'g2) miracl \<Rightarrow> nat \<Rightarrow> nat \<Rightarrow> bytes \<Rightarrow> bytes \<times> 'fp2 list \<Rightarrow> nat \<Rightarrow>
    (bytes \<times> 'fp2 list) curve_result"
where
  "hash_to_field2_step M q L okm s i =
     (case s of (fd, u) \<Rightarrow>
       and_then (copy_chunk okm (2 * i * L) L fd) (\<lambda>fd.
       and_then (field_from_chunk M q L fd) (\<lambda>w1.
       and_then (copy_chunk okm ((2 * i + 1) * L) L fd) (\<lambda>fd.
       and_then (field_from_chunk M q L fd) (\<lambda>w2.
       and_then (slice_set u i (fp2_new_fps M w1 w2)) (\<lambda>u.
       Ok (fd, u)))))))"

definition hash_to_field2_bls12381 ::
  "('fp, 'fp2, 'ecp2, 'g2) miracl \<Rightarrow> nat \<Rightarrow> nat \<Rightarrow> bytes \<Rightarrow> bytes \<Rightarrow> nat \<Rightarrow> 'fp2 list curve_result"
where
  "hash_to_field2_bls12381 M hash hlen dst msg ctr =
     (let u = [fp2_new M, fp2_new M];
          q = rom_modulus M; k = big_nbits M q;
          r = rom_curve_order M; m = big_nbits M r in
      and_then (ceil_div m 2) (\<lambda>half.
      and_then (ceil_div (k + half) 8) (\<lambda>L.
      let okm = xmd_expand M hash hlen (replicate 512 0) (2 * L * ctr) dst msg;
          fd = replicate 256 0 in
      and_then (try_fold (hash_to_field2_step M q L okm) (fd, u) [0..<ctr]) (\<lambda>(fd, u).
      Ok u))))"

definition to_affine :: "('fp, 'fp2, 'ecp2, 'g2) miracl \<Rightarrow> bytes \<Rightarrow> 'g2 curve_result" where
  "to_affine M compressed_rev = expect (from_random_bytes M compressed_rev)"

definition htp_dst :: bytes where
  "htp_dst = map of_char ''QUUX-V01-CS02-with-BLS12381G2_XMD:SHA-256_SSWU_RO_''"

text \<open>\<open>clone_from_slice\<close> panics when the lengths differ.\<close>

definition htp_bls12381_g2 :: "('fp, 'fp2, 'ecp2, 'g2) miracl \<Rightarrow> bytes \<Rightarrow> 'g2 curve_result" where
  "htp_bls12381_g2 M msg =
     and_then (hash_to_field2_bls12381 M (mc_sha2 M) (ecp_hash_type M) htp_dst msg 2) (\<lambda>u.
     and_then (slice_index u 0) (\<lambda>u_0.
     and_then (slice_index u 1) (\<lambda>u_1.
     let P = ecp2_map2point M u_0; P1 = ecp2_map2point M u_1;
         P = ecp2_add M P P1; P = ecp2_cfp M P; P = ecp2_affine M P;
         compressed = ecp2_tobytes M P (replicate 97 0) True in
     and_then (slice_range compressed 1 (length compressed)) (\<lambda>tail.
     and_then (rust_assert (length tail = 96)) (\<lambda>_.
     to_affine M (rev tail))))))"

section \<open>Supporting facts\<close>

lemma copy_chunk_prefix:
  "start + k \<le> length okm \<Longrightarrow> k \<le> length fd \<Longrightarrow>
     try_fold (\<lambda>fd j. and_then (slice_index okm (start + j)) (\<lambda>b. slice_set fd j b)) fd [0..<k] =
       (Ok (take k (drop start okm) @ drop k fd) :: bytes curve_result)"
proof (induction k)
  case (Suc k)
  have "drop k fd = fd ! k # drop (Suc k) fd" using Suc.prems by (simp add: Cons_nth_drop_Suc)
  moreover have "take (Suc k) (drop start okm) = take k (drop start okm) @ [okm ! (start + k)]"
    using Suc.prems by (simp add: take_Suc_conv_app_nth)
  ultimately show ?case
    using Suc by (simp add: try_fold_append slice_index_if slice_set_def list_update_append)
qed simp

lemma copy_chunk_Ok:
  "start + L \<le> length okm \<Longrightarrow> L \<le> length fd \<Longrightarrow>
     copy_chunk okm start L fd = Ok (take L (drop start okm) @ drop L fd)"
  unfolding copy_chunk_def by (rule copy_chunk_prefix)

text \<open>The chunk at position \<open>j\<close> of the expanded message, as a field element.\<close>

definition chunk_element :: "('fp, 'fp2, 'ecp2, 'g2) miracl \<Rightarrow> nat \<Rightarrow> bytes \<Rightarrow> nat \<Rightarrow> 'fp" where
  "chunk_element M L okm j =
     fp_new_big M (dbig_frombytes M (take L (drop (j * L) okm)) mod rom_modulus M)"

abbreviation element_at :: "('fp, 'fp2, 'ecp2, 'g2) miracl \<Rightarrow> nat \<Rightarrow> bytes \<Rightarrow> nat \<Rightarrow> 'fp2" where
  "element_at M L okm i \<equiv>
     fp2_new_fps M (chunk_element M L okm (2 * i)) (chunk_element M L okm (2 * i + 1))"

lemma hash_to_field2_step_Ok:
  assumes "(2 * i + 2) * L \<le> length okm" "L \<le> length fd" "i < length u"
  shows "\<exists>fd'. length fd' = length fd \<and>
    hash_to_field2_step M (rom_modulus M) L okm (fd, u) i = Ok (fd', u[i := element_at M L okm i])"
proof -
  have "2 * i * L + L \<le> length okm" "(2 * i + 1) * L + L \<le> length okm"
    using assms(1) by (simp_all add: algebra_simps)
  then show ?thesis
    using assms(2,3)
    by (simp add: hash_to_field2_step_def copy_chunk_Ok field_from_chunk_def slice_range_def
        slice_set_def chunk_element_def mult.commute)
qed

lemma field_chunk_size:
  "big_nbits M (rom_modulus M) = 381 \<Longrightarrow> big_nbits M (rom_curve_order M) = 255 \<Longrightarrow>
     hash_to_field2_bls12381 M hash hlen dst msg ctr =
       and_then (try_fold (hash_to_field2_step M (rom_modulus M) 64
           (xmd_expand M hash hlen (replicate 512 0) (2 * 64 * ctr) dst msg))
         (replicate 256 0, [fp2_new M, fp2_new M]) [0..<ctr]) (\<lambda>(fd, u). Ok u)"
  by (simp add: hash_to_field2_bls12381_def ceil_div_def Let_def)

lemma upt_two: "[0..<2] = [0, 1 :: nat]"
  by (simp add: numeral_2_eq_2)

context miracl_laws begin

lemma field2_two_steps:
  assumes "okm = xmd_expand M hash hlen (replicate 512 0) n dst msg" "L \<le> 64"
  shows "\<exists>fd. length fd = 256 \<and>
    try_fold (hash_to_field2_step M (rom_modulus M) L okm) (replicate 256 0, [fp2_new M, fp2_new M]) [0] =
      Ok (fd, [element_at M L okm 0, fp2_new M])"
    and "\<exists>fd. length fd = 256 \<and>
    try_fold (hash_to_field2_step M (rom_modulus M) L okm) (replicate 256 0, [fp2_new M, fp2_new M]) [0, 1] =
      Ok (fd, [element_at M L okm 0, element_at M L okm 1])"
proof -
  have len: "length okm = 512" by (simp add: assms expand_length)
  obtain fd where fd: "length fd = 256"
      "hash_to_field2_step M (rom_modulus M) L okm (replicate 256 0, [fp2_new M, fp2_new M]) 0 =
        Ok (fd, [element_at M L okm 0, fp2_new M])"
    using hash_to_field2_step_Ok[of 0 L okm "replicate 256 0" "[fp2_new M, fp2_new M]" M] len assms(2) by auto
  then show "\<exists>fd. length fd = 256 \<and>
    try_fold (hash_to_field2_step M (rom_modulus M) L okm) (replicate 256 0, [fp2_new M, fp2_new M]) [0] =
      Ok (fd, [element_at M L okm 0, fp2_new M])" by simp
  obtain fd' where "length fd' = 256"
      "hash_to_field2_step M (rom_modulus M) L okm (fd, [element_at M L okm 0, fp2_new M]) 1 =
        Ok (fd', [element_at M L okm 0, element_at M L okm 1])"
    using hash_to_field2_step_Ok[of 1 L okm fd "[element_at M L okm 0, fp2_new M]" M] len fd(1) assms(2) by auto
  with fd(2) show "\<exists>fd. length fd = 256 \<and>
    try_fold (hash_to_field2_step M (rom_modulus M) L okm) (replicate 256 0, [fp2_new M, fp2_new M]) [0, 1] =
      Ok (fd, [element_at M L okm 0, element_at M L okm 1])" by simp
qed

text \<open>After two field elements the decoding of the point is the only step that may still fail.\<close>

lemma htp_after_field2:
  assumes "hash_to_field2_bls12381 M (mc_sha2 M) (ecp_hash_type M) htp_dst msg 2 = Ok [u_0, u_1]"
  shows "htp_bls12381_g2 M msg = expect (from_random_bytes M (rev (tl (ecp2_tobytes M (ecp2_affine M
    (ecp2_cfp M (ecp2_add M (ecp2_map2point M u_0) (ecp2_map2point M u_1)))) (replicate 97 0) True))))"
  using assms tobytes_length
  by (simp add: htp_bls12381_g2_def Let_def slice_index_if slice_range_def to_affine_def drop_Suc)

end

context curve_laws begin

lemma chunk_at_most_64:
  obtains h L where "ceil_div (big_nbits M (rom_curve_order M)) 2 = Ok h"
    "ceil_div (big_nbits M (rom_modulus M) + h) 8 = Ok L" "L \<le> 64"
proof -
  let ?h = "(big_nbits M (rom_curve_order M) - 1) div 2 + 1"
  let ?L = "(big_nbits M (rom_modulus M) + ?h - 1) div 8 + 1"
  have "?h \<le> 128" using order_bits by simp
  then have "?L \<le> 64" using modulus_bits by simp
  then show ?thesis by (intro that[of ?h ?L]) (use modulus_bits order_bits in \<open>simp_all add: ceil_div_def\<close>)
qed

lemma htp_returns: "\<exists>Q. htp_bls12381_g2 M msg = Ok Q"
proof -
  obtain h L where L: "ceil_div (big_nbits M (rom_curve_order M)) 2 = Ok h"
    "ceil_div (big_nbits M (rom_modulus M) + h) 8 = Ok L" "L \<le> 64" by (rule chunk_at_most_64)
  obtain u_0 u_1 where u: "hash_to_field2_bls12381 M (mc_sha2 M) (ecp_hash_type M) htp_dst msg 2 = Ok [u_0, u_1]"
    using L(1,2) field2_two_steps(2)[OF refl L(3), of "mc_sha2 M" "ecp_hash_type M" "2 * L * 2" htp_dst msg]
    by (auto simp: hash_to_field2_bls12381_def Let_def upt_two)
  show ?thesis
    using encoded_point_decodes[of "ecp2_add M (ecp2_map2point M u_0) (ecp2_map2point M u_1)"]
    by (auto simp: htp_after_field2[OF u])
qed

end

lemma copy_chunk_not_Err: "copy_chunk okm start L fd \<noteq> Err e"
  unfolding copy_chunk_def
  by (rule try_fold_not_Err) (auto simp: outcome_simps slice_set_def split: if_splits)

lemma field2_third_step:
  assumes "length u = 2"
  shows "hash_to_field2_step M q L okm (fd, u) 2 = Panic"
proof (cases "hash_to_field2_step M q L okm (fd, u) 2")
  case (Ok x)
  then show ?thesis
    using assms by (auto simp: hash_to_field2_step_def outcome_simps slice_set_def split: if_splits)
next
  case (Err e)
  then show ?thesis
    by (auto simp: hash_to_field2_step_def outcome_simps slice_set_def field_from_chunk_def slice_range_def
      copy_chunk_not_Err split: if_splits)
qed simp

lemma upt_three: "2 < ctr \<Longrightarrow> [0..<ctr] = [0, 1] @ 2 # [3..<ctr]"
  by (simp add: upt_conv_Cons numeral_3_eq_3 numeral_2_eq_2)

section \<open>Properties\<close>

text \<open>
  C39: with the 381-bit modulus and the 255-bit order of BLS12-381 a field element takes 64 bytes, so
  that \<open>hash_to_field2_bls12381\<close> stays inside its 512, 256 and 2-element buffers exactly for at most two
  elements.  \<open>htp_bls12381_g2\<close> asks for two: it maps the elements read from the four chunks of the
  expanded message to the curve, adds them, clears the cofactor, and decodes the reversed encoding
  without its first byte; the only panic left is the failure of that decoding.\<close>

theorem hash_to_curve_in_bounds:
  assumes "miracl_laws M"
    and "big_nbits M (rom_modulus M) = 381" "big_nbits M (rom_curve_order M) = 255"
  shows "(hash_to_field2_bls12381 M hash hlen dst msg' ctr = Panic \<longleftrightarrow> 2 < ctr) \<and>
    htp_bls12381_g2 M msg =
      (let okm = xmd_expand M (mc_sha2 M) (ecp_hash_type M) (replicate 512 0) 256 htp_dst msg;
           P = ecp2_affine M (ecp2_cfp M (ecp2_add M (ecp2_map2point M (element_at M 64 okm 0))
             (ecp2_map2point M (element_at M 64 okm 1))))
       in expect (from_random_bytes M (rev (tl (ecp2_tobytes M P (replicate 97 0) True)))))"
proof
  note chunk = field_chunk_size[OF assms(2,3)]
  note steps = miracl_laws.field2_two_steps[OF assms(1), where L = 64, OF _ order.refl]
  show "hash_to_field2_bls12381 M hash hlen dst msg' ctr = Panic \<longleftrightarrow> 2 < ctr"
  proof (cases "2 < ctr")
    case True
    let ?okm = "xmd_expand M hash hlen (replicate 512 0) (2 * 64 * ctr) dst msg'"
    obtain fd where "try_fold (hash_to_field2_step M (rom_modulus M) 64 ?okm)
        (replicate 256 0, [fp2_new M, fp2_new M]) [0, 1] = Ok (fd, [element_at M 64 ?okm 0, element_at M 64 ?okm 1])"
      using steps(2)[OF refl] by blast
    with True show ?thesis
      unfolding chunk upt_three[OF True] try_fold_append by (simp add: field2_third_step)
  next
    case False
    then consider "ctr = 0" | "ctr = 1" | "ctr = 2" by linarith
    then show ?thesis
    proof cases
      case 2
      have "[0..<1] = [0 :: nat]" by simp
      with 2 show ?thesis
        unfolding chunk using steps(1)[OF refl, of hash hlen "2 * 64 * ctr" dst msg']
        by (elim exE conjE) (simp only: and_then.simps prod.case outcome.distinct, simp)
    next
      case 3
      with upt_two show ?thesis
        unfolding chunk using steps(2)[OF refl, of hash hlen "2 * 64 * ctr" dst msg']
        by (elim exE conjE) (simp only: and_then.simps prod.case outcome.distinct, simp)
    qed (simp add: chunk)
  qed
  let ?okm = "xmd_expand M (mc_sha2 M) (ecp_hash_type M) (replicate 512 0) (2 * 64 * 2) htp_dst msg"
  have "hash_to_field2_bls12381 M (mc_sha2 M) (ecp_hash_type M) htp_dst msg 2 =
      Ok [element_at M 64 ?okm 0, element_at M 64 ?okm 1]"
    using steps(2)[OF refl, of "mc_sha2 M" "ecp_hash_type M" "2 * 64 * 2" htp_dst msg]
    unfolding chunk upt_two by (elim exE conjE) (simp only: and_then.simps prod.case)
  then show "htp_bls12381_g2 M msg =
      (let okm = xmd_expand M (mc_sha2 M) (ecp_hash_type M) (replicate 512 0) 256 htp_dst msg;
           P = ecp2_affine M (ecp2_cfp M (ecp2_add M (ecp2_map2point M (element_at M 64 okm 0))
             (ecp2_map2point M (element_at M 64 okm 1))))
       in expect (from_random_bytes M (rev (tl (ecp2_tobytes M P (replicate 97 0) True)))))"
    by (simp add: miracl_laws.htp_after_field2[OF assms(1)] Let_def)
qed

text \<open>A library whose expansion repeats the length of the message and whose points are pairs of numbers.\<close>

definition M0 :: "(nat, nat \<times> nat, nat \<times> nat, nat) miracl" where
  "M0 = \<lparr> rom_modulus = 101, rom_curve_order = 103, mc_sha2 = 2, ecp_hash_type = 32,
     big_nbits = (\<lambda>n. if n = 101 then 381 else 255),
     xmd_expand = (\<lambda>_ _ okm _ _ msg. map (\<lambda>_. of_nat (length msg)) okm),
     dbig_frombytes = (\<lambda>bs. sum_list (map unat bs)), fp_new_big = id, fp2_new = (0, 0),
     fp2_new_fps = Pair, ecp2_map2point = id, ecp2_add = (\<lambda>P Q. (fst P + fst Q, snd P + snd Q)),
     ecp2_cfp = id, ecp2_affine = id, ecp2_tobytes = (\<lambda>P buf _. map (\<lambda>_. of_nat (fst P)) buf),
     from_random_bytes = (\<lambda>bs. Some (unat (hd bs))) \<rparr>"

interpretation m0: curve_laws M0
  by unfold_locales (simp_all add: M0_def)

theorem hash_to_curve_in_bounds_witness:
  "hash_to_field2_bls12381 M0 2 32 [] [5] 3 = Panic \<and> hash_to_field2_bls12381 M0 2 32 [] [5] 2 \<noteq> Panic"
proof -
  have bits: "big_nbits M0 (rom_modulus M0) = 381" "big_nbits M0 (rom_curve_order M0) = 255"
    by (simp_all add: M0_def)
  show ?thesis
    using hash_to_curve_in_bounds[OF m0.miracl_laws_axioms bits, of 2 32 "[]" "[5]" 3 "[]"]
      hash_to_curve_in_bounds[OF m0.miracl_laws_axioms bits, of 2 32 "[]" "[5]" 2 "[]"] by simp
qed

end
