(* ===== verification/Ciphertext.thy ===== *)
theory Ciphertext
  imports Keypair Hash_To_Curve
begin

text \<open>
  \<open>ferveo-tdec/src/ciphertext.rs\<close>: hybrid encryption to the DKG public key, the ciphertext
  validity check and decryption under a shared secret; the error type of
  \<open>ferveo-tdec/src/lib.rs\<close> and the key wrappers of \<open>ferveo-tdec/src/key_share.rs\<close>.
  SHA-256, ChaCha20-Poly1305, the point encodings and the library under the curve hash are the parameter \<open>crypto\<close>.
\<close>

section \<open>Errors and parameters\<close>

datatype tdec_error =
    CiphertextVerificationFailed
  | DecryptionShareVerificationFailed
  | SymmetricEncryptionError
  | InvalidShareIndex u32
  | InvalidValidatorDecryptionKey
  | IdentityDkgPublicKey
  | BincodeError
  | ArkSerializeError

type_synonym 'a tdec_result = "(tdec_error, 'a) outcome"

text \<open>
  \<open>chacha_encrypt key nonce msg aad\<close> and \<open>chacha_decrypt key nonce ctxt aad\<close> are the \<open>Aead\<close>
  methods of a cipher made from \<open>key\<close>; \<open>curve_lib\<close> is the external library on which
  \<open>ferveo-tdec/src/hash_to_curve.rs\<close> rests.
\<close>

record ('g1, 'g2, 'gt, 'fp, 'fp2, 'ecp2) crypto =
  codec_g1 :: "'g1 codec"
  codec_g2 :: "'g2 codec"
  codec_gt :: "'gt codec"
  sha256_digest :: "bytes \<Rightarrow> bytes"
  chacha_encrypt :: "bytes \<Rightarrow> bytes \<Rightarrow> bytes \<Rightarrow> bytes \<Rightarrow> bytes option"
  chacha_decrypt :: "bytes \<Rightarrow> bytes \<Rightarrow> bytes \<Rightarrow> bytes \<Rightarrow> bytes option"
  curve_lib :: "('fp, 'fp2, 'ecp2, 'g2) miracl"

locale crypto_laws =
  g1c: codec_laws "codec_g1 C" 48 + g2c: codec_laws "codec_g2 C" 96 + gtc: codec_laws "codec_gt C" 576 +
  curve: curve_laws "curve_lib C"
  for C :: "('g1, 'g2, 'gt, 'fp, 'fp2, 'ecp2) crypto" +
  assumes aead_roundtrip:
    "chacha_encrypt C key nonce msg aad = Some ctxt \<Longrightarrow> chacha_decrypt C key nonce ctxt aad = Some msg"

section \<open>Data\<close>

text \<open>The wrappers \<open>DkgPublicKey\<close>, \<open>PrivateKeyShare\<close> and \<open>SharedSecret\<close>.\<close>

datatype 'g1 dkg_public_key = DkgPublicKey (dkg_pk_point: 'g1)
datatype 'g2 private_key_share = PrivateKeyShare (private_share_point: 'g2)
datatype 'gt shared_secret = SharedSecret (secret_value: 'gt)

record ('g1, 'g2) ciphertext =
  ct_commitment :: 'g1
  ct_auth_tag :: 'g2
  ct_ciphertext :: bytes

record ('g1, 'g2) ciphertext_header =
  hdr_commitment :: 'g1
  hdr_auth_tag :: 'g2
  hdr_ciphertext_hash :: bytes

section \<open>Operations\<close>

definition sha256 :: "('g1, 'g2, 'gt, 'fp, 'fp2, 'ecp2) crypto \<Rightarrow> bytes \<Rightarrow> bytes" where
  "sha256 C input = sha256_digest C input"

text \<open>\<open>htp_bls12381_g2\<close> is not a \<open>Result\<close>: it gives a point or panics.\<close>

definition hash_to_g2 :: "('g1, 'g2, 'gt, 'fp, 'fp2, 'ecp2) crypto \<Rightarrow> bytes \<Rightarrow> 'g2 tdec_result" where
  "hash_to_g2 C message =
     and_then (unwrap (htp_bls12381_g2 (curve_lib C) message)) (\<lambda>point.
     and_then (ok_or (serialize_compressed (codec_g2 C) point) ArkSerializeError) (\<lambda>point_ser.
     ok_or (deserialize_compressed (codec_g2 C) point_ser) ArkSerializeError))"

definition construct_tag_hash ::
  "('g1, 'g2, 'gt, 'fp, 'fp2, 'ecp2) crypto \<Rightarrow> 'g1 \<Rightarrow> bytes \<Rightarrow> bytes \<Rightarrow> 'g2 tdec_result" where
  "construct_tag_hash C commitment ciphertext_hash aad =
     and_then (ok_or (serialize_compressed (codec_g1 C) commitment) ArkSerializeError)
       (\<lambda>hash_input. hash_to_g2 C (hash_input @ ciphertext_hash @ aad))"

definition header_check ::
  "('g1, 'g2, 'gt, 'fp, 'fp2, 'ecp2) crypto \<Rightarrow> ('f, 'g1::ab_group_add, 'g2::ab_group_add, 'gt::comm_monoid_mult) pairing \<Rightarrow>
    ('g1, 'g2) ciphertext_header \<Rightarrow> bytes \<Rightarrow> bool tdec_result"
where
  "header_check C E h aad =
     (if hdr_commitment h = 0 \<or> hdr_auth_tag h = 0 then Err CiphertextVerificationFailed
      else and_then (construct_tag_hash C (hdr_commitment h) (hdr_ciphertext_hash h) aad) (\<lambda>hash_g2.
        if multi_pairing E [hdr_commitment h, - g1_generator E] [hash_g2, hdr_auth_tag h] = 1
        then Ok True else Err CiphertextVerificationFailed))"

definition ciphertext_hash ::
  "('g1, 'g2, 'gt, 'fp, 'fp2, 'ecp2) crypto \<Rightarrow> ('g1, 'g2) ciphertext \<Rightarrow> bytes" where
  "ciphertext_hash C ct = sha256 C (ct_ciphertext ct)"

definition ct_header ::
  "('g1, 'g2, 'gt, 'fp, 'fp2, 'ecp2) crypto \<Rightarrow> ('g1, 'g2) ciphertext \<Rightarrow> ('g1, 'g2) ciphertext_header tdec_result" where
  "ct_header C ct =
     Ok \<lparr> hdr_commitment = ct_commitment ct, hdr_auth_tag = ct_auth_tag ct,
          hdr_ciphertext_hash = ciphertext_hash C ct \<rparr>"

definition ciphertext_check ::
  "('g1, 'g2, 'gt, 'fp, 'fp2, 'ecp2) crypto \<Rightarrow> ('f, 'g1::ab_group_add, 'g2::ab_group_add, 'gt::comm_monoid_mult) pairing \<Rightarrow>
    ('g1, 'g2) ciphertext \<Rightarrow> bytes \<Rightarrow> bool tdec_result"
where
  "ciphertext_check C E ct aad = and_then (ct_header C ct) (\<lambda>h. header_check C E h aad)"

definition ciphertext_payload :: "('g1, 'g2) ciphertext \<Rightarrow> bytes" where
  "ciphertext_payload ct = ct_ciphertext ct"

text \<open>The cipher object is represented by its key.\<close>

definition shared_secret_to_chacha ::
  "('g1, 'g2, 'gt, 'fp, 'fp2, 'ecp2) crypto \<Rightarrow> 'gt shared_secret \<Rightarrow> bytes tdec_result" where
  "shared_secret_to_chacha C ss =
     and_then (ok_or (serialize_compressed (codec_gt C) (secret_value ss)) ArkSerializeError)
       (\<lambda>prf_key. Ok (sha256 C prf_key))"

definition nonce_from_commitment :: "('g1, 'g2, 'gt, 'fp, 'fp2, 'ecp2) crypto \<Rightarrow> 'g1 \<Rightarrow> bytes tdec_result" where
  "nonce_from_commitment C commitment =
     and_then (ok_or (serialize_compressed (codec_g1 C) commitment) ArkSerializeError)
       (\<lambda>commitment_bytes. Ok (take 12 (sha256 C commitment_bytes)))"

text \<open>\<open>encrypt\<close> takes the generator by mutable reference: the new state is the second result.\<close>

definition encrypt ::
  "('g1, 'g2, 'gt, 'fp, 'fp2, 'ecp2) crypto \<Rightarrow> ('f, 'g1::ab_group_add, 'g2, 'gt) pairing \<Rightarrow> ('f, 'r) ark_rand \<Rightarrow>
    bytes \<Rightarrow> bytes \<Rightarrow> 'g1 dkg_public_key \<Rightarrow> 'r \<Rightarrow> ('g1, 'g2) ciphertext tdec_result \<times> 'r"
where
  "encrypt C E R message aad pubkey rng =
     (if dkg_pk_point pubkey = 0 then (Err IdentityDkgPublicKey, rng)
      else let (rand_element, rng') = scalar_rand R rng;
               product = pair E (g1_mul E (dkg_pk_point pubkey) rand_element) (g2_generator E);
               commitment = g1_mul E (g1_generator E) rand_element
           in (and_then (nonce_from_commitment C commitment) (\<lambda>nonce.
               and_then (shared_secret_to_chacha C (SharedSecret product)) (\<lambda>key.
               and_then (ok_or (chacha_encrypt C key nonce message aad) SymmetricEncryptionError) (\<lambda>ctxt.
               and_then (construct_tag_hash C commitment (sha256 C ctxt) aad) (\<lambda>tag_hash.
               Ok \<lparr> ct_commitment = commitment, ct_auth_tag = g2_mul E tag_hash rand_element,
                    ct_ciphertext = ctxt \<rparr>)))), rng'))"

definition decrypt_with_shared_secret_unchecked ::
  "('g1, 'g2, 'gt, 'fp, 'fp2, 'ecp2) crypto \<Rightarrow> ('g1, 'g2) ciphertext \<Rightarrow> bytes \<Rightarrow> 'gt shared_secret \<Rightarrow> bytes tdec_result"
where
  "decrypt_with_shared_secret_unchecked C ct aad ss =
     and_then (nonce_from_commitment C (ct_commitment ct)) (\<lambda>nonce.
     and_then (shared_secret_to_chacha C ss) (\<lambda>key.
     ok_or (chacha_decrypt C key nonce (ct_ciphertext ct) aad) CiphertextVerificationFailed))"

definition decrypt_with_shared_secret ::
  "('g1, 'g2, 'gt, 'fp, 'fp2, 'ecp2) crypto \<Rightarrow> ('f, 'g1::ab_group_add, 'g2::ab_group_add, 'gt::comm_monoid_mult) pairing \<Rightarrow>
    ('g1, 'g2) ciphertext \<Rightarrow> bytes \<Rightarrow> 'gt shared_secret \<Rightarrow> bytes tdec_result"
where
  "decrypt_with_shared_secret C E ct aad ss =
     and_then (ciphertext_check C E ct aad) (\<lambda>_. decrypt_with_shared_secret_unchecked C ct aad ss)"

definition decrypt_symmetric ::
  "('g1, 'g2, 'gt, 'fp, 'fp2, 'ecp2) crypto \<Rightarrow> ('f, 'g1::ab_group_add, 'g2::ab_group_add, 'gt::comm_monoid_mult) pairing \<Rightarrow>
    ('g1, 'g2) ciphertext \<Rightarrow> bytes \<Rightarrow> 'g2 private_key_share \<Rightarrow> bytes tdec_result"
where
  "decrypt_symmetric C E ct aad private_key =
     and_then (ciphertext_check C E ct aad) (\<lambda>_.
     decrypt_with_shared_secret_unchecked C ct aad
       (SharedSecret (pair E (ct_commitment ct) (private_share_point private_key))))"

section \<open>Supporting facts\<close>

text \<open>A header whose points are not the identity reaches the curve hash.\<close>

lemma header_check_never_panics:
  assumes "curve_laws (curve_lib C)"
  shows "construct_tag_hash C P hash aad \<noteq> Panic" "header_check C E h aad \<noteq> Panic"
proof -
  have "hash_to_g2 C msg \<noteq> Panic" for msg
    using curve_laws.htp_returns[OF assms, of msg] by (auto simp: hash_to_g2_def outcome_simps)
  then show "construct_tag_hash C P hash aad \<noteq> Panic" "header_check C E h aad \<noteq> Panic"
    by (auto simp: header_check_def construct_tag_hash_def outcome_simps)
qed

lemma encryption_never_panics:
  assumes "curve_laws (curve_lib C)"
  shows "fst (encrypt C E R msg aad pk rng) \<noteq> Panic" "decrypt_with_shared_secret C E ct aad ss \<noteq> Panic"
  by (auto simp: header_check_never_panics[OF assms] encrypt_def decrypt_with_shared_secret_def
      decrypt_with_shared_secret_unchecked_def ciphertext_check_def ct_header_def nonce_from_commitment_def
      shared_secret_to_chacha_def Let_def outcome_simps split: prod.splits)

lemma header_check_Ok_True: "header_check C E h aad = Ok b \<Longrightarrow> b"
  by (auto simp: header_check_def outcome_simps split: if_splits)

lemma ciphertext_check_header:
  "ciphertext_check C E ct aad = header_check C E \<lparr> hdr_commitment = ct_commitment ct,
     hdr_auth_tag = ct_auth_tag ct, hdr_ciphertext_hash = ciphertext_hash C ct \<rparr> aad"
  by (simp add: ciphertext_check_def ct_header_def)

context crypto_laws begin

lemma hash_to_g2_Ok: "hash_to_g2 C msg = Ok T \<longleftrightarrow> htp_bls12381_g2 (curve_lib C) msg = Ok T"
proof -
  obtain Q where Q: "htp_bls12381_g2 (curve_lib C) msg = Ok Q" using curve.htp_returns by blast
  then show ?thesis using g2c.encodes[of Q] by (auto simp: hash_to_g2_def)
qed

lemma construct_tag_hash_Ok: "\<exists>T. construct_tag_hash C P h aad = Ok T"
  using g1c.encodes[of P] curve.htp_returns by (auto simp: construct_tag_hash_def hash_to_g2_Ok)

lemma nonce_Ok: "\<exists>nonce. nonce_from_commitment C P = Ok nonce"
  using g1c.encodes[of P] by (auto simp: nonce_from_commitment_def)

lemma chacha_key_Ok: "\<exists>key. shared_secret_to_chacha C ss = Ok key"
  using gtc.encodes[of "secret_value ss"] by (auto simp: shared_secret_to_chacha_def)

end

text \<open>The validity check and the encryption scheme, over both interfaces.\<close>

locale tdec_scheme = crypto_laws C + pairing_laws E
  for C :: "('g1::ab_group_add, 'g2::ab_group_add, 'gt::comm_monoid_mult, 'fp, 'fp2, 'ecp2) crypto"
    and E :: "('f::field, 'g1, 'g2, 'gt) pairing"
begin

lemma tag_equation:
  "multi_pairing E [U, - g1_generator E] [T, W] = 1 \<longleftrightarrow> pair E U T = pair E (g1_generator E) W"
  by (metis multi_pairing_two mult.commute pair_product_one)

lemma header_check_iff:
  "header_check C E h aad = Ok True \<longleftrightarrow>
     hdr_commitment h \<noteq> 0 \<and> hdr_auth_tag h \<noteq> 0 \<and>
     (\<exists>r T. hdr_commitment h = g1_mul E (g1_generator E) r \<and>
        construct_tag_hash C (hdr_commitment h) (hdr_ciphertext_hash h) aad = Ok T \<and>
        hdr_auth_tag h = g2_mul E T r)"
proof -
  obtain r where r: "hdr_commitment h = g1_mul E (g1_generator E) r" by (rule g1.dlogE)
  obtain T where T: "construct_tag_hash C (hdr_commitment h) (hdr_ciphertext_hash h) aad = Ok T"
    using construct_tag_hash_Ok by blast
  have "pair E (hdr_commitment h) T = pair E (g1_generator E) (hdr_auth_tag h) \<longleftrightarrow>
      hdr_auth_tag h = g2_mul E T r"
    by (auto simp: r pair_shift pair_left_cancel)
  then show ?thesis using r T by (auto simp: header_check_def tag_equation)
qed

lemma header_check_cases:
  "header_check C E h aad = Ok True \<or> header_check C E h aad = Err CiphertextVerificationFailed"
proof -
  obtain T where "construct_tag_hash C (hdr_commitment h) (hdr_ciphertext_hash h) aad = Ok T"
    using construct_tag_hash_Ok by blast
  then show ?thesis by (auto simp: header_check_def)
qed

lemma encrypt_fields:
  assumes "encrypt C E R msg aad pk rng = (Ok ct, rng')"
  obtains r key nonce T where "scalar_rand R rng = (r, rng')"
    "dkg_pk_point pk \<noteq> 0"
    "ct_commitment ct = g1_mul E (g1_generator E) r"
    "nonce_from_commitment C (ct_commitment ct) = Ok nonce"
    "shared_secret_to_chacha C
       (SharedSecret (pair E (g1_mul E (dkg_pk_point pk) r) (g2_generator E))) = Ok key"
    "chacha_encrypt C key nonce msg aad = Some (ct_ciphertext ct)"
    "construct_tag_hash C (ct_commitment ct) (ciphertext_hash C ct) aad = Ok T"
    "ct_auth_tag ct = g2_mul E T r"
  using assms
  by (auto simp: encrypt_def Let_def outcome_simps ciphertext_hash_def split: if_splits prod.splits)

lemma encrypt_check:
  assumes "encrypt C E R msg aad pk rng = (Ok ct, rng')"
    and "ct_commitment ct \<noteq> 0" "ct_auth_tag ct \<noteq> 0"
  shows "ciphertext_check C E ct aad = Ok True"
  using assms(1)
proof (rule encrypt_fields)
  fix r T
  assume "ct_commitment ct = g1_mul E (g1_generator E) r"
    "construct_tag_hash C (ct_commitment ct) (ciphertext_hash C ct) aad = Ok T"
    "ct_auth_tag ct = g2_mul E T r"
  then show ?thesis
    using assms(2,3) by (auto simp: ciphertext_check_header header_check_iff)
qed

text \<open>The secret \<open>e([s]H, U)\<close> decrypts what was encrypted to \<open>[s]G\<close>.\<close>

lemma encrypt_secret:
  assumes "encrypt C E R msg aad (DkgPublicKey (g1_mul E (g1_generator E) s)) rng = (Ok ct, rng')"
    and "ct_commitment ct \<noteq> 0" "ct_auth_tag ct \<noteq> 0"
  shows "decrypt_with_shared_secret C E ct aad
    (SharedSecret (pair E (ct_commitment ct) (g2_mul E (g2_generator E) s))) = Ok msg"
  using assms(1)
proof (rule encrypt_fields)
  fix r key nonce
  assume U: "ct_commitment ct = g1_mul E (g1_generator E) r"
    and nonce: "nonce_from_commitment C (ct_commitment ct) = Ok nonce"
    and key: "shared_secret_to_chacha C (SharedSecret (pair E
      (g1_mul E (dkg_pk_point (DkgPublicKey (g1_mul E (g1_generator E) s))) r) (g2_generator E))) = Ok key"
    and enc: "chacha_encrypt C key nonce msg aad = Some (ct_ciphertext ct)"
  have "pair E (ct_commitment ct) (g2_mul E (g2_generator E) s) =
      pair E (g1_mul E (g1_mul E (g1_generator E) s) r) (g2_generator E)"
    by (simp add: U g1.mul_commute[of _ s] flip: pair_shift)
  then show ?thesis
    using key nonce aead_roundtrip[OF enc] encrypt_check[OF assms]
    by (simp add: decrypt_with_shared_secret_def decrypt_with_shared_secret_unchecked_def)
qed

end

section \<open>Sample primitives\<close>

text \<open>Concrete primitives over the sample field, for the witnesses: a checksum for SHA-256, a shift
  cipher with a tag for the AEAD, and a hash that avoids the identity.\<close>

definition codec17_gt :: "f17 expo codec" where
  "codec17_gt = \<lparr> serialize_compressed = (\<lambda>x. serialize_compressed (codec17 576) (exponent x)),
     deserialize_compressed = (\<lambda>bs. map_option Expo (deserialize_compressed (codec17 576) bs)) \<rparr>"

definition sha17 :: "bytes \<Rightarrow> bytes" where
  "sha17 bs = replicate 32 (hd (bs @ [0]) + 7)"

definition aead17_tag :: "bytes \<Rightarrow> bytes \<Rightarrow> bytes \<Rightarrow> u8" where
  "aead17_tag key nonce aad = hd key + 2 * hd nonce + 3 * sum_list aad"

text \<open>Field elements of one byte, so that the first byte of the message selects the point.\<close>

definition M17 :: "(nat, nat \<times> nat, nat \<times> nat, f17) miracl" where
  "M17 = \<lparr> rom_modulus = 16, rom_curve_order = 16, mc_sha2 = 2, ecp_hash_type = 32, big_nbits = (\<lambda>_. 4),
     xmd_expand = (\<lambda>_ _ okm _ _ msg. take (length okm) (take 1 msg @ okm)),
     dbig_frombytes = (\<lambda>bs. unat (hd bs)), fp_new_big = id, fp2_new = (0, 0), fp2_new_fps = Pair,
     ecp2_map2point = id, ecp2_add = (\<lambda>P Q. (fst P + fst Q, snd P + snd Q)), ecp2_cfp = id, ecp2_affine = id,
     ecp2_tobytes = (\<lambda>P buf _. map (\<lambda>_. of_nat (fst P)) buf),
     from_random_bytes = (\<lambda>bs. Some (next17 (unat (hd bs)))) \<rparr>"

definition C17 :: "(f17, f17, f17 expo, nat, nat \<times> nat, nat \<times> nat) crypto" where
  "C17 = \<lparr> codec_g1 = codec17 48, codec_g2 = codec17 96, codec_gt = codec17_gt,
     sha256_digest = sha17,
     chacha_encrypt = (\<lambda>key nonce msg aad.
       Some (map ((+) (hd key)) msg @ [aead17_tag key nonce aad])),
     chacha_decrypt = (\<lambda>key nonce ctxt aad.
       if ctxt \<noteq> [] \<and> last ctxt = aead17_tag key nonce aad
       then Some (map (\<lambda>b. b - hd key) (butlast ctxt)) else None),
     curve_lib = M17 \<rparr>"

lemma codec17_gt_laws: "codec_laws codec17_gt 576"
proof unfold_locales
  fix p :: "f17 expo"
  have "codec_laws (codec17 576) 576" by (rule codec17_laws) simp
  from codec_laws.encodes[OF this, of "exponent p"]
  show "\<exists>bs. serialize_compressed codec17_gt p = Some bs \<and> length bs = 576 \<and>
      deserialize_compressed codec17_gt bs = Some p"
    by (auto simp: codec17_gt_def)
qed

interpretation m17: curve_laws M17
  by unfold_locales (simp_all add: M17_def)

lemma htp_M17_nonzero: "htp_bls12381_g2 M17 msg \<noteq> Ok 0"
proof -
  have "from_random_bytes M17 bs \<noteq> Some 0" for bs by (simp add: M17_def next17_nonzero)
  then show ?thesis by (auto simp: htp_bls12381_g2_def to_affine_def Let_def outcome_simps)
qed

interpretation c17: crypto_laws C17
  using codec48.codec_laws_axioms codec96.codec_laws_axioms codec17_gt_laws m17.curve_laws_axioms
  by (simp add: crypto_laws_def crypto_laws_axioms_def) (simp add: C17_def comp_def)

interpretation scheme17: tdec_scheme C17 E17
  by unfold_locales

section \<open>Properties\<close>

text \<open>
  C18: the ciphertext validity check accepts exactly the headers with a non-identity commitment
  \<open>U = [r]G\<close> and a non-identity tag \<open>W = [r]H_G2(U, hash, aad)\<close>: for each commitment, hash and
  associated data one tag is accepted.  Every other header is refused with
  \<open>CiphertextVerificationFailed\<close>; the check never returns \<open>Ok(false)\<close> and never panics.
\<close>

theorem header_check_correct:
  assumes "crypto_laws C" "pairing_laws E"
  shows "header_check C E h aad =
    (if hdr_commitment h \<noteq> 0 \<and> hdr_auth_tag h \<noteq> 0 \<and>
       (\<exists>r T. hdr_commitment h = g1_mul E (g1_generator E) r \<and>
          construct_tag_hash C (hdr_commitment h) (hdr_ciphertext_hash h) aad = Ok T \<and>
          hdr_auth_tag h = g2_mul E T r)
     then Ok True else Err CiphertextVerificationFailed)"
proof -
  have scheme: "tdec_scheme C E" using assms by (simp add: tdec_scheme_def)
  show ?thesis
    using tdec_scheme.header_check_iff[OF scheme, of h aad]
      tdec_scheme.header_check_cases[OF scheme, of h aad] by auto
qed

theorem header_check_correct_witness:
  "header_check C17 E17 \<lparr> hdr_commitment = 3, hdr_auth_tag = 0, hdr_ciphertext_hash = [] \<rparr> []
     = Err CiphertextVerificationFailed"
  using header_check_correct[OF c17.crypto_laws_axioms e17.pairing_laws_axioms,
      of "\<lparr> hdr_commitment = 3, hdr_auth_tag = 0, hdr_ciphertext_hash = [] \<rparr>" "[]"] by simp

text \<open>
  Encrypting to the public key \<open>[s]G\<close> and decrypting with the private key \<open>[s]H\<close> under the
  same associated data gives the message back, whenever the sampled commitment and tag are not
  the identity.
\<close>

lemma encrypt_decrypt_symmetric:
  assumes "crypto_laws C" "pairing_laws E"
    and "encrypt C E R msg aad (DkgPublicKey (g1_mul E (g1_generator E) s)) rng = (Ok ct, rng')"
    and "ct_commitment ct \<noteq> 0" "ct_auth_tag ct \<noteq> 0"
  shows "decrypt_symmetric C E ct aad (PrivateKeyShare (g2_mul E (g2_generator E) s)) = Ok msg"
proof -
  have scheme: "tdec_scheme C E" using assms(1,2) by (simp add: tdec_scheme_def)
  show ?thesis
    using tdec_scheme.encrypt_secret[OF scheme assms(3-5)]
    by (simp add: decrypt_symmetric_def decrypt_with_shared_secret_def)
qed

definition sample_ct :: "(f17, f17) ciphertext" where
  "sample_ct = (case fst (encrypt C17 E17 R17 [10, 20] [1] (DkgPublicKey 5) 2) of Ok ct \<Rightarrow> ct)"

lemma sample_ct_ok:
  "encrypt C17 E17 R17 [10, 20] [1] (DkgPublicKey (g1_mul E17 (g1_generator E17) 5)) 2 = (Ok sample_ct, 3)"
  "ct_commitment sample_ct \<noteq> 0" "ct_auth_tag sample_ct \<noteq> 0"
  by code_simp+

text \<open>
  \<open>encrypt\<close> refuses the identity public key before it samples anything, and for every other
  key it fails only when the symmetric cipher fails.
\<close>

lemma encrypt_outcome:
  assumes "crypto_laws C"
  shows "(fst (encrypt C E R msg aad pk rng) = Err IdentityDkgPublicKey \<longleftrightarrow> dkg_pk_point pk = 0)
    \<and> (dkg_pk_point pk = 0 \<longrightarrow> snd (encrypt C E R msg aad pk rng) = rng)
    \<and> (dkg_pk_point pk \<noteq> 0 \<longrightarrow>
        fst (encrypt C E R msg aad pk rng) = Err SymmetricEncryptionError \<or>
        (\<exists>ct. fst (encrypt C E R msg aad pk rng) = Ok ct \<and>
           ct_commitment ct = g1_mul E (g1_generator E) (fst (scalar_rand R rng))))"
proof -
  obtain r rng' where r: "scalar_rand R rng = (r, rng')" by fastforce
  let ?U = "g1_mul E (g1_generator E) r"
  let ?S = "SharedSecret (pair E (g1_mul E (dkg_pk_point pk) r) (g2_generator E))"
  obtain nonce where n: "nonce_from_commitment C ?U = Ok nonce"
    using crypto_laws.nonce_Ok[OF assms] by blast
  obtain key where k: "shared_secret_to_chacha C ?S = Ok key"
    using crypto_laws.chacha_key_Ok[OF assms] by blast
  show ?thesis
  proof (cases "chacha_encrypt C key nonce msg aad")
    case None
    then show ?thesis by (auto simp: encrypt_def r n k)
  next
    case (Some c)
    obtain T where "construct_tag_hash C ?U (sha256 C c) aad = Ok T"
      using crypto_laws.construct_tag_hash_Ok[OF assms] by blast
    with Some show ?thesis by (auto simp: encrypt_def r n k)
  qed
qed

end
