(* ===== verification/Decryption.thy ===== *)
theory Decryption
  imports Ciphertext
begin

text \<open>
  \<open>ferveo-tdec/src/decryption.rs\<close>: the validator checksum, and the creation and verification of
  decryption shares in the simple and the precomputed variant.
\<close>

section \<open>Data\<close>

record 'g1 validator_share_checksum =
  checksum :: 'g1

record ('g1, 'gt) decryption_share_simple =
  simple_decryption_share :: 'gt
  simple_validator_checksum :: "'g1 validator_share_checksum"

record ('g1, 'gt) decryption_share_precomputed =
  decrypter_index :: nat
  precomputed_decryption_share :: 'gt
  precomputed_validator_checksum :: "'g1 validator_share_checksum"

section \<open>Operations\<close>

text \<open>\<open>Field::inverse\<close> of \<open>ark_ff\<close>: \<open>None\<close> on zero.\<close>

definition ff_inverse :: "'f::field \<Rightarrow> 'f option" where
  "ff_inverse x = (if x = 0 then None else Some (inverse x))"

definition validator_share_checksum_new ::
  "('f::field, 'g1, 'g2, 'gt) pairing \<Rightarrow> 'f \<Rightarrow> ('g1, 'g2) ciphertext_header \<Rightarrow>
    'g1 validator_share_checksum tdec_result"
where
  "validator_share_checksum_new E validator_decryption_key header =
     and_then (ok_or (ff_inverse validator_decryption_key) InvalidValidatorDecryptionKey)
       (\<lambda>inv. Ok \<lparr> checksum = g1_mul E (hdr_commitment header) inv \<rparr>)"

definition validator_share_checksum_verify ::
  "('f, 'g1, 'g2, 'gt) pairing \<Rightarrow> 'g1 validator_share_checksum \<Rightarrow> 'gt \<Rightarrow> 'g2 \<Rightarrow> 'g2 \<Rightarrow>
    ('g1, 'g2) ciphertext \<Rightarrow> bool"
where
  "validator_share_checksum_verify E self decryption_share share_aggregate validator_public_key ct =
     (if decryption_share \<noteq> pair E (checksum self) share_aggregate then False
      else if pair E (checksum self) validator_public_key \<noteq> pair E (ct_commitment ct) (g2_generator E)
      then False
      else True)"

definition decryption_share_simple_create_unchecked ::
  "('f::field, 'g1, 'g2, 'gt) pairing \<Rightarrow> 'f \<Rightarrow> 'g2 private_key_share \<Rightarrow> ('g1, 'g2) ciphertext_header \<Rightarrow>
    ('g1, 'gt) decryption_share_simple tdec_result"
where
  "decryption_share_simple_create_unchecked E validator_decryption_key private_key_share header =
     (let share = pair E (hdr_commitment header) (private_share_point private_key_share) in
      and_then (validator_share_checksum_new E validator_decryption_key header) (\<lambda>validator_checksum.
      Ok \<lparr> simple_decryption_share = share, simple_validator_checksum = validator_checksum \<rparr>))"

definition decryption_share_simple_create ::
  "('g1, 'g2, 'gt, 'fp, 'fp2, 'ecp2) crypto \<Rightarrow> ('f::field, 'g1::ab_group_add, 'g2::ab_group_add, 'gt::comm_monoid_mult) pairing \<Rightarrow>
    'f \<Rightarrow> 'g2 private_key_share \<Rightarrow> ('g1, 'g2) ciphertext_header \<Rightarrow> bytes \<Rightarrow>
    ('g1, 'gt) decryption_share_simple tdec_result"
where
  "decryption_share_simple_create C E validator_decryption_key private_key_share header aad =
     and_then (header_check C E header aad) (\<lambda>_.
     decryption_share_simple_create_unchecked E validator_decryption_key private_key_share header)"

definition decryption_share_simple_verify ::
  "('f, 'g1, 'g2, 'gt) pairing \<Rightarrow> ('g1, 'gt) decryption_share_simple \<Rightarrow> 'g2 \<Rightarrow> 'g2 \<Rightarrow>
    ('g1, 'g2) ciphertext \<Rightarrow> bool"
where
  "decryption_share_simple_verify E self share_aggregate validator_public_key ct =
     validator_share_checksum_verify E (simple_validator_checksum self)
       (simple_decryption_share self) share_aggregate validator_public_key ct"

definition decryption_share_precomputed_create_unchecked ::
  "('f::field, 'g1, 'g2, 'gt) pairing \<Rightarrow> nat \<Rightarrow> 'f \<Rightarrow> 'g2 private_key_share \<Rightarrow>
    ('g1, 'g2) ciphertext_header \<Rightarrow> 'f \<Rightarrow> ('g1, 'gt) decryption_share_precomputed tdec_result"
where
  "decryption_share_precomputed_create_unchecked E validator_index validator_decryption_key
       private_key_share header lagrange_coeff =
     (let u_to_lagrange_coeff = g1_mul E (hdr_commitment header) lagrange_coeff;
          share = pair E u_to_lagrange_coeff (private_share_point private_key_share) in
      and_then (validator_share_checksum_new E validator_decryption_key header) (\<lambda>validator_checksum.
      Ok \<lparr> decrypter_index = validator_index, precomputed_decryption_share = share,
           precomputed_validator_checksum = validator_checksum \<rparr>))"

definition decryption_share_precomputed_create ::
  "('g1, 'g2, 'gt, 'fp, 'fp2, 'ecp2) crypto \<Rightarrow> ('f::field, 'g1::ab_group_add, 'g2::ab_group_add, 'gt::comm_monoid_mult) pairing \<Rightarrow>
    nat \<Rightarrow> 'f \<Rightarrow> 'g2 private_key_share \<Rightarrow> ('g1, 'g2) ciphertext_header \<Rightarrow> bytes \<Rightarrow> 'f \<Rightarrow>
    ('g1, 'gt) decryption_share_precomputed tdec_result"
where
  "decryption_share_precomputed_create C E validator_index validator_decryption_key
       private_key_share header aad lagrange_coeff =
     and_then (header_check C E header aad) (\<lambda>_.
     decryption_share_precomputed_create_unchecked E validator_index validator_decryption_key
       private_key_share header lagrange_coeff)"

definition decryption_share_precomputed_verify ::
  "('f, 'g1, 'g2, 'gt) pairing \<Rightarrow> ('g1, 'gt) decryption_share_precomputed \<Rightarrow> 'g2 \<Rightarrow> 'g2 \<Rightarrow>
    ('g1, 'g2) ciphertext \<Rightarrow> bool"
where
  "decryption_share_precomputed_verify E self share_aggregate validator_public_key ct =
     validator_share_checksum_verify E (precomputed_validator_checksum self)
       (precomputed_decryption_share self) share_aggregate validator_public_key ct"

section \<open>Supporting facts\<close>

lemma ff_inverse_simps [simp]:
  "ff_inverse 0 = None" "x \<noteq> 0 \<Longrightarrow> ff_inverse x = Some (inverse x)"
  by (simp_all add: ff_inverse_def)

lemma checksum_verify_iff:
  "validator_share_checksum_verify E self D Y ek ct \<longleftrightarrow>
     D = pair E (checksum self) Y \<and>
     pair E (checksum self) ek = pair E (ct_commitment ct) (g2_generator E)"
  by (simp add: validator_share_checksum_verify_def)

lemma simple_create_unchecked_Ok:
  "decryption_share_simple_create_unchecked E b Z h = Ok s \<longleftrightarrow> b \<noteq> 0 \<and>
     s = \<lparr> simple_decryption_share = pair E (hdr_commitment h) (private_share_point Z),
           simple_validator_checksum = \<lparr> checksum = g1_mul E (hdr_commitment h) (inverse b) \<rparr> \<rparr>"
  by (auto simp: decryption_share_simple_create_unchecked_def validator_share_checksum_new_def
      ff_inverse_def)

lemma precomputed_create_unchecked_Ok:
  "decryption_share_precomputed_create_unchecked E i b Z h l = Ok s \<longleftrightarrow> b \<noteq> 0 \<and>
     s = \<lparr> decrypter_index = i,
           precomputed_decryption_share = pair E (g1_mul E (hdr_commitment h) l) (private_share_point Z),
           precomputed_validator_checksum = \<lparr> checksum = g1_mul E (hdr_commitment h) (inverse b) \<rparr> \<rparr>"
  by (auto simp: decryption_share_precomputed_create_unchecked_def validator_share_checksum_new_def
      ff_inverse_def)

lemma create_not_Panic:
  assumes "curve_laws (curve_lib C)"
  shows "decryption_share_simple_create C E b Z h aad \<noteq> Panic"
    "decryption_share_precomputed_create C E i b Z h aad l \<noteq> Panic"
  by (auto simp: header_check_never_panics[OF assms] decryption_share_simple_create_def decryption_share_simple_create_unchecked_def
      decryption_share_precomputed_create_def decryption_share_precomputed_create_unchecked_def
      validator_share_checksum_new_def outcome_simps)

context pairing_laws begin

text \<open>The checksum that passes the second equation is \<open>[b^-1]U\<close>, and it fixes the share.\<close>

lemma checksum_unique:
  assumes "b \<noteq> 0"
  shows "pair E Ck (g2_mul E (g2_generator E) b) = pair E U (g2_generator E) \<longleftrightarrow>
    Ck = g1_mul E U (inverse b)"
proof -
  have "pair E Ck (g2_mul E (g2_generator E) b) = pair E (g1_mul E Ck b) (g2_generator E)"
    by (simp add: pair_shift)
  then have "pair E Ck (g2_mul E (g2_generator E) b) = pair E U (g2_generator E) \<longleftrightarrow>
      g1_mul E Ck b = U"
    by (simp add: pair_right_cancel)
  also have "\<dots> \<longleftrightarrow> Ck = g1_mul E U (inverse b)"
    using assms by auto
  finally show ?thesis .
qed

lemma simple_verify_iff:
  assumes "b \<noteq> 0" "hdr_commitment h = ct_commitment ct"
  shows "decryption_share_simple_verify E s Y (g2_mul E (g2_generator E) b) ct \<longleftrightarrow>
    decryption_share_simple_create_unchecked E b (PrivateKeyShare (g2_mul E Y (inverse b))) h = Ok s"
  unfolding decryption_share_simple_verify_def checksum_verify_iff checksum_unique[OF assms(1)]
    simple_create_unchecked_Ok
  using assms by (cases s; cases "simple_validator_checksum s") (auto simp: pair_shift)

lemma precomputed_verify_iff:
  assumes "b \<noteq> 0" "ct_commitment ct \<noteq> 0" "Z \<noteq> 0" "hdr_commitment h = ct_commitment ct"
    and "decryption_share_precomputed_create_unchecked E i b (PrivateKeyShare Z) h l = Ok s"
  shows "decryption_share_precomputed_verify E s (g2_mul E Z b) (g2_mul E (g2_generator E) b) ct \<longleftrightarrow>
    l = 1"
proof -
  have s: "precomputed_decryption_share s = pair E (g1_mul E (ct_commitment ct) l) Z"
    "checksum (precomputed_validator_checksum s) = g1_mul E (ct_commitment ct) (inverse b)"
    using assms(4,5) by (auto simp: precomputed_create_unchecked_Ok)
  have "pair E (g1_mul E (ct_commitment ct) (inverse b)) (g2_mul E Z b) = pair E (ct_commitment ct) Z"
    using assms(1) by (simp flip: pair_shift)
  then have "decryption_share_precomputed_verify E s (g2_mul E Z b) (g2_mul E (g2_generator E) b) ct \<longleftrightarrow>
      pair E (g1_mul E (ct_commitment ct) l) Z = pair E (g1_mul E (ct_commitment ct) 1) Z"
    using s by (simp add: decryption_share_precomputed_verify_def checksum_verify_iff
        checksum_unique[OF assms(1)])
  then show ?thesis
    using assms(2,3) by (simp add: pair_right_cancel g1.mul_left_cancel del: g1.mul_one)
qed

end

section \<open>Properties\<close>

text \<open>
  C35: an honestly created precomputed share does not pass \<open>DecryptionSharePrecomputed::verify\<close>
  unless its Lagrange coefficient is 1: creation raises \<open>U\<close> to the coefficient, verification
  compares with \<open>e(C_i, Y_i)\<close>, which has no coefficient.
\<close>

theorem decryption_share_precomputed_verify_only_unit_coefficient:
  assumes "pairing_laws E" "b \<noteq> 0" "ct_commitment ct \<noteq> 0" "Z \<noteq> 0"
    and "hdr_commitment h = ct_commitment ct"
    and "decryption_share_precomputed_create_unchecked E i b (PrivateKeyShare Z) h l = Ok s"
  shows "decryption_share_precomputed_verify E s (g2_mul E Z b) (g2_mul E (g2_generator E) b) ct \<longleftrightarrow>
    l = 1"
  by (rule pairing_laws.precomputed_verify_iff[OF assms])

definition sample_precomputed_share :: "(f17, f17 expo) decryption_share_precomputed" where
  "sample_precomputed_share =
     (case decryption_share_precomputed_create_unchecked E17 0 5 (PrivateKeyShare 2)
        \<lparr> hdr_commitment = 3, hdr_auth_tag = 1, hdr_ciphertext_hash = [] \<rparr> 4 of Ok s \<Rightarrow> s)"

theorem decryption_share_precomputed_verify_only_unit_coefficient_witness:
  "\<not> decryption_share_precomputed_verify E17 sample_precomputed_share (g2_mul E17 2 5)
     (g2_mul E17 (g2_generator E17) 5) \<lparr> ct_commitment = 3, ct_auth_tag = 1, ct_ciphertext = [] \<rparr>"
proof -
  let ?ct = "\<lparr> ct_commitment = 3, ct_auth_tag = 1, ct_ciphertext = [] \<rparr> :: (f17, f17) ciphertext"
  let ?h = "\<lparr> hdr_commitment = 3, hdr_auth_tag = 1, hdr_ciphertext_hash = [] \<rparr> :: (f17, f17) ciphertext_header"
  have nz: "(5::f17) \<noteq> 0" "ct_commitment ?ct \<noteq> 0" "(2::f17) \<noteq> 0" "hdr_commitment ?h = ct_commitment ?ct"
    and l: "(4::f17) \<noteq> 1"
    and mk: "decryption_share_precomputed_create_unchecked E17 0 5 (PrivateKeyShare 2) ?h 4 =
      Ok sample_precomputed_share"
    by code_simp+
  show ?thesis
    using decryption_share_precomputed_verify_only_unit_coefficient[OF e17.pairing_laws_axioms nz mk] l
    by simp
qed

end
