(* ===== verification/Combine.thy ===== *)
theory Combine
  imports Decryption
begin

text \<open>
  \<open>ferveo-tdec/src/combine.rs\<close>: Lagrange coefficients over the domain points of the shares and
  the combination of decryption shares into the shared secret.
\<close>

section \<open>Operations\<close>

text \<open>
  The two nested loops of \<open>lagrange_basis_at\<close>.  The division of the sources panics on a zero
  divisor; the guard \<open>x_j != x_m\<close> excludes that.
\<close>

definition lagrange_basis_at :: "'f::field list \<Rightarrow> 'f \<Rightarrow> 'f list" where
  "lagrange_basis_at shares_x x_i =
     map (\<lambda>x_j. fold (\<lambda>x_m prod. if x_j \<noteq> x_m then prod * ((x_m - x_i) / (x_m - x_j)) else prod)
            shares_x 1) shares_x"

definition prepare_combine_simple :: "'f::field list \<Rightarrow> 'f list" where
  "prepare_combine_simple domain = lagrange_basis_at domain 0"

definition share_combine_simple ::
  "('f, 'g1, 'g2, 'gt::comm_monoid_mult) pairing \<Rightarrow> ('g1, 'gt) decryption_share_simple list \<Rightarrow>
    'f list \<Rightarrow> 'gt shared_secret"
where
  "share_combine_simple E decryption_shares lagrange_coeffs =
     SharedSecret (fold (\<lambda>(c_i, alpha_i) acc. acc * simple_decryption_share c_i ^ into_bigint E alpha_i)
       (zip decryption_shares lagrange_coeffs) 1)"

definition share_combine_precomputed ::
  "('g1, 'gt::comm_monoid_mult) decryption_share_precomputed list \<Rightarrow> 'gt shared_secret" where
  "share_combine_precomputed shares =
     SharedSecret (fold (\<lambda>c_i acc. acc * precomputed_decryption_share c_i) shares 1)"

section \<open>Supporting facts\<close>

lemma fold_cond_prod:
  "fold (\<lambda>x_m prod. if x_j \<noteq> x_m then prod * h x_m else prod) xs acc =
     acc * prod_list (map h (filter (\<lambda>x_m. x_m \<noteq> x_j) xs))"
  for h :: "'f::field \<Rightarrow> 'f"
  by (induction xs arbitrary: acc) (auto simp: mult.assoc)

lemma lagrange_basis_at_distinct:
  assumes "distinct xs"
  shows "lagrange_basis_at xs x = map (\<lambda>x_j. lagrange_basis (set xs) x_j x) xs"
proof -
  have "prod_list (map (\<lambda>m. (m - x) / (m - x_j)) (filter (\<lambda>m. m \<noteq> x_j) xs)) =
      lagrange_basis (set xs) x_j x" for x_j
  proof -
    have "set (filter (\<lambda>m. m \<noteq> x_j) xs) = set xs - {x_j}" by auto
    then show ?thesis
      using assms by (simp add: lagrange_basis_def prod.distinct_set_conv_list[symmetric])
  qed
  then show ?thesis by (simp add: lagrange_basis_at_def fold_cond_prod)
qed

lemma length_lagrange_basis_at [simp]: "length (lagrange_basis_at xs x) = length xs"
  by (simp add: lagrange_basis_at_def)

lemma length_prepare_combine_simple [simp]: "length (prepare_combine_simple xs) = length xs"
  by (simp add: prepare_combine_simple_def)

lemma lagrange_basis_at_interpolates:
  assumes "distinct xs" "length cs \<le> length xs"
  shows "sum_list (map2 (*) (map (peval cs) xs) (lagrange_basis_at xs x)) = peval cs x"
proof -
  have "map2 (*) (map (peval cs) xs) (lagrange_basis_at xs x) =
      map (\<lambda>x_j. peval cs x_j * lagrange_basis (set xs) x_j x) xs"
    using assms(1) by (simp add: lagrange_basis_at_distinct map2_map_map)
  then have "sum_list (map2 (*) (map (peval cs) xs) (lagrange_basis_at xs x)) =
      (\<Sum>x_j\<in>set xs. peval cs x_j * lagrange_basis (set xs) x_j x)"
    using assms(1) by (simp add: sum.distinct_set_conv_list)
  with assms show ?thesis by (simp add: lagrange_interpolation)
qed

lemma fold_mult_prod_list: "fold (\<lambda>x acc. acc * h x) xs acc = acc * prod_list (map h xs)"
  for h :: "'a \<Rightarrow> 'b::comm_monoid_mult"
  by (induction xs arbitrary: acc) (simp_all add: mult_ac)

lemma share_combine_simple_prod:
  "share_combine_simple E shares coeffs = SharedSecret (prod_list
     (map2 (\<lambda>s l. simple_decryption_share s ^ into_bigint E l) shares coeffs))"
  using fold_mult_prod_list[of "\<lambda>(s, l). simple_decryption_share s ^ into_bigint E l"
      "zip shares coeffs" 1]
  by (simp add: share_combine_simple_def case_prod_unfold)

lemma share_combine_precomputed_prod:
  "share_combine_precomputed shares =
     SharedSecret (prod_list (map precomputed_decryption_share shares))"
  by (simp add: share_combine_precomputed_def fold_mult_prod_list)

context pairing_laws begin

lemma sum_scaled_shares:
  "sum_list (map2 (g2_mul E) (map (g2_mul E Q) ys) ls) = g2_mul E Q (sum_list (map2 (*) ys ls))"
proof (induction ys arbitrary: ls)
  case (Cons y ys)
  then show ?case by (cases ls) (simp_all add: g2.mul_simps)
qed simp

lemma combine_points:
  assumes "map simple_decryption_share shares = map (pair E U) Zs"
  shows "share_combine_simple E shares ls = SharedSecret (pair E U (sum_list (map2 (g2_mul E) Zs ls)))"
proof -
  have "map2 (\<lambda>s l. simple_decryption_share s ^ into_bigint E l) shares ls =
      map2 (\<lambda>D l. D ^ into_bigint E l) (map simple_decryption_share shares) ls"
    by (simp add: zip_map1 case_prod_unfold)
  also have "\<dots> = map (pair E U) (map2 (g2_mul E) Zs ls)"
    unfolding assms by (simp add: zip_map1 case_prod_unfold pair_mul_right)
  finally show ?thesis by (simp add: share_combine_simple_prod pair_sum_right del: map_map)
qed

lemma combine_simple_secret:
  assumes "distinct xs" "length cs \<le> length xs"
    and "map simple_decryption_share shares =
      map (\<lambda>x. pair E U (g2_mul E (g2_generator E) (peval cs x))) xs"
  shows "share_combine_simple E shares (prepare_combine_simple xs) =
    SharedSecret (pair E U (g2_mul E (g2_generator E) (peval cs 0)))"
proof -
  have "map simple_decryption_share shares =
      map (pair E U) (map (g2_mul E (g2_generator E)) (map (peval cs) xs))"
    using assms(3) by simp
  from combine_points[OF this, of "prepare_combine_simple xs"]
  show ?thesis
    using lagrange_basis_at_interpolates[OF assms(1,2), of 0]
    by (simp only: sum_scaled_shares prepare_combine_simple_def)
qed

lemma combine_precomputed_secret:
  assumes "distinct xs" "length cs \<le> length xs"
    and "map precomputed_decryption_share shares =
      map2 (\<lambda>x l. pair E (g1_mul E U l) (g2_mul E (g2_generator E) (peval cs x)))
        xs (prepare_combine_simple xs)"
  shows "share_combine_precomputed shares =
    SharedSecret (pair E U (g2_mul E (g2_generator E) (peval cs 0)))"
proof -
  have "map precomputed_decryption_share shares = map (pair E U)
      (map2 (g2_mul E) (map (g2_mul E (g2_generator E)) (map (peval cs) xs)) (prepare_combine_simple xs))"
    unfolding assms(3) by (simp add: zip_map1 case_prod_unfold pair_shift)
  then show ?thesis
    using lagrange_basis_at_interpolates[OF assms(1,2), of 0]
    by (simp only: share_combine_precomputed_prod pair_sum_right sum_scaled_shares
        prepare_combine_simple_def)
qed

end

section \<open>Properties\<close>

text \<open>
  The two variants agree: the product of precomputed shares, each raised to its Lagrange
  coefficient at creation, is the simple combination of the shares of the same validators.
\<close>

lemma precomputed_equals_simple:
  assumes "pairing_laws E" "distinct xs" "length cs \<le> length xs"
    and "map simple_decryption_share simple =
      map (\<lambda>x. pair E U (g2_mul E (g2_generator E) (peval cs x))) xs"
    and "map precomputed_decryption_share precomputed =
      map2 (\<lambda>x l. pair E (g1_mul E U l) (g2_mul E (g2_generator E) (peval cs x)))
        xs (prepare_combine_simple xs)"
  shows "share_combine_precomputed precomputed =
    share_combine_simple E simple (prepare_combine_simple xs)"
  by (simp only: pairing_laws.combine_precomputed_secret[OF assms(1,2,3,5)]
      pairing_laws.combine_simple_secret[OF assms(1,2,3,4)])

end
