(* ===== verification/Key_Share.thy ===== *)
theory Key_Share
  imports Combine
begin

text \<open>
  \<open>ferveo-tdec/src/key_share.rs\<close>: blinded key shares, unblinding, and the creation of
  decryption shares from them.
\<close>

section \<open>Data and operations\<close>

datatype 'g1 share_commitment = ShareCommitment (commitment_point: 'g1)

record 'g2 blinded_key_share =
  bks_validator_public_key :: 'g2
  bks_blinded_key_share :: 'g2

definition unblind ::
  "('f::field, 'g1, 'g2, 'gt) pairing \<Rightarrow> 'g2 blinded_key_share \<Rightarrow> 'f keypair \<Rightarrow>
    'g2 private_key_share tdec_result"
where
  "unblind E self validator_keypair =
     and_then (ok_or (ff_inverse (decryption_key validator_keypair)) InvalidValidatorDecryptionKey)
       (\<lambda>unblinding_factor. Ok (PrivateKeyShare (g2_mul E (bks_blinded_key_share self) unblinding_factor)))"

definition bks_create_decryption_share_simple ::
  "('g1, 'g2, 'gt, 'fp, 'fp2, 'ecp2) crypto \<Rightarrow> ('f::field, 'g1::ab_group_add, 'g2::ab_group_add, 'gt::comm_monoid_mult) pairing \<Rightarrow>
    'g2 blinded_key_share \<Rightarrow> ('g1, 'g2) ciphertext_header \<Rightarrow> bytes \<Rightarrow> 'f keypair \<Rightarrow>
    ('g1, 'gt) decryption_share_simple tdec_result"
where
  "bks_create_decryption_share_simple C E self header aad validator_keypair =
     and_then (unblind E self validator_keypair) (\<lambda>private_key_share.
     decryption_share_simple_create C E (decryption_key validator_keypair) private_key_share header aad)"

text \<open>
  The domain points are sorted by share index; the Lagrange coefficient of this validator is the
  one at the position of its share index in the sorted vector.
\<close>

definition bks_create_decryption_share_precomputed ::
  "('g1, 'g2, 'gt, 'fp, 'fp2, 'ecp2) crypto \<Rightarrow> ('f::field, 'g1::ab_group_add, 'g2::ab_group_add, 'gt::comm_monoid_mult) pairing \<Rightarrow>
    'g2 blinded_key_share \<Rightarrow> ('g1, 'g2) ciphertext_header \<Rightarrow> bytes \<Rightarrow> 'f keypair \<Rightarrow> u32 \<Rightarrow>
    (u32, 'f) hash_map \<Rightarrow> ('g1, 'gt) decryption_share_precomputed tdec_result"
where
  "bks_create_decryption_share_precomputed C E self header aad validator_keypair share_index
       domain_points_map =
     (let domain_points = sort_key fst domain_points_map;
          only_domain_points = map snd domain_points;
          lagrange_coeffs = prepare_combine_simple only_domain_points;
          sorted_share_indices =
            hm_collect (zip (map fst domain_points) [0..<length domain_points])
      in and_then (ok_or (map_of sorted_share_indices share_index) (InvalidShareIndex share_index))
           (\<lambda>adjusted_share_index.
         and_then (slice_index lagrange_coeffs adjusted_share_index) (\<lambda>lagrange_coeff.
         and_then (unblind E self validator_keypair) (\<lambda>private_key_share.
         decryption_share_precomputed_create C E (unat share_index) (decryption_key validator_keypair)
           private_key_share header aad lagrange_coeff))))"

section \<open>Supporting facts\<close>

lemma unblind_eq:
  "unblind E self kp = (if decryption_key kp = 0 then Err InvalidValidatorDecryptionKey
     else Ok (PrivateKeyShare (g2_mul E (bks_blinded_key_share self) (inverse (decryption_key kp)))))"
  by (simp add: unblind_def ff_inverse_def)

lemma unblind_not_Panic [simp]: "unblind E self kp \<noteq> Panic"
  by (simp add: unblind_eq)

lemma map_of_enumerate:
  assumes "distinct ks"
  shows "map_of (zip ks [0..<length ks]) k = Some i \<longleftrightarrow> i < length ks \<and> ks ! i = k"
proof -
  have "distinct (map fst (zip ks [0..<length ks]))" using assms by simp
  then have "map_of (zip ks [0..<length ks]) k = Some i \<longleftrightarrow> (k, i) \<in> set (zip ks [0..<length ks])"
    by (rule map_of_eq_Some_iff)
  also have "\<dots> \<longleftrightarrow> i < length ks \<and> ks ! i = k" by (auto simp: in_set_zip)
  finally show ?thesis .
qed

text \<open>The position of a share index in the sorted vector, and the coefficient found there.\<close>

lemma sorted_index_lookup:
  assumes "distinct (map fst m)"
  shows "map_of (hm_collect (zip (map fst (sort_key fst m)) [0..<length (sort_key fst m)])) i = Some k
    \<longleftrightarrow> k < length m \<and> fst (sort_key fst m ! k) = i"
proof -
  have d: "distinct (map fst (sort_key fst m))"
    by (metis assms distinct_map distinct_sort set_sort)
  then have "map_of (hm_collect (zip (map fst (sort_key fst m)) [0..<length (sort_key fst m)])) =
      map_of (zip (map fst (sort_key fst m)) [0..<length (sort_key fst m)])"
    by (intro hash_map.collect_lookup_distinct) simp
  with map_of_enumerate[OF d, of i k] show ?thesis by auto
qed

lemma sorted_coefficient:
  assumes "distinct (map fst m)" "distinct (map snd m)" "map_of m i = Some x"
  obtains k where "map_of (hm_collect (zip (map fst (sort_key fst m))
      [0..<length (sort_key fst m)])) i = Some k"
    "k < length m"
    "prepare_combine_simple (map snd (sort_key fst m)) ! k = lagrange_basis (set (map snd m)) x 0"
proof -
  have mem: "(i, x) \<in> set (sort_key fst m)" using assms(3) by (auto dest: map_of_SomeD)
  then obtain k where k: "k < length m" "sort_key fst m ! k = (i, x)"
    unfolding in_set_conv_nth length_sort by blast
  have "distinct (map snd (sort_key fst m))"
    by (metis assms(2) distinct_map distinct_sort set_sort)
  then have "prepare_combine_simple (map snd (sort_key fst m)) ! k =
      lagrange_basis (set (map snd m)) x 0"
    using k by (simp add: prepare_combine_simple_def lagrange_basis_at_distinct)
  moreover have "map_of (hm_collect (zip (map fst (sort_key fst m))
      [0..<length (sort_key fst m)])) i = Some k"
    using k by (subst sorted_index_lookup[OF assms(1)]) auto
  ultimately show ?thesis using that k(1) by blast
qed

lemma precomputed_missing_index:
  assumes "distinct (map fst m)" "map_of m i = None"
  shows "bks_create_decryption_share_precomputed C E self h aad kp i m = Err (InvalidShareIndex i)"
proof -
  have "map_of (hm_collect (zip (map fst (sort_key fst m)) [0..<length (sort_key fst m)])) i = None"
  proof (rule ccontr)
    assume "\<not> ?thesis"
    then obtain k where "k < length m" "fst (sort_key fst m ! k) = i"
      using sorted_index_lookup[OF assms(1), of i] by auto
    then have "i \<in> fst ` set m" by (metis image_eqI length_sort nth_mem set_sort)
    with assms(2) show False by (simp add: map_of_eq_None_iff)
  qed
  then show ?thesis by (simp add: bks_create_decryption_share_precomputed_def)
qed

lemma precomputed_present_index:
  assumes "distinct (map fst m)" "distinct (map snd m)" "map_of m i = Some x"
  shows "bks_create_decryption_share_precomputed C E self h aad kp i m =
    and_then (unblind E self kp) (\<lambda>Z. decryption_share_precomputed_create C E (unat i)
      (decryption_key kp) Z h aad (lagrange_basis (set (map snd m)) x 0))"
  using assms
proof (rule sorted_coefficient)
  fix k
  assume "map_of (hm_collect (zip (map fst (sort_key fst m))
      [0..<length (sort_key fst m)])) i = Some k" "k < length m"
    "prepare_combine_simple (map snd (sort_key fst m)) ! k = lagrange_basis (set (map snd m)) x 0"
  then show ?thesis
    by (simp add: bks_create_decryption_share_precomputed_def slice_index_def slice_get_def)
qed

lemma bks_precomputed_not_Panic:
  assumes "distinct (map fst m)" "curve_laws (curve_lib C)"
  shows "bks_create_decryption_share_precomputed C E self h aad kp i m \<noteq> Panic"
proof
  assume "bks_create_decryption_share_precomputed C E self h aad kp i m = Panic"
  then obtain k where "map_of (hm_collect (zip (map fst (sort_key fst m))
      [0..<length (sort_key fst m)])) i = Some k" "length m \<le> k"
    by (auto simp: create_not_Panic(2)[OF assms(2)] bks_create_decryption_share_precomputed_def Let_def outcome_simps)
  with sorted_index_lookup[OF assms(1), of i k] show False by simp
qed

section \<open>Properties\<close>

text \<open>
  Unblinding inverts blinding: a key share blinded with a validator's key, \<open>Y = [b]Z\<close>, is
  recovered by that validator, and a zero decryption key is reported as an error.
\<close>

lemma unblind_inverts_blinding:
  assumes "pairing_laws E"
  shows "unblind E \<lparr> bks_validator_public_key = ek,
      bks_blinded_key_share = g2_mul E Z (decryption_key kp) \<rparr> kp =
    (if decryption_key kp = 0 then Err InvalidValidatorDecryptionKey else Ok (PrivateKeyShare Z))"
proof -
  have act: "scalar_action (g2_mul E)"
    using assms by (simp add: pairing_laws_def cyclic_action_def)
  show ?thesis by (simp add: unblind_eq scalar_action.mul_cancel_inverse[OF act])
qed

text \<open>
  Precomputed share creation picks this validator's own Lagrange coefficient whatever the
  iteration order of the map of domain points: the share is \<open>e([l]U, [b^-1]Y)\<close> with \<open>l\<close> the basis
  polynomial of the validator's point at zero.  A validator outside the map gets
  \<open>InvalidShareIndex\<close>; nothing panics.
\<close>

lemma precomputed_share_coefficient:
  assumes "distinct (map fst m)" "distinct (map snd m)" "decryption_key kp \<noteq> 0"
    and "header_check C E h aad = Ok True"
  shows "bks_create_decryption_share_precomputed C E self h aad kp i m =
    (case map_of m i of
       None \<Rightarrow> Err (InvalidShareIndex i)
     | Some x \<Rightarrow> Ok \<lparr> decrypter_index = unat i,
         precomputed_decryption_share =
           pair E (g1_mul E (hdr_commitment h) (lagrange_basis (snd ` set m) x 0))
             (g2_mul E (bks_blinded_key_share self) (inverse (decryption_key kp))),
         precomputed_validator_checksum =
           \<lparr> checksum = g1_mul E (hdr_commitment h) (inverse (decryption_key kp)) \<rparr> \<rparr>)"
proof (cases "map_of m i")
  case None
  with assms(1) show ?thesis by (simp add: precomputed_missing_index)
next
  case (Some x)
  then show ?thesis
    using assms(3,4)
    by (simp add: precomputed_present_index[OF assms(1,2) Some] unblind_eq
        decryption_share_precomputed_create_def precomputed_create_unchecked_Ok)
qed

definition sample_header :: "(f17, f17) ciphertext_header" where
  "sample_header = \<lparr> hdr_commitment = ct_commitment sample_ct, hdr_auth_tag = ct_auth_tag sample_ct,
     hdr_ciphertext_hash = ciphertext_hash C17 sample_ct \<rparr>"

lemma sample_header_ok: "header_check C17 E17 sample_header [1] = Ok True"
  using scheme17.encrypt_check[OF sample_ct_ok]
  by (simp add: ciphertext_check_header sample_header_def)

end
