(* ===== verification/Validator.thy ===== *)
theory Validator
  imports Key_Share
begin

text \<open>
  \<open>ferveo/src/lib.rs\<close> (the error type) and \<open>ferveo/src/validator.rs\<close>: validator addresses, the
  validator record and the duplicate check on share indices.  A Rust string is the vector of its
  UTF-8 bytes; \<open>hex::decode\<close> belongs to another crate and is the parameter \<open>hex_decode\<close>.
\<close>

section \<open>Addresses and errors\<close>

datatype ethereum_address = EthereumAddress (address_bytes: bytes)

datatype ethereum_address_parse_error = InvalidLength | InvalidHex

datatype error =
    ThresholdEncryptionError tdec_error
  | DealerNotInValidatorSet ethereum_address
  | UnknownDealer ethereum_address
  | DuplicateDealer ethereum_address
  | InvalidPvssTranscript ethereum_address
  | InsufficientValidators u32 u32
  | InvalidTranscriptAggregate
  | InvalidTranscriptDegree u32 u32
  | EmptyTranscript
  | MismatchedTranscriptLengths string u32 u32
  | ValidatorPublicKeyMismatch
  | BincodeError
  | ArkSerializeError
  | InvalidByteLength nat nat
  | InvalidVariant string
  | InvalidDkgParameters u32 u32
  | InvalidShareIndex u32
  | InvalidShareUpdate
  | InvalidDkgParametersForPrecomputedVariant u32 u32
  | DuplicatedShareIndex u32
  | NoTranscriptsToAggregate
  | NoTranscriptsToVerify
  | InvalidAggregateVerificationParameters u32 u32
  | InvalidAggregatePublicKey
  | IdentityDkgPublicKey
  | TooManyTranscripts u32 u32
  | DuplicateTranscript ethereum_address
  | IdentityValidatorEncryptionKey ethereum_address

type_synonym 'a result = "(error, 'a) outcome"

definition ethereum_address_len :: nat where
  "ethereum_address_len = 42"

text \<open>\<open>s[2..]\<close> panics when byte 2 is inside a multi-byte character (a continuation byte \<open>10xxxxxx\<close>).\<close>

definition is_char_boundary :: "bytes \<Rightarrow> nat \<Rightarrow> bool" where
  "is_char_boundary s i \<longleftrightarrow>
     i = 0 \<or> i = length s \<or> (i < length s \<and> \<not> (128 \<le> s ! i \<and> s ! i < 192))"

definition str_from :: "bytes \<Rightarrow> nat \<Rightarrow> ('e, bytes) outcome" where
  "str_from s i = (if is_char_boundary s i then Ok (drop i s) else Panic)"

definition ethereum_address_from_str ::
  "(bytes \<Rightarrow> bytes option) \<Rightarrow> bytes \<Rightarrow> (ethereum_address_parse_error, ethereum_address) outcome"
where
  "ethereum_address_from_str hex_decode s =
     (if length s \<noteq> ethereum_address_len then Err InvalidLength
      else and_then (str_from s 2) (\<lambda>digits.
        and_then (ok_or (hex_decode digits) InvalidHex) (\<lambda>_. Ok (EthereumAddress s))))"

definition ethereum_address_fmt :: "ethereum_address \<Rightarrow> bytes" where
  "ethereum_address_fmt a = address_bytes a"

section \<open>Validators\<close>

record 'g2 validator =
  v_address :: ethereum_address
  v_public_key :: "'g2 public_key"
  v_share_index :: u32

definition validator_new ::
  "(bytes \<Rightarrow> bytes option) \<Rightarrow> bytes \<Rightarrow> 'g2 public_key \<Rightarrow> u32 \<Rightarrow>
    (ethereum_address_parse_error, 'g2 validator) outcome"
where
  "validator_new hex_decode address pk share_index =
     and_then (ethereum_address_from_str hex_decode address) (\<lambda>a.
       Ok \<lparr> v_address = a, v_public_key = pk, v_share_index = share_index \<rparr>)"

fun check_share_duplicates :: "u32 set \<Rightarrow> 'g2 validator list \<Rightarrow> unit result" where
  "check_share_duplicates seen [] = Ok ()"
| "check_share_duplicates seen (v # vs) =
     (if v_share_index v \<in> seen then Err (DuplicatedShareIndex (v_share_index v))
      else check_share_duplicates (insert (v_share_index v) seen) vs)"

definition assert_no_share_duplicates :: "'g2 validator list \<Rightarrow> unit result" where
  "assert_no_share_duplicates validators = check_share_duplicates {} validators"

section \<open>Supporting facts\<close>

lemma check_share_duplicates_Ok:
  "check_share_duplicates seen vs = Ok u \<longleftrightarrow>
     distinct (map v_share_index vs) \<and> seen \<inter> v_share_index ` set vs = {}"
  by (induction vs arbitrary: seen) auto

lemma check_share_duplicates_Err:
  "check_share_duplicates seen vs = Err e \<Longrightarrow>
     \<exists>pre v post. vs = pre @ v # post \<and> e = DuplicatedShareIndex (v_share_index v) \<and>
       v_share_index v \<in> seen \<union> v_share_index ` set pre \<and>
       distinct (map v_share_index pre) \<and> seen \<inter> v_share_index ` set pre = {}"
proof (induction vs arbitrary: seen)
  case (Cons v vs)
  show ?case
  proof (cases "v_share_index v \<in> seen")
    case True
    then have "v # vs = [] @ v # vs" "e = DuplicatedShareIndex (v_share_index v)"
      using Cons.prems by simp_all
    with True show ?thesis by fastforce
  next
    case False
    then have "check_share_duplicates (insert (v_share_index v) seen) vs = Err e"
      using Cons.prems by simp
    from Cons.IH[OF this] obtain pre w post where
      "vs = pre @ w # post" "e = DuplicatedShareIndex (v_share_index w)"
      "v_share_index w \<in> insert (v_share_index v) seen \<union> v_share_index ` set pre"
      "distinct (map v_share_index pre)" "insert (v_share_index v) seen \<inter> v_share_index ` set pre = {}"
      by blast
    with False show ?thesis
      by (intro exI[of _ "v # pre"] exI[of _ w] exI[of _ post]) auto
  qed
qed simp

lemma check_share_duplicates_not_Panic [simp]: "check_share_duplicates seen vs \<noteq> Panic"
  by (induction vs arbitrary: seen) auto

lemma assert_no_share_duplicates_eq [outcome_simps]:
  "assert_no_share_duplicates vs = Ok u \<longleftrightarrow> distinct (map v_share_index vs)"
  "assert_no_share_duplicates vs \<noteq> Panic"
  by (simp_all add: assert_no_share_duplicates_def check_share_duplicates_Ok)

text \<open>The documented contract of \<open>hex::decode\<close>: it accepts exactly the strings of pairs of
  hexadecimal digits, in either case.\<close>

definition is_hex_digit :: "u8 \<Rightarrow> bool" where
  "is_hex_digit b \<longleftrightarrow> (48 \<le> b \<and> b \<le> 57) \<or> (65 \<le> b \<and> b \<le> 70) \<or> (97 \<le> b \<and> b \<le> 102)"

locale hex_laws =
  fixes hex_decode :: "bytes \<Rightarrow> bytes option"
  assumes decode_None: "hex_decode s = None \<longleftrightarrow> odd (length s) \<or> (\<exists>b\<in>set s. \<not> is_hex_digit b)"
begin

lemma from_str_cases:
  "ethereum_address_from_str hex_decode s =
     (if length s \<noteq> 42 then Err InvalidLength
      else if 128 \<le> s ! 2 \<and> s ! 2 < 192 then Panic
      else if \<forall>b\<in>set (drop 2 s). is_hex_digit b then Ok (EthereumAddress s)
      else Err InvalidHex)"
proof (cases "hex_decode (drop 2 s)")
  case None
  then show ?thesis using decode_None[of "drop 2 s"]
    by (auto simp: ethereum_address_from_str_def ethereum_address_len_def str_from_def
        is_char_boundary_def)
next
  case (Some v)
  then have "hex_decode (drop 2 s) \<noteq> None" by simp
  then have "\<forall>b\<in>set (drop 2 s). is_hex_digit b" using decode_None[of "drop 2 s"] by auto
  with Some show ?thesis
    by (auto simp: ethereum_address_from_str_def ethereum_address_len_def str_from_def
        is_char_boundary_def)
qed

end

definition hex_value :: "u8 \<Rightarrow> u8" where
  "hex_value b = (if b \<le> 57 then b - 48 else if b \<le> 70 then b - 55 else b - 87)"

fun hex_pairs :: "bytes \<Rightarrow> bytes option" where
  "hex_pairs [] = Some []"
| "hex_pairs [b] = None"
| "hex_pairs (a # b # bs) =
     (if is_hex_digit a \<and> is_hex_digit b
      then map_option ((#) (hex_value a * 16 + hex_value b)) (hex_pairs bs) else None)"

interpretation hex: hex_laws hex_pairs
proof
  fix s show "hex_pairs s = None \<longleftrightarrow> odd (length s) \<or> (\<exists>b\<in>set s. \<not> is_hex_digit b)"
    by (induction s rule: hex_pairs.induct) auto
qed

section \<open>Properties\<close>

text \<open>
  C38: parsing an address accepts exactly the strings of 42 bytes whose last 40 are hexadecimal
  digits, and prints back what it parsed.  The first two bytes are never compared with \<open>0x\<close>,
  and a string of 42 bytes whose third byte continues a multi-byte character panics.
\<close>

theorem address_from_str_outcome:
  assumes "hex_laws hex_decode"
  shows "ethereum_address_from_str hex_decode s =
     (if length s \<noteq> 42 then Err InvalidLength
      else if 128 \<le> s ! 2 \<and> s ! 2 < 192 then Panic
      else if \<forall>b\<in>set (drop 2 s). is_hex_digit b then Ok (EthereumAddress s)
      else Err InvalidHex)"
  by (rule hex_laws.from_str_cases[OF assms])

theorem address_from_str_outcome_witness:
  "ethereum_address_from_str hex_pairs (replicate 42 48) = Ok (EthereumAddress (replicate 42 48)) \<and>
   ethereum_address_from_str hex_pairs (48 # 195 # 169 # replicate 39 48) = Panic"
  unfolding address_from_str_outcome[OF hex.hex_laws_axioms] by code_simp

text \<open>
  The duplicate check succeeds exactly on validator lists with pairwise distinct share
  indices; otherwise it reports the first index that occurs a second time.
\<close>

lemma no_share_duplicates_outcome:
  "(assert_no_share_duplicates vs = Ok () \<longleftrightarrow> distinct (map v_share_index vs)) \<and>
   (distinct (map v_share_index vs) \<or>
    (\<exists>pre v post. vs = pre @ v # post \<and> distinct (map v_share_index pre) \<and>
       v_share_index v \<in> v_share_index ` set pre \<and>
       assert_no_share_duplicates vs = Err (DuplicatedShareIndex (v_share_index v))))"
proof (cases "assert_no_share_duplicates vs")
  case (Err e)
  then have "check_share_duplicates {} vs = Err e" by (simp add: assert_no_share_duplicates_def)
  from check_share_duplicates_Err[OF this] Err show ?thesis
    by (auto simp: outcome_simps)
qed (auto simp: outcome_simps)

end
