(* ===== verification/Dkg.thy ===== *)
theory Dkg
  imports Validator
begin

text \<open>
  The state of \<open>ferveo/src/dkg.rs\<close>: the ritual parameters, \<open>PubliclyVerifiableDkg\<close>, its
  constructor and its lookups.  The operations that handle transcripts are in the theory that
  follows the transcripts.
\<close>

section \<open>Parameters\<close>

record dkg_params =
  tau :: u32
  security_threshold :: u32
  shares_num :: u32

definition dkg_params_validate :: "dkg_params \<Rightarrow> unit result" where
  "dkg_params_validate self =
     (if shares_num self < security_threshold self \<or> shares_num self = 0 \<or> security_threshold self = 0
      then Err (InvalidDkgParameters (shares_num self) (security_threshold self))
      else Ok ())"

definition dkg_params_new :: "u32 \<Rightarrow> u32 \<Rightarrow> u32 \<Rightarrow> dkg_params result" where
  "dkg_params_new t threshold shares =
     (let params = \<lparr> tau = t, security_threshold = threshold, shares_num = shares \<rparr>
      in and_then (dkg_params_validate params) (\<lambda>_. Ok params))"

section \<open>The DKG context\<close>

record ('g2, 'd) dkg =
  params :: dkg_params
  validators :: "(u32, 'g2 validator) btree_map"
  domain :: 'd
  me :: "'g2 validator"

text \<open>The loop over the validators in \<open>new\<close>: index range, then identity key, validator by validator.\<close>

fun check_validators :: "nat \<Rightarrow> 'g2::zero validator list \<Rightarrow> unit result" where
  "check_validators n [] = Ok ()"
| "check_validators n (v # vs) =
     (if n \<le> unat (v_share_index v) then Err (InvalidShareIndex (v_share_index v))
      else if encryption_key (v_public_key v) = 0 then Err (IdentityValidatorEncryptionKey (v_address v))
      else check_validators n vs)"

definition validators_by_index :: "'g2 validator list \<Rightarrow> (u32, 'g2 validator) btree_map" where
  "validators_by_index vs = bt_collect (map (\<lambda>v. (v_share_index v, v)) vs)"

definition dkg_new ::
  "('f, 'g1, 'd) ark_poly \<Rightarrow> 'g2::zero validator list \<Rightarrow> dkg_params \<Rightarrow> 'g2 validator \<Rightarrow> ('g2, 'd) dkg result"
where
  "dkg_new A vs ps self =
     and_then (dkg_params_validate ps) (\<lambda>_.
     and_then (assert_no_share_duplicates vs) (\<lambda>_.
     and_then (check_validators (length vs) vs) (\<lambda>_.
     and_then (expect (dom_new A (length vs))) (\<lambda>dm.
     let by_index = validators_by_index vs in
     case map_of by_index (v_share_index self) of
       Some my_validator \<Rightarrow>
         if v_public_key my_validator \<noteq> v_public_key self then Err ValidatorPublicKeyMismatch
         else Ok \<lparr> params = ps, validators = by_index, domain = dm, me = self \<rparr>
     | None \<Rightarrow> Err (DealerNotInValidatorSet (v_address self))))))"

definition get_validator :: "('g2, 'd) dkg \<Rightarrow> 'g2 public_key \<Rightarrow> 'g2 validator option" where
  "get_validator self pk = find (\<lambda>v. v_public_key v = pk) (map snd (validators self))"

definition domain_points :: "('f, 'g1, 'd) ark_poly \<Rightarrow> ('g2, 'd) dkg \<Rightarrow> 'f list" where
  "domain_points A self = take (length (validators self)) (dom_elements A (domain self))"

definition get_domain_point :: "('f, 'g1, 'd) ark_poly \<Rightarrow> ('g2, 'd) dkg \<Rightarrow> u32 \<Rightarrow> 'f result" where
  "get_domain_point A self share_index =
     ok_or (slice_get (domain_points A self) (unat share_index)) (InvalidShareIndex share_index)"

definition domain_point_map :: "('f, 'g1, 'd) ark_poly \<Rightarrow> ('g2, 'd) dkg \<Rightarrow> (u32, 'f) hash_map" where
  "domain_point_map A self =
     (let points = domain_points A self
      in hm_collect (map (\<lambda>(share_index, point). (of_nat share_index, point))
           (zip [0..<length points] points)))"

definition domain_and_key_map ::
  "('f, 'g1, 'd) ark_poly \<Rightarrow> ('g2, 'd) dkg \<Rightarrow> (u32, 'f \<times> 'g2 public_key) hash_map result" where
  "domain_and_key_map A self =
     (let point_map = domain_point_map A self in
      and_then (try_map (\<lambda>v.
          and_then (expect (map_of point_map (v_share_index v))) (\<lambda>domain_point.
          Ok (v_share_index v, (domain_point, v_public_key v))))
        (map snd (validators self)))
      (\<lambda>entries. Ok (hm_collect entries)))"

section \<open>The invariant\<close>

text \<open>
  What the rest of the protocol assumes of a context: valid parameters, the validators in the
  order of their share indices, which are exactly \<open>0, \<dots>, n - 1\<close>, no identity encryption key, a
  domain built for \<open>n\<close> points, and \<open>me\<close> registered under its index with its key.
\<close>

definition dkg_wf :: "('f, 'g1, 'd) ark_poly \<Rightarrow> ('g2::zero, 'd) dkg \<Rightarrow> bool" where
  "dkg_wf A d \<longleftrightarrow>
     dkg_params_validate (params d) = Ok () \<and>
     map fst (validators d) = map of_nat [0..<length (validators d)] \<and>
     length (validators d) \<le> 2 ^ 32 \<and>
     (\<forall>(i, v) \<in> set (validators d). v_share_index v = i \<and> encryption_key (v_public_key v) \<noteq> 0) \<and>
     dom_new A (length (validators d)) = Some (domain d) \<and>
     (\<exists>v. map_of (validators d) (v_share_index (me d)) = Some v \<and> v_public_key v = v_public_key (me d))"

section \<open>Supporting facts\<close>

lemma dkg_params_validate_eq [outcome_simps]:
  "dkg_params_validate ps = Ok u \<longleftrightarrow> 0 < security_threshold ps \<and> security_threshold ps \<le> shares_num ps"
  "dkg_params_validate ps \<noteq> Panic"
  by (auto simp: dkg_params_validate_def word_gt_0 word_le_0_iff not_less)

lemma check_validators_Ok:
  "check_validators n vs = Ok u \<longleftrightarrow>
     (\<forall>v\<in>set vs. unat (v_share_index v) < n \<and> encryption_key (v_public_key v) \<noteq> 0)"
  by (induction n vs rule: check_validators.induct) auto

lemma check_validators_not_Panic [simp]: "check_validators n vs \<noteq> Panic"
  by (induction n vs rule: check_validators.induct) auto

lemma sorted_u32_indices:
  fixes l :: "u32 list"
  assumes "sorted_wrt (<) l" "\<forall>k\<in>set l. unat k < n" "length l = n"
  shows "l = map of_nat [0..<n]" "n \<le> 2 ^ 32"
proof -
  have s: "sorted_wrt (<) (map unat l)"
    unfolding sorted_wrt_map
    by (rule sorted_wrt_mono_rel[OF _ assms(1)]) (simp add: word_less_nat_alt)
  have "card (set (map unat l)) = n"
    using s assms(3) by (metis distinct_card length_map strict_sorted_iff)
  moreover have "set (map unat l) \<subseteq> {0..<n}" using assms(2) by auto
  ultimately have "set (map unat l) = {0..<n}"
    by (intro card_subset_eq) auto
  then have u: "map unat l = [0..<n]"
    using s by (intro strict_sorted_equal) (auto simp: sorted_wrt_upt)
  then have "map of_nat (map unat l) = (map of_nat [0..<n] :: u32 list)" by simp
  then show "l = map of_nat [0..<n]" by (simp add: o_def)
  show "n \<le> 2 ^ 32"
  proof (cases n)
    case (Suc m)
    then have "m \<in> set (map unat l)" using u by simp
    then obtain w :: u32 where "m = unat w" by auto
    moreover have "(unsigned w :: nat) < 2 ^ LENGTH(32)" by (rule unsigned_less)
    ultimately show ?thesis using Suc by simp
  qed simp
qed

lemma dkg_new_Ok:
  assumes "dkg_new A vs ps self = Ok d"
  shows "d = \<lparr> params = ps, validators = validators_by_index vs, domain = domain d, me = self \<rparr>"
    "dkg_params_validate ps = Ok ()" "distinct (map v_share_index vs)"
    "\<forall>v\<in>set vs. unat (v_share_index v) < length vs \<and> encryption_key (v_public_key v) \<noteq> 0"
    "dom_new A (length vs) = Some (domain d)"
    "\<exists>v. map_of (validators_by_index vs) (v_share_index self) = Some v \<and> v_public_key v = v_public_key self"
  using assms
  by (auto simp: dkg_new_def outcome_simps check_validators_Ok Let_def split: option.splits if_splits)

lemma validators_by_index_set:
  assumes "distinct (map v_share_index vs)"
  shows "set (validators_by_index vs) = (\<lambda>v. (v_share_index v, v)) ` set vs"
    and "length (validators_by_index vs) = length vs"
  using assms btree.collect_set[of "map (\<lambda>v. (v_share_index v, v)) vs"]
    btree.collect_length[of "map (\<lambda>v. (v_share_index v, v)) vs"]
  by (simp_all add: validators_by_index_def o_def)

lemma validators_by_index_keys:
  assumes "distinct (map v_share_index vs)" "\<forall>v\<in>set vs. unat (v_share_index v) < length vs"
  shows "map fst (validators_by_index vs) = map of_nat [0..<length vs]" "length vs \<le> 2 ^ 32"
proof -
  have s: "sorted_wrt (<) (map fst (validators_by_index vs))"
    unfolding validators_by_index_def by (rule btree.collect_invar)
  have b: "\<forall>k\<in>set (map fst (validators_by_index vs)). unat k < length vs"
    using assms by (auto simp: validators_by_index_set)
  show "map fst (validators_by_index vs) = map of_nat [0..<length vs]" "length vs \<le> 2 ^ 32"
    using sorted_u32_indices[OF s b] assms(1) by (simp_all add: validators_by_index_set)
qed

lemma dkg_new_invariant:
  assumes "dkg_new A vs ps self = Ok d"
  shows "dkg_wf A d" "length (validators d) = length vs" "params d = ps" "me d = self"
proof -
  note ok = dkg_new_Ok[OF assms]
  have idx: "\<forall>v\<in>set vs. unat (v_share_index v) < length vs" using ok(4) by blast
  have v: "validators d = validators_by_index vs" and p: "params d = ps" and m: "me d = self"
    by (subst ok(1), simp)+
  show "params d = ps" "me d = self" by fact+
  show l: "length (validators d) = length vs" by (simp add: v validators_by_index_set[OF ok(3)])
  show "dkg_wf A d"
    unfolding dkg_wf_def l p m v
    using ok validators_by_index_keys[OF ok(3) idx] by (auto simp: validators_by_index_set[OF ok(3)])
qed

text \<open>Looking a validator up by its index is indexing the vector of validators.\<close>

lemma dkg_wf_nth:
  assumes "dkg_wf A d" "i < length (validators d)"
  shows "fst (validators d ! i) = of_nat i" "v_share_index (snd (validators d ! i)) = of_nat i"
    "unat (v_share_index (snd (validators d ! i))) = i"
    "encryption_key (v_public_key (snd (validators d ! i))) \<noteq> 0"
proof -
  have "map fst (validators d) ! i = of_nat i" using assms by (simp add: dkg_wf_def)
  then show f: "fst (validators d ! i) = of_nat i" using assms(2) by simp
  have "validators d ! i \<in> set (validators d)" using assms(2) by simp
  then have "v_share_index (snd (validators d ! i)) = fst (validators d ! i) \<and>
      encryption_key (v_public_key (snd (validators d ! i))) \<noteq> 0"
    using assms(1) by (fastforce simp: dkg_wf_def simp del: in_set_conv_nth)
  moreover have "i < 2 ^ 32" using assms by (auto simp: dkg_wf_def)
  ultimately show "v_share_index (snd (validators d ! i)) = of_nat i"
    "unat (v_share_index (snd (validators d ! i))) = i"
    "encryption_key (v_public_key (snd (validators d ! i))) \<noteq> 0"
    using f by (simp_all add: unat_of_nat_u32)
qed

lemma dkg_wf_member:
  assumes "dkg_wf A d" "v \<in> snd ` set (validators d)"
  obtains i where "i < length (validators d)" "v = snd (validators d ! i)"
    "v_share_index v = of_nat i" "unat (v_share_index v) = i"
  using assms(2) dkg_wf_nth(2,3)[OF assms(1)] by (metis (no_types, lifting) imageE in_set_conv_nth)

lemma dkg_wf_distinct:
  assumes "dkg_wf A d"
  shows "distinct (map fst (validators d))"
proof -
  have "inj_on (of_nat :: nat \<Rightarrow> u32) {0..<length (validators d)}"
    using assms by (intro inj_on_inverseI[where g = unat]) (auto simp: dkg_wf_def unat_of_nat_u32)
  then have "distinct (map (of_nat :: nat \<Rightarrow> u32) [0..<length (validators d)])"
    by (simp add: distinct_map)
  then show ?thesis using assms by (simp add: dkg_wf_def)
qed

lemma dkg_wf_lookup:
  assumes "dkg_wf A d"
  shows "map_of (validators d) i =
    (if unat i < length (validators d) then Some (snd (validators d ! unat i)) else None)"
proof (cases "unat i < length (validators d)")
  case True
  then have "(i, snd (validators d ! unat i)) \<in> set (validators d)"
    using dkg_wf_nth(1)[OF assms True] by (metis nth_mem of_nat_unat_u32 prod.collapse)
  then show ?thesis using dkg_wf_distinct[OF assms] True by (simp add: map_of_is_SomeI)
next
  case False
  have keys: "map fst (validators d) = map of_nat [0..<length (validators d)]"
    using assms by (simp add: dkg_wf_def)
  have "i \<notin> set (map fst (validators d))"
  proof
    assume "i \<in> set (map fst (validators d))"
    then obtain k where "k < length (validators d)" "i = of_nat k"
      unfolding keys by auto
    moreover from this have "k < 2 ^ 32" using assms by (simp add: dkg_wf_def)
    ultimately show False using False by (simp add: unat_of_nat_u32)
  qed
  then show ?thesis using False by (simp add: map_of_eq_None_iff)
qed


section \<open>Sessions\<close>

text \<open>
  A session is a well-formed context over the arkworks interfaces.  The transcripts, their
  verification and the decryption shares are developed over this interface.
\<close>

locale session =
  pairing_laws E + dm: domain_laws "g1_mul E" A
  for E :: "('f::field, 'g1::ab_group_add, 'g2::ab_group_add, 'gt::comm_monoid_mult) pairing"
    and A :: "('f, 'g1, 'd) ark_poly" +
  fixes d :: "('g2, 'd) dkg"
  assumes wf: "dkg_wf A d"
begin

lemma dom: "dom_new A (length (validators d)) = Some (domain d)"
  using wf by (simp add: dkg_wf_def)

lemma length_domain_points [simp]: "length (domain_points A d) = length (validators d)"
  using dm.dom_size[OF dom] by (simp add: domain_points_def)

lemma distinct_domain_points [simp]: "distinct (domain_points A d)"
  using dm.dom_distinct[OF dom] by (simp add: domain_points_def)

lemma domain_points_nonzero: "x \<in> set (domain_points A d) \<Longrightarrow> x \<noteq> 0"
  using dm.dom_nonzero[OF dom] by (auto simp: domain_points_def dest: in_set_takeD)

lemma nth_domain_points:
  "i < length (validators d) \<Longrightarrow> domain_points A d ! i = dom_elements A (domain d) ! i"
  by (simp add: domain_points_def)

lemma threshold_pos: "0 < unat (security_threshold (params d))"
  using wf by (simp add: dkg_wf_def outcome_simps word_less_nat_alt)

lemma validators_nonempty: "validators d \<noteq> []"
  using wf by (auto simp: dkg_wf_def)

lemma get_domain_point_eq:
  "get_domain_point A d i = (if unat i < length (validators d) then Ok (domain_points A d ! unat i)
     else Err (InvalidShareIndex i))"
  by (simp add: get_domain_point_def slice_get_def)

lemma domain_point_map_entries:
  "set (domain_point_map A d) =
     {(of_nat i, domain_points A d ! i) | i. i < length (validators d)}"
  "distinct (map fst (domain_point_map A d))"
proof -
  let ?l = "map (\<lambda>(i, p). (of_nat i :: u32, p))
      (zip [0..<length (validators d)] (domain_points A d))"
  have "map fst ?l = map of_nat [0..<length (validators d)]"
    by (rule nth_equalityI) simp_all
  then have "distinct (map fst ?l)"
    using dkg_wf_distinct[OF wf] wf by (simp add: dkg_wf_def)
  from hash_map.collect_set[OF this]
  have "set (domain_point_map A d) = set ?l" by (simp add: domain_point_map_def)
  also have "\<dots> = {(of_nat i, domain_points A d ! i) | i. i < length (validators d)}"
    by (force simp: set_zip)
  finally show "set (domain_point_map A d) =
     {(of_nat i, domain_points A d ! i) | i. i < length (validators d)}" .
  show "distinct (map fst (domain_point_map A d))"
    unfolding domain_point_map_def Let_def by (rule hash_map.collect_distinct)
qed

lemma domain_point_map_lookup:
  "map_of (domain_point_map A d) i =
     (if unat i < length (validators d) then Some (domain_points A d ! unat i) else None)"
proof (cases "unat i < length (validators d)")
  case True
  then have "(i, domain_points A d ! unat i) \<in> set (domain_point_map A d)"
    unfolding domain_point_map_entries by force
  then show ?thesis using True domain_point_map_entries(2) by (simp add: map_of_is_SomeI)
next
  case False
  have "i \<notin> fst ` set (domain_point_map A d)"
  proof
    assume "i \<in> fst ` set (domain_point_map A d)"
    then obtain k where k: "k < length (validators d)" "i = of_nat k"
      unfolding domain_point_map_entries by auto
    then have "k < 2 ^ 32" using wf by (auto simp: dkg_wf_def)
    then show False using False k by (simp add: unat_of_nat_u32)
  qed
  then show ?thesis using False by (simp add: map_of_eq_None_iff)
qed

lemma domain_and_key_map_entries:
  "\<exists>m. domain_and_key_map A d = Ok m \<and> distinct (map fst m) \<and>
     set m = {(of_nat i, (domain_points A d ! i, v_public_key (snd (validators d ! i)))) | i.
       i < length (validators d)}"
proof -
  let ?e = "\<lambda>v. (v_share_index v, (domain_points A d ! unat (v_share_index v), v_public_key v))"
  have "try_map (\<lambda>v. and_then (expect (map_of (domain_point_map A d) (v_share_index v)))
      (\<lambda>p. Ok (v_share_index v, (p, v_public_key v)))) (map snd (validators d)) =
      (Ok (map ?e (map snd (validators d))) :: (u32 \<times> 'f \<times> 'g2 public_key) list result)"
    by (intro try_map_Ok_map) (auto elim!: dkg_wf_member[OF wf] simp: domain_point_map_lookup)
  then have ok: "domain_and_key_map A d = Ok (hm_collect (map ?e (map snd (validators d))))"
    by (simp add: domain_and_key_map_def Let_def)
  have "map fst (map ?e (map snd (validators d))) = map fst (validators d)"
    using dkg_wf_nth(1,2)[OF wf] by (intro nth_equalityI) simp_all
  then have "distinct (map fst (map ?e (map snd (validators d))))"
    using dkg_wf_distinct[OF wf] by (simp only:)
  from hash_map.collect_set[OF this]
  have s: "set (hm_collect (map ?e (map snd (validators d)))) = set (map ?e (map snd (validators d)))" .
  have "map ?e (map snd (validators d)) = map (\<lambda>i. (of_nat i,
      (domain_points A d ! i, v_public_key (snd (validators d ! i))))) [0..<length (validators d)]"
    using dkg_wf_nth(2,3)[OF wf] by (intro nth_equalityI) simp_all
  then have "set (hm_collect (map ?e (map snd (validators d)))) =
      {(of_nat i, (domain_points A d ! i, v_public_key (snd (validators d ! i)))) | i.
       i < length (validators d)}"
    unfolding s by auto
  then show ?thesis using ok hash_map.collect_distinct by blast
qed

end

section \<open>A sample session\<close>

text \<open>Four validators with decryption keys 2, 3, 5, 7 and threshold 3, registered out of order.\<close>

definition sample_keypair :: "nat \<Rightarrow> f17 keypair" where
  "sample_keypair i = \<lparr> decryption_key = [2, 3, 5, 7] ! i \<rparr>"

definition sample_validator :: "nat \<Rightarrow> f17 validator" where
  "sample_validator i = \<lparr> v_address = EthereumAddress [of_nat i],
     v_public_key = keypair_public_key E17 (sample_keypair i), v_share_index = of_nat i \<rparr>"

definition sample_params :: dkg_params where
  "sample_params = \<lparr> tau = 0, security_threshold = 3, shares_num = 4 \<rparr>"

definition sample_dkg :: "(f17, f17 list) dkg" where
  "sample_dkg = \<lparr> params = sample_params,
     validators = map (\<lambda>i. (of_nat i, sample_validator i)) [0, 1, 2, 3],
     domain = [1, 4, 16, 13], me = sample_validator 1 \<rparr>"

lemma sample_dkg_new:
  "dkg_new A17 (map sample_validator [2, 0, 3, 1]) sample_params (sample_validator 1) = Ok sample_dkg"
  by code_simp

lemma session17_laws: "dkg_wf A17 d \<Longrightarrow> session E17 A17 d"
proof (intro session.intro session_axioms.intro)
  show "pairing_laws E17" by (rule e17.pairing_laws_axioms)
  show "domain_laws (g1_mul E17) A17"
    using a17.domain_laws_axioms by (simp add: dlog_pairing_def)
qed

interpretation session17: session E17 A17 sample_dkg
  by (rule session17_laws[OF dkg_new_invariant(1)[OF sample_dkg_new]])

section \<open>Properties\<close>

text \<open>
  C16: a context returned by the constructor satisfies the invariant of the protocol, holds exactly
  the given validators, in the order of their share indices \<open>0, \<dots>, n - 1\<close> whatever the order they
  were given in, and keeps the parameters and \<open>me\<close>.
\<close>

theorem dkg_new_establishes_wf:
  assumes "dkg_new A vs ps self = Ok d"
  shows "dkg_wf A d \<and> snd ` set (validators d) = set vs \<and> length (validators d) = length vs \<and>
    params d = ps \<and> me d = self"
proof -
  have "validators d = validators_by_index vs" by (subst dkg_new_Ok(1)[OF assms]) simp
  then have "snd ` set (validators d) = set vs"
    by (simp add: validators_by_index_set[OF dkg_new_Ok(3)[OF assms]] image_image)
  then show ?thesis using dkg_new_invariant[OF assms] by blast
qed

theorem dkg_new_establishes_wf_witness:
  "dkg_wf A17 sample_dkg \<and> snd ` set (validators sample_dkg) = set (map sample_validator [2, 0, 3, 1]) \<and>
   length (validators sample_dkg) = length (map sample_validator [2, 0, 3, 1]) \<and>
   params sample_dkg = sample_params \<and> me sample_dkg = sample_validator 1"
  by (rule dkg_new_establishes_wf[OF sample_dkg_new])

lemma dkg_new_branches:
  "dkg_new A vs ps self =
     (if \<not> (0 < security_threshold ps \<and> security_threshold ps \<le> shares_num ps)
      then Err (InvalidDkgParameters (shares_num ps) (security_threshold ps))
      else and_then (assert_no_share_duplicates vs) (\<lambda>_.
        and_then (check_validators (length vs) vs) (\<lambda>_.
        case dom_new A (length vs) of None \<Rightarrow> Panic
        | Some dm \<Rightarrow> (case map_of (validators_by_index vs) (v_share_index self) of
            None \<Rightarrow> Err (DealerNotInValidatorSet (v_address self))
          | Some v \<Rightarrow> if v_public_key v = v_public_key self
              then Ok \<lparr> params = ps, validators = validators_by_index vs, domain = dm, me = self \<rparr>
              else Err ValidatorPublicKeyMismatch))))"
  by (auto simp: dkg_new_def dkg_params_validate_def Let_def word_gt_0 not_less
      intro!: arg_cong2[where f = and_then] split: option.splits)

text \<open>
  C34: the constructor decides every input.  It succeeds exactly when the parameters are valid, the
  share indices are distinct and below the number of validators, no key is the identity, a domain
  of that size exists, and some validator has both the index and the key of \<open>me\<close>; it panics
  exactly when those checks pass and the field has no domain of that size.  The number of
  validators is not compared with \<open>shares_num\<close> or \<open>security_threshold\<close>.
\<close>

theorem dkg_new_decides:
  "((\<exists>d. dkg_new A vs ps self = Ok d) \<longleftrightarrow>
      0 < security_threshold ps \<and> security_threshold ps \<le> shares_num ps \<and>
      distinct (map v_share_index vs) \<and>
      {v \<in> set vs. length vs \<le> unat (v_share_index v) \<or> encryption_key (v_public_key v) = 0} = {} \<and>
      dom_new A (length vs) \<noteq> None \<and>
      (\<exists>v\<in>set vs. v_share_index v = v_share_index self \<and> v_public_key v = v_public_key self)) \<and>
   (dkg_new A vs ps self = Panic \<longleftrightarrow>
      0 < security_threshold ps \<and> security_threshold ps \<le> shares_num ps \<and>
      distinct (map v_share_index vs) \<and>
      {v \<in> set vs. length vs \<le> unat (v_share_index v) \<or> encryption_key (v_public_key v) = 0} = {} \<and>
      dom_new A (length vs) = None)"
proof -
  have m: "map_of (validators_by_index vs) i = Some v \<longleftrightarrow> v \<in> set vs \<and> v_share_index v = i"
    if "distinct (map v_share_index vs)" for i v
  proof -
    have "distinct (map fst (validators_by_index vs))"
      unfolding validators_by_index_def by (rule btree.collect_distinct)
    then show ?thesis using validators_by_index_set(1)[OF that] by (auto simp: map_of_eq_Some_iff)
  qed
  have c: "check_validators (length vs) vs = Ok () \<longleftrightarrow>
      {v \<in> set vs. length vs \<le> unat (v_share_index v) \<or> encryption_key (v_public_key v) = 0} = {}"
    by (auto simp: check_validators_Ok not_le)
  have f: "(\<exists>v\<in>set vs. v_share_index v = v_share_index self \<and> v_public_key v = v_public_key self) \<longleftrightarrow>
      (\<exists>v. map_of (validators_by_index vs) (v_share_index self) = Some v \<and> v_public_key v = v_public_key self)"
    if "distinct (map v_share_index vs)"
    using m[OF that] by auto
  show ?thesis
    unfolding dkg_new_branches c[symmetric]
    by (cases "distinct (map v_share_index vs)")
      (auto simp: outcome_simps f split: option.splits if_splits)
qed

text \<open>
  In a well-formed context the map from share index to domain point and key has an entry for
  every validator and no other, so that building it never panics; a domain point is returned
  exactly for the indices of validators, and different indices have different, nonzero points.
\<close>

lemma domain_lookups:
  assumes "session E A d"
  shows "(\<exists>m. domain_and_key_map A d = Ok m \<and> distinct (map fst m) \<and>
      set m = {(of_nat i, (domain_points A d ! i, v_public_key (snd (validators d ! i)))) | i.
        i < length (validators d)}) \<and>
    get_domain_point A d j = (if unat j < length (validators d)
      then Ok (domain_points A d ! unat j) else Err (InvalidShareIndex j)) \<and>
    length (domain_points A d) = length (validators d) \<and> distinct (domain_points A d) \<and>
    0 \<notin> set (domain_points A d)"
  using session.domain_and_key_map_entries[OF assms] session.get_domain_point_eq[OF assms]
    session.length_domain_points[OF assms] session.distinct_domain_points[OF assms]
    session.domain_points_nonzero[OF assms] by blast

end
