(* ===== verification/Subproduct.thy ===== *)
theory Subproduct
  imports Sample
begin

text \<open>
  \<open>fast_multiexp\<close> of \<open>subproductdomain/src/lib.rs\<close>, the one function of that crate the protocol
  crates call; the polynomial algorithms are in \<open>Subproduct_Tree\<close> and \<open>Toeplitz\<close>.
\<close>

text \<open>\<open>base.batch_mul(scalars)\<close>; the group is chosen by the batch multiplication passed in.\<close>

definition fast_multiexp :: "('g \<Rightarrow> 'f list \<Rightarrow> 'g list) \<Rightarrow> 'f list \<Rightarrow> 'g \<Rightarrow> 'g list" where
  "fast_multiexp batch_mul scalars base = batch_mul base scalars"

context pairing_laws begin

lemma fast_multiexp_eq:
  "fast_multiexp (g1_batch_mul E) xs P = map (g1_mul E P) xs"
  "fast_multiexp (g2_batch_mul E) xs Q = map (g2_mul E Q) xs"
  by (simp_all add: fast_multiexp_def g1_batch g2_batch)

end

end
