(* ===== verification/Pvss.thy ===== *)
theory Pvss
  imports Dkg Subproduct
begin

text \<open>
  \<open>ferveo/src/pvss.rs\<close> and \<open>ferveo/src/primitives.rs\<close>: publicly verifiable secret sharing
  transcripts, their creation, verification and aggregation, and the decryption shares made from
  an aggregate.  The marker types \<open>Unaggregated\<close> and \<open>Aggregated\<close> carry no data, so one record
  stands for \<open>PubliclyVerifiableSS\<close> with either marker.  Integers are those of a release build,
  the build the source comments on: \<open>security_threshold - 1\<close> wraps and \<open>debug_assert_eq!\<close> is
  compiled out.
\<close>

section \<open>Primitives\<close>

text \<open>Affine and projective points are the same group elements (see the arkworks interface).\<close>

definition into_group :: "'g \<Rightarrow> 'g" where
  "into_group a = a"

definition batch_to_projective_g1 :: "'g1 list \<Rightarrow> 'g1 list" where
  "batch_to_projective_g1 p = map into_group p"

definition batch_to_projective_g2 :: "'g2 list \<Rightarrow> 'g2 list" where
  "batch_to_projective_g2 p = map into_group p"

section \<open>Secret polynomials and transcripts\<close>

datatype 'f secret_polynomial = SecretPolynomial (poly_coeffs: "'f list")

definition secret_polynomial_new ::
  "('f, 'r) ark_rand \<Rightarrow> 'f \<Rightarrow> nat \<Rightarrow> 'r \<Rightarrow> 'f secret_polynomial result \<times> 'r" where
  "secret_polynomial_new R s degree rng =
     (let (phi, rng') = poly_rand R degree rng
      in (if phi = [] then Panic else Ok (SecretPolynomial (phi[0 := s])), rng'))"

definition secret_polynomial_zeroize :: "'f::zero secret_polynomial \<Rightarrow> 'f secret_polynomial" where
  "secret_polynomial_zeroize self = SecretPolynomial (map (\<lambda>c. 0) (poly_coeffs self))"

definition secret_polynomial_drop :: "'f::zero secret_polynomial \<Rightarrow> 'f secret_polynomial" where
  "secret_polynomial_drop self = secret_polynomial_zeroize self"

record ('g1, 'g2) pvss =
  coeffs :: "'g1 list"
  shares :: "'g2 list"
  sigma :: 'g2

text \<open>\<open>Hash\<close>: what is fed to the hasher, in order; the three field types hash by parameters.\<close>

definition pvss_hash ::
  "('g1 list \<Rightarrow> 'h \<Rightarrow> 'h) \<Rightarrow> ('g2 list \<Rightarrow> 'h \<Rightarrow> 'h) \<Rightarrow> ('g2 \<Rightarrow> 'h \<Rightarrow> 'h) \<Rightarrow> ('g1, 'g2) pvss \<Rightarrow> 'h \<Rightarrow> 'h"
where
  "pvss_hash hash_g1s hash_g2s hash_g2 self state =
     hash_g2 (sigma self) (hash_g2s (shares self) (hash_g1s (coeffs self) state))"

definition pvss_new ::
  "('f, 'g1, 'g2, 'gt) pairing \<Rightarrow> ('f, 'g1, 'd) ark_poly \<Rightarrow> ('f, 'r) ark_rand \<Rightarrow>
    'f \<Rightarrow> ('g2, 'd) dkg \<Rightarrow> 'r \<Rightarrow> ('g1, 'g2) pvss result \<times> 'r"
where
  "pvss_new E A R s d rng =
     (let (phi, rng') =
            secret_polynomial_new R s (unat (security_threshold (params d) - 1)) rng
      in (and_then phi (\<lambda>phi.
          let evals = map (poly_evaluate A (poly_coeffs phi)) (domain_points A d);
              commitments = fast_multiexp (g1_batch_mul E) (poly_coeffs phi) (g1_generator E)
          in and_then (try_map (\<lambda>v.
                 and_then (slice_index evals (unat (v_share_index v))) (\<lambda>eval.
                 slice_index (fast_multiexp (g2_batch_mul E) [eval]
                   (into_group (encryption_key (v_public_key v)))) 0))
               (map snd (validators d)))
             (\<lambda>blinded.
               if length blinded \<noteq> length (validators d)
               then Err (InsufficientValidators (of_nat (length blinded)) (of_nat (length (validators d))))
               else Ok \<lparr> coeffs = commitments, shares = blinded,
                 sigma = g2_mul E (g2_generator E) s \<rparr>)), rng'))"

definition verify_optimistic ::
  "('f, 'g1::zero, 'g2, 'gt) pairing \<Rightarrow> ('g1, 'g2) pvss \<Rightarrow> bool" where
  "verify_optimistic E self =
     (case slice_first (coeffs self) of
        None \<Rightarrow> False
      | Some f_0 \<Rightarrow>
          if f_0 = 0 then False
          else pair E (into_group f_0) (g2_generator E) = pair E (g1_generator E) (sigma self))"

section \<open>Full verification\<close>

definition get_share_commitments_from_poly_commitments ::
  "('f, 'g1, 'd) ark_poly \<Rightarrow> 'g1 list \<Rightarrow> 'd \<Rightarrow> 'g1 list" where
  "get_share_commitments_from_poly_commitments A poly_comms dm =
     (let commitment = batch_to_projective_g1 poly_comms in dom_fft A dm commitment)"

definition verify_validator_share ::
  "('f, 'g1, 'g2, 'gt) pairing \<Rightarrow> 'g1 list \<Rightarrow> 'g2 list \<Rightarrow> nat \<Rightarrow> 'g2 public_key \<Rightarrow> bool result"
where
  "verify_validator_share E share_commitments pvss_encrypted_shares share_index validator_pk =
     and_then (ok_or (slice_get pvss_encrypted_shares share_index)
         (InvalidShareIndex (of_nat share_index))) (\<lambda>y_i.
     let ek_i = into_group (encryption_key validator_pk) in
     and_then (ok_or (slice_get share_commitments share_index)
         (InvalidShareIndex (of_nat share_index))) (\<lambda>a_i.
     Ok (pair E (g1_generator E) y_i = pair E a_i ek_i)))"

text \<open>The loop over the validators: the first error, or \<open>Ok(false)\<close> at the first bad share.\<close>

fun verify_validator_shares ::
  "('f, 'g1, 'g2::zero, 'gt) pairing \<Rightarrow> 'g1 list \<Rightarrow> 'g2 list \<Rightarrow> 'g2 validator list \<Rightarrow> bool result"
where
  "verify_validator_shares E commitments encrypted [] = Ok True"
| "verify_validator_shares E commitments encrypted (v # vs) =
     (if encryption_key (v_public_key v) = 0 then Err (IdentityValidatorEncryptionKey (v_address v))
      else and_then (verify_validator_share E commitments encrypted (unat (v_share_index v)) (v_public_key v))
        (\<lambda>is_valid. if \<not> is_valid then Ok False else verify_validator_shares E commitments encrypted vs))"

definition do_verify_full ::
  "('f, 'g1::zero, 'g2::zero, 'gt) pairing \<Rightarrow> ('f, 'g1, 'd) ark_poly \<Rightarrow>
    'g1 list \<Rightarrow> 'g2 list \<Rightarrow> 'g2 validator list \<Rightarrow> 'd \<Rightarrow> u32 \<Rightarrow> bool result"
where
  "do_verify_full E A pvss_coefficients pvss_encrypted_shares vs dm threshold =
     and_then (assert_no_share_duplicates vs) (\<lambda>_.
     if length pvss_coefficients \<noteq> unat threshold
     then Err (InvalidTranscriptDegree threshold (of_nat (length pvss_coefficients)))
     else
       let degree_pinning_len =
             (case rposition (\<lambda>coeff. coeff \<noteq> 0) pvss_coefficients of None \<Rightarrow> 0 | Some last_pos \<Rightarrow> last_pos + 1)
       in if degree_pinning_len \<noteq> unat threshold
          then Err (InvalidTranscriptDegree threshold (of_nat degree_pinning_len))
          else if (case slice_first pvss_coefficients of None \<Rightarrow> True | Some f_0 \<Rightarrow> f_0 = 0) then Ok False
          else if vs = [] then Ok False
          else
            let share_commitments = get_share_commitments_from_poly_commitments A pvss_coefficients dm
            in verify_validator_shares E share_commitments pvss_encrypted_shares vs)"

definition verify_full ::
  "('f, 'g1::zero, 'g2::zero, 'gt) pairing \<Rightarrow> ('f, 'g1, 'd) ark_poly \<Rightarrow>
    ('g1, 'g2) pvss \<Rightarrow> ('g2, 'd) dkg \<Rightarrow> bool result"
where
  "verify_full E A self d =
     do_verify_full E A (coeffs self) (shares self) (map snd (validators d)) (domain d)
       (security_threshold (params d))"

definition do_verify_aggregation ::
  "('f, 'g1::ab_group_add, 'g2::zero, 'gt) pairing \<Rightarrow> ('f, 'g1, 'd) ark_poly \<Rightarrow>
    'g1 list \<Rightarrow> 'g2 list \<Rightarrow> 'g2 validator list \<Rightarrow> 'd \<Rightarrow> ('g1, 'g2) pvss list \<Rightarrow> u32 \<Rightarrow> bool result"
where
  "do_verify_aggregation E A pvss_agg_coefficients pvss_agg_encrypted_shares vs dm pvss threshold =
     (if pvss = [] then Err NoTranscriptsToVerify
      else and_then (do_verify_full E A pvss_agg_coefficients pvss_agg_encrypted_shares vs dm threshold)
        (\<lambda>is_valid. if \<not> is_valid then Err InvalidTranscriptAggregate
         else and_then (try_fold (\<lambda>acc pvss.
             and_then (ok_or (slice_first (coeffs pvss)) EmptyTranscript) (\<lambda>f_0.
             if \<not> verify_optimistic E pvss then Err InvalidTranscriptAggregate
             else Ok (acc + into_group f_0))) 0 pvss)
           (\<lambda>y. and_then (ok_or (slice_first pvss_agg_coefficients) EmptyTranscript) (\<lambda>agg_f_0.
              if y = agg_f_0 then Ok True else Err InvalidTranscriptAggregate))))"

definition verify_aggregation ::
  "('f, 'g1::ab_group_add, 'g2::zero, 'gt) pairing \<Rightarrow> ('f, 'g1, 'd) ark_poly \<Rightarrow>
    ('g1, 'g2) pvss \<Rightarrow> ('g2, 'd) dkg \<Rightarrow> ('g1, 'g2) pvss list \<Rightarrow> bool result"
where
  "verify_aggregation E A self d pvss =
     do_verify_aggregation E A (coeffs self) (shares self) (map snd (validators d)) (domain d) pvss
       (security_threshold (params d))"

section \<open>Decryption shares from an aggregate\<close>

definition get_share_for_index_and_pubkey ::
  "('g1, 'g2) pvss \<Rightarrow> u32 \<Rightarrow> 'g2 public_key \<Rightarrow> 'g2 blinded_key_share result" where
  "get_share_for_index_and_pubkey self share_index pk =
     and_then (ok_or (slice_get (shares self) (unat share_index)) (InvalidShareIndex share_index))
       (\<lambda>blinded. Ok \<lparr> bks_validator_public_key = encryption_key pk, bks_blinded_key_share = blinded \<rparr>)"

definition get_share_for_validator ::
  "('g1, 'g2) pvss \<Rightarrow> 'g2 validator \<Rightarrow> 'g2 blinded_key_share result" where
  "get_share_for_validator self v =
     get_share_for_index_and_pubkey self (v_share_index v) (v_public_key v)"

definition create_decryption_share_simple ::
  "('g1, 'g2, 'gt, 'fp, 'fp2, 'ecp2) crypto \<Rightarrow> ('f::field, 'g1::ab_group_add, 'g2::ab_group_add, 'gt::comm_monoid_mult) pairing \<Rightarrow>
    ('g1, 'g2) pvss \<Rightarrow> ('g1, 'g2) ciphertext_header \<Rightarrow> bytes \<Rightarrow> 'f keypair \<Rightarrow> u32 \<Rightarrow>
    ('g1, 'gt) decryption_share_simple result"
where
  "create_decryption_share_simple C E self header aad kp share_index =
     and_then (get_share_for_index_and_pubkey self share_index (keypair_public_key E kp)) (\<lambda>blinded.
     map_err ThresholdEncryptionError (bks_create_decryption_share_simple C E blinded header aad kp))"

definition create_decryption_share_precomputed ::
  "('g1, 'g2, 'gt, 'fp, 'fp2, 'ecp2) crypto \<Rightarrow> ('f::field, 'g1::ab_group_add, 'g2::ab_group_add, 'gt::comm_monoid_mult) pairing \<Rightarrow>
    ('g1, 'g2) pvss \<Rightarrow> ('g1, 'g2) ciphertext_header \<Rightarrow> bytes \<Rightarrow> 'f keypair \<Rightarrow> u32 \<Rightarrow>
    (u32, 'f) hash_map \<Rightarrow> ('g1, 'gt) decryption_share_precomputed result"
where
  "create_decryption_share_precomputed C E self header aad kp share_index points =
     and_then (get_share_for_index_and_pubkey self share_index (keypair_public_key E kp)) (\<lambda>share.
     map_err ThresholdEncryptionError
       (bks_create_decryption_share_precomputed C E share header aad kp share_index points))"

section \<open>Aggregation\<close>

record ('g1, 'g2) aggregated_transcript =
  aggregate_pvss :: "('g1, 'g2) pvss"
  agg_public_key :: "'g1 dkg_public_key"

fun aggregate_loop ::
  "'g1::ab_group_add list \<Rightarrow> 'g2::ab_group_add list \<Rightarrow> 'g2 \<Rightarrow> ('g1, 'g2) pvss list \<Rightarrow> ('g1, 'g2) pvss result"
where
  "aggregate_loop cs ss sg [] = Ok \<lparr> coeffs = cs, shares = ss, sigma = sg \<rparr>"
| "aggregate_loop cs ss sg (next_pvss # rest) =
     (if length (coeffs next_pvss) \<noteq> length cs
      then Err (MismatchedTranscriptLengths ''coefficients'' (of_nat (length cs))
        (of_nat (length (coeffs next_pvss))))
      else if length (shares next_pvss) \<noteq> length ss
      then Err (MismatchedTranscriptLengths ''shares'' (of_nat (length ss))
        (of_nat (length (shares next_pvss))))
      else
        and_then (zip_eq_with (+) cs (coeffs next_pvss)) (\<lambda>cs'.
        and_then (zip_eq_with (+) ss (shares next_pvss)) (\<lambda>ss'.
        aggregate_loop cs' ss' (sg + sigma next_pvss) rest)))"

definition aggregate ::
  "('g1::ab_group_add, 'g2::ab_group_add) pvss list \<Rightarrow> ('g1, 'g2) pvss result" where
  "aggregate transcripts =
     (case transcripts of
        [] \<Rightarrow> Err NoTranscriptsToAggregate
      | first_pvss # rest \<Rightarrow>
          aggregate_loop (batch_to_projective_g1 (coeffs first_pvss))
            (batch_to_projective_g2 (shares first_pvss)) (sigma first_pvss) rest)"

definition from_aggregate :: "('g1, 'g2) pvss \<Rightarrow> ('g1, 'g2) aggregated_transcript result" where
  "from_aggregate agg =
     and_then (ok_or (slice_first (coeffs agg)) EmptyTranscript) (\<lambda>f_0.
     Ok \<lparr> aggregate_pvss = agg, agg_public_key = DkgPublicKey f_0 \<rparr>)"

definition from_transcripts ::
  "('g1::ab_group_add, 'g2::ab_group_add) pvss list \<Rightarrow> ('g1, 'g2) aggregated_transcript result" where
  "from_transcripts transcripts = and_then (aggregate transcripts) from_aggregate"

section \<open>Supporting facts\<close>

text \<open>Behind the two guards \<open>zip_eq\<close> has sides of equal length.\<close>

lemma aggregate_loop_Cons [simp]:
  "aggregate_loop cs ss sg (p # rest) =
     (if length (coeffs p) \<noteq> length cs
      then Err (MismatchedTranscriptLengths ''coefficients'' (of_nat (length cs)) (of_nat (length (coeffs p))))
      else if length (shares p) \<noteq> length ss
      then Err (MismatchedTranscriptLengths ''shares'' (of_nat (length ss)) (of_nat (length (shares p))))
      else aggregate_loop (map2 (+) cs (coeffs p)) (map2 (+) ss (shares p)) (sg + sigma p) rest)"
  by (simp add: zip_eq_with_def)

declare aggregate_loop.simps(2) [simp del]

lemma into_group_simp [simp]: "into_group x = x"
  by (simp add: into_group_def)

lemma batch_to_projective_simps [simp]:
  "batch_to_projective_g1 p = p" "batch_to_projective_g2 q = q"
  by (simp_all add: batch_to_projective_g1_def batch_to_projective_g2_def map_idI)

text \<open>
  The transcript of a polynomial, the specification a dealer implements: commitments \<open>[c_k]G\<close>,
  blinded evaluations \<open>[f(w_i)]ek_i\<close>, and the proof \<open>[f(0)]H\<close>.
\<close>

definition dealt_shares ::
  "('f::field, 'g1, 'g2, 'gt) pairing \<Rightarrow> ('f, 'g1, 'd) ark_poly \<Rightarrow> ('g2, 'd) dkg \<Rightarrow> 'f list \<Rightarrow> 'g2 list" where
  "dealt_shares E A d cs =
     map2 (\<lambda>(_, v) x. g2_mul E (encryption_key (v_public_key v)) (peval cs x))
       (validators d) (domain_points A d)"

definition dealt ::
  "('f::field, 'g1, 'g2, 'gt) pairing \<Rightarrow> ('f, 'g1, 'd) ark_poly \<Rightarrow> ('g2, 'd) dkg \<Rightarrow> 'f list \<Rightarrow> ('g1, 'g2) pvss" where
  "dealt E A d cs =
     \<lparr> coeffs = map (g1_mul E (g1_generator E)) cs, shares = dealt_shares E A d cs,
       sigma = g2_mul E (g2_generator E) (peval cs 0) \<rparr>"

lemma dealt_simps [simp]:
  "coeffs (dealt E A d cs) = map (g1_mul E (g1_generator E)) cs"
  "shares (dealt E A d cs) = dealt_shares E A d cs"
  "sigma (dealt E A d cs) = g2_mul E (g2_generator E) (peval cs 0)"
  by (simp_all add: dealt_def)

lemma verify_validator_share_not_Panic [simp]: "verify_validator_share E As Ys i pk \<noteq> Panic"
  by (auto simp: verify_validator_share_def Let_def outcome_simps)

lemma verify_validator_shares_not_Panic [simp]: "verify_validator_shares E As Ys vs \<noteq> Panic"
  by (induction vs) (auto simp: outcome_simps)

lemma do_verify_full_not_Panic [simp]: "do_verify_full E A Fs Ys vs dm t \<noteq> Panic"
  by (auto simp: do_verify_full_def Let_def outcome_simps)

lemma verify_full_not_Panic [simp]: "verify_full E A p d \<noteq> Panic"
  by (simp add: verify_full_def)

lemma verify_validator_share_Ok:
  "verify_validator_share E As Ys i pk = Ok b \<longleftrightarrow>
     i < length Ys \<and> i < length As \<and>
     b = (pair E (g1_generator E) (Ys ! i) = pair E (As ! i) (encryption_key pk))"
  by (auto simp: verify_validator_share_def Let_def outcome_simps slice_get_eq_Some)

lemma verify_validator_shares_True:
  "verify_validator_shares E As Ys vs = Ok True \<longleftrightarrow>
     (\<forall>v\<in>set vs. encryption_key (v_public_key v) \<noteq> 0 \<and>
        verify_validator_share E As Ys (unat (v_share_index v)) (v_public_key v) = Ok True)"
  by (induction vs) (auto simp: outcome_simps)

lemma do_verify_full_True:
  assumes "0 < unat t"
  shows "do_verify_full E A Fs Ys vs dm t = Ok True \<longleftrightarrow>
    distinct (map v_share_index vs) \<and> length Fs = unat t \<and> hd Fs \<noteq> 0 \<and> last Fs \<noteq> 0 \<and> vs \<noteq> [] \<and>
    verify_validator_shares E (dom_fft A dm Fs) Ys vs = Ok True"
proof -
  have "Fs \<noteq> []" if "length Fs = unat t" using assms that by auto
  moreover from this have "(case rposition (\<lambda>coeff. coeff \<noteq> 0) Fs of None \<Rightarrow> 0 | Some i \<Rightarrow> i + 1) = unat t
      \<longleftrightarrow> last Fs \<noteq> 0" if "length Fs = unat t"
    using rposition_full[of "\<lambda>c. c \<noteq> 0" Fs] that by simp
  ultimately show ?thesis
    by (auto simp: do_verify_full_def outcome_simps Let_def slice_first_def
        get_share_commitments_from_poly_commitments_def split: list.splits)
qed

text \<open>Aggregation adds componentwise, and stops at the first transcript of another shape.\<close>

lemma aggregate_loop_not_Panic [simp]: "aggregate_loop cs ss sg ps \<noteq> Panic"
  by (induction cs ss sg ps rule: aggregate_loop.induct) auto

lemma aggregate_not_Panic [simp]: "aggregate ps \<noteq> Panic"
  by (auto simp: aggregate_def split: list.splits)

lemma from_transcripts_not_Panic [simp]: "from_transcripts ps \<noteq> Panic"
  by (auto simp: from_transcripts_def from_aggregate_def outcome_simps)

lemma aggregate_loop_Ok:
  "aggregate_loop cs ss sg ps = Ok q \<Longrightarrow>
     list_all (\<lambda>p. length (coeffs p) = length cs \<and> length (shares p) = length ss) ps \<and>
     length (coeffs q) = length cs \<and> length (shares q) = length ss \<and>
     sigma q = sg + sum_list (map sigma ps)"
  by (induction cs ss sg ps rule: aggregate_loop.induct) (fastforce split: if_splits simp: add.assoc)+

lemma fold_constant_terms:
  "(try_fold (\<lambda>acc pvss. and_then (ok_or (slice_first (coeffs pvss)) EmptyTranscript) (\<lambda>f_0.
      if \<not> verify_optimistic E pvss then Err InvalidTranscriptAggregate
      else Ok (acc + into_group f_0))) acc ts :: 'g1::ab_group_add result) = Ok y \<longleftrightarrow>
   list_all (verify_optimistic E) ts \<and> y = acc + sum_list (map (hd \<circ> coeffs) ts)"
proof (induction ts arbitrary: acc)
  case (Cons t ts)
  show ?case
  proof (cases "coeffs t")
    case Nil
    then show ?thesis by (simp add: verify_optimistic_def)
  next
    case (Cons F Fs)
    then show ?thesis using Cons.IH by (simp add: add.assoc)
  qed
qed auto

definition sum_polys :: "'f::field list \<Rightarrow> 'f list list \<Rightarrow> 'f list" where
  "sum_polys = foldl (map2 (+))"

lemma sum_polys_simps [simp]:
  "sum_polys cs [] = cs" "sum_polys cs (ds # css) = sum_polys (map2 (+) cs ds) css"
  by (simp_all add: sum_polys_def)

lemma length_sum_polys [simp]:
  "list_all (\<lambda>ds. length ds = length cs) css \<Longrightarrow> length (sum_polys cs css) = length cs"
  by (induction css arbitrary: cs) auto

lemma peval_sum_polys:
  "list_all (\<lambda>ds. length ds = length cs) css \<Longrightarrow>
     peval (sum_polys cs css) x = peval cs x + sum_list (map (\<lambda>ds. peval ds x) css)"
  by (induction css arbitrary: cs) (auto simp: peval_add add.assoc)

context pairing_laws begin

lemma verify_optimistic_iff:
  "verify_optimistic E p \<longleftrightarrow> (\<exists>s Fs. s \<noteq> 0 \<and> coeffs p = g1_mul E (g1_generator E) s # Fs \<and>
     sigma p = g2_mul E (g2_generator E) s)"
proof (cases "coeffs p")
  case (Cons F Fs)
  obtain s where "F = g1_mul E (g1_generator E) s" by (rule g1.dlogE)
  with Cons show ?thesis
    by (auto simp: verify_optimistic_def pair_shift pair_left_cancel)
qed (simp add: verify_optimistic_def)

end

context session begin

lemma length_dealt_shares [simp]: "length (dealt_shares E A d cs) = length (validators d)"
  by (simp add: dealt_shares_def)

lemma nth_dealt_shares:
  "i < length (validators d) \<Longrightarrow> dealt_shares E A d cs ! i =
     g2_mul E (encryption_key (v_public_key (snd (validators d ! i)))) (peval cs (domain_points A d ! i))"
  by (simp add: dealt_shares_def case_prod_unfold)

lemma distinct_share_indices: "distinct (map v_share_index (map snd (validators d)))"
proof -
  have "map v_share_index (map snd (validators d)) = map fst (validators d)"
    using dkg_wf_nth(1,2)[OF wf] by (intro nth_equalityI) simp_all
  then show ?thesis using dkg_wf_distinct[OF wf] by (simp only:)
qed

text \<open>Creation of a transcript implements the specification.\<close>

lemma pvss_new_sampled:
  assumes "phi \<noteq> []" "poly_rand R (unat (security_threshold (params d)) - 1) rng = (phi, rng')"
  shows "pvss_new E A R s d rng = (Ok (dealt E A d (phi[0 := s])), rng')"
proof -
  have t: "unat (security_threshold (params d) - 1) = unat (security_threshold (params d)) - 1"
    using threshold_pos by (intro unat_minus_one) auto
  have s0: "peval (phi[0 := s]) 0 = s" using assms(1) by (cases phi) simp_all
  let ?cs = "phi[0 := s]"
  have "try_map (\<lambda>v. and_then (slice_index (map (poly_evaluate A ?cs) (domain_points A d)) (unat (v_share_index v)))
      (\<lambda>eval. slice_index (fast_multiexp (g2_batch_mul E) [eval]
          (into_group (encryption_key (v_public_key v)))) 0)) (map snd (validators d)) =
      (Ok (map (\<lambda>v. g2_mul E (encryption_key (v_public_key v))
        (peval ?cs (domain_points A d ! unat (v_share_index v)))) (map snd (validators d))) :: 'g2 list result)"
    by (rule try_map_Ok_map)
      (auto elim!: dkg_wf_member[OF wf] simp: slice_index_if fast_multiexp_eq dm.evaluate)
  moreover have "map (\<lambda>v. g2_mul E (encryption_key (v_public_key v))
        (peval ?cs (domain_points A d ! unat (v_share_index v)))) (map snd (validators d)) =
      dealt_shares E A d ?cs"
    by (rule nth_equalityI) (simp_all add: nth_dealt_shares dkg_wf_nth(3)[OF wf])
  ultimately show ?thesis
    using assms s0
    by (simp add: pvss_new_def secret_polynomial_new_def t Let_def dealt_def fast_multiexp_eq)
qed

lemma pvss_new_dealt:
  assumes "rand_laws R" "poly_rand R (unat (security_threshold (params d)) - 1) rng = (phi, rng')"
  shows "pvss_new E A R s d rng = (Ok (dealt E A d (phi[0 := s])), rng')"
  using rand_laws.poly_rand_length[OF assms] by (intro pvss_new_sampled assms(2)) auto

text \<open>The pairing check of one slot says that the share is the blinded evaluation.\<close>

lemma slot_check_iff:
  assumes "i < length (validators d)" "length cs \<le> length (dom_elements A (domain d))"
  shows "verify_validator_share E (dom_fft A (domain d) (map (g1_mul E (g1_generator E)) cs)) Ys i
      (v_public_key (snd (validators d ! i))) = Ok True \<longleftrightarrow>
    i < length Ys \<and> Ys ! i = dealt_shares E A d cs ! i"
proof -
  let ?ek = "encryption_key (v_public_key (snd (validators d ! i)))"
  have i: "i < length (dom_elements A (domain d))"
    using assms(1) dm.dom_size[OF dom] by simp
  have fft: "dom_fft A (domain d) (map (g1_mul E (g1_generator E)) cs) ! i =
      g1_mul E (g1_generator E) (peval cs (domain_points A d ! i))"
    "i < length (dom_fft A (domain d) (map (g1_mul E (g1_generator E)) cs))"
    using i assms by (simp_all add: dm.fft_eval[OF dom] g1.gpeval_map_mul nth_domain_points)
  then show ?thesis
    using assms(1) by (auto simp: verify_validator_share_Ok pair_shift pair_left_cancel nth_dealt_shares)
qed

lemma verify_full_iff:
  assumes "unat (security_threshold (params d)) \<le> length (dom_elements A (domain d))"
  shows "verify_full E A p d = Ok True \<longleftrightarrow>
    (\<exists>cs. length cs = unat (security_threshold (params d)) \<and> hd cs \<noteq> 0 \<and> last cs \<noteq> 0 \<and>
       coeffs p = coeffs (dealt E A d cs) \<and>
       take (length (validators d)) (shares p) = shares (dealt E A d cs))" (is "_ \<longleftrightarrow> (\<exists>cs. ?P cs)")
proof -
  obtain cs where cs: "coeffs p = map (g1_mul E (g1_generator E)) cs" by (rule g1.dlog_listE)
  let ?n = "length (validators d)"
  have uniq: "(\<exists>cs. ?P cs) \<longleftrightarrow> ?P cs"
    using cs by auto
  have slots: "verify_validator_shares E (dom_fft A (domain d) (coeffs p)) (shares p) (map snd (validators d)) = Ok True
      \<longleftrightarrow> take ?n (shares p) = dealt_shares E A d cs" if "length cs = unat (security_threshold (params d))"
  proof -
    have "verify_validator_shares E (dom_fft A (domain d) (coeffs p)) (shares p) (map snd (validators d)) = Ok True
      \<longleftrightarrow> (\<forall>i<?n. verify_validator_share E (dom_fft A (domain d) (coeffs p)) (shares p) i
        (v_public_key (snd (validators d ! i))) = Ok True)"
      using dkg_wf_nth(3,4)[OF wf]
      by (simp add: verify_validator_shares_True all_set_conv_all_nth)
    then show ?thesis using assms that by (simp add: cs slot_check_iff take_eq_slots)
  qed
  show ?thesis
  proof (cases "length cs = unat (security_threshold (params d))")
    case True
    then have "cs \<noteq> []" using threshold_pos by auto
    then have "hd (coeffs p) \<noteq> 0 \<longleftrightarrow> hd cs \<noteq> 0" "last (coeffs p) \<noteq> 0 \<longleftrightarrow> last cs \<noteq> 0"
      by (simp_all add: cs hd_map last_map)
    then show ?thesis
      unfolding uniq verify_full_def do_verify_full_True[OF threshold_pos]
      using distinct_share_indices validators_nonempty slots[OF True] True cs by simp
  qed (simp add: uniq verify_full_def do_verify_full_True[OF threshold_pos] cs)
qed

text \<open>Aggregating transcripts is dealing the sum of their polynomials.\<close>

lemma dealt_add:
  assumes "length cs = length ds"
  shows "map2 (+) (coeffs (dealt E A d cs)) (coeffs (dealt E A d ds)) = coeffs (dealt E A d (map2 (+) cs ds))"
    "map2 (+) (shares (dealt E A d cs)) (shares (dealt E A d ds)) = shares (dealt E A d (map2 (+) cs ds))"
    "sigma (dealt E A d cs) + sigma (dealt E A d ds) = sigma (dealt E A d (map2 (+) cs ds))"
  using assms
  by (auto intro!: nth_equalityI simp: nth_dealt_shares peval_add g1.mul_simps g2.mul_simps)

lemma aggregate_loop_dealt:
  "list_all (\<lambda>ds. length ds = length cs) css \<Longrightarrow>
     aggregate_loop (coeffs (dealt E A d cs)) (shares (dealt E A d cs)) (sigma (dealt E A d cs))
       (map (dealt E A d) css) = Ok (dealt E A d (sum_polys cs css))"
proof (induction css arbitrary: cs)
  case (Cons ds css)
  then have "length cs = length ds" "list_all (\<lambda>es. length es = length (map2 (+) cs ds)) css"
    by simp_all
  with Cons.IH[of "map2 (+) cs ds"] dealt_add[of cs ds] show ?case by simp
qed (simp add: dealt_def)

lemma aggregate_dealt:
  "list_all (\<lambda>ds. length ds = length cs) css \<Longrightarrow>
     aggregate (map (dealt E A d) (cs # css)) = Ok (dealt E A d (sum_polys cs css))"
  using aggregate_loop_dealt[of cs css] by (simp add: aggregate_def)

text \<open>A verified transcript gives every validator the evaluation of one polynomial.\<close>

lemma validator_key:
  assumes "i < length (validators d)" "keypair_public_key E kp = v_public_key (snd (validators d ! i))"
  shows "decryption_key kp \<noteq> 0"
    "dealt_shares E A d cs ! i =
       g2_mul E (g2_mul E (g2_generator E) (peval cs (domain_points A d ! i))) (decryption_key kp)"
proof -
  have ek: "encryption_key (v_public_key (snd (validators d ! i))) =
      g2_mul E (g2_generator E) (decryption_key kp)"
    using assms(2)[symmetric] by (simp add: keypair_public_key_def)
  show "decryption_key kp \<noteq> 0" using dkg_wf_nth(4)[OF wf assms(1)] ek by auto
  show "dealt_shares E A d cs ! i =
       g2_mul E (g2_mul E (g2_generator E) (peval cs (domain_points A d ! i))) (decryption_key kp)"
    using assms(1) by (simp add: nth_dealt_shares ek g2.mul_commute)
qed

lemma validator_share:
  assumes "take (length (validators d)) (shares p) = dealt_shares E A d cs"
    and "unat i < length (validators d)"
  shows "get_share_for_index_and_pubkey p i pk = Ok \<lparr> bks_validator_public_key = encryption_key pk,
      bks_blinded_key_share = dealt_shares E A d cs ! unat i \<rparr>"
  using take_eq_slots[of "dealt_shares E A d cs" "length (validators d)" "shares p"] assms
  by (simp add: get_share_for_index_and_pubkey_def slice_get_def)

lemma share_from_verified:
  assumes "take (length (validators d)) (shares p) = dealt_shares E A d cs"
    and "unat i < length (validators d)"
    and "keypair_public_key E kp = v_public_key (snd (validators d ! unat i))"
    and "header_check C E h aad = Ok True"
  shows "create_decryption_share_simple C E p h aad kp i = Ok \<lparr>
      simple_decryption_share =
        pair E (hdr_commitment h) (g2_mul E (g2_generator E) (peval cs (domain_points A d ! unat i))),
      simple_validator_checksum = \<lparr> checksum = g1_mul E (hdr_commitment h) (inverse (decryption_key kp)) \<rparr> \<rparr>"
  using assms(4) validator_key[OF assms(2,3)]
  by (simp add: create_decryption_share_simple_def validator_share[OF assms(1,2)] outcome_simps
      bks_create_decryption_share_simple_def unblind_eq decryption_share_simple_create_def
      simple_create_unchecked_Ok)

lemma distinct_points:
  assumes "distinct is" "list_all (\<lambda>i. unat i < length (validators d)) is"
  shows "distinct (map (\<lambda>i :: u32. domain_points A d ! unat i) is)"
proof -
  have "inj_on (\<lambda>i. domain_points A d ! unat i) (set is)"
  proof (rule inj_onI)
    fix i j :: u32
    assume "i \<in> set is" "j \<in> set is" "domain_points A d ! unat i = domain_points A d ! unat j"
    then have "unat i = unat j" using assms(2) by (simp add: list_all_iff nth_eq_iff_index_eq)
    then show "i = j" by (simp add: word_unat_eq_iff)
  qed
  with assms(1) show ?thesis by (simp add: distinct_map)
qed

lemma combine_verified:
  assumes "take (length (validators d)) (shares p) = dealt_shares E A d cs"
    and "distinct is" "list_all (\<lambda>i. unat i < length (validators d)) is" "length cs \<le> length is"
    and "list_all (\<lambda>i. keypair_public_key E (kps i) = v_public_key (snd (validators d ! unat i))) is"
    and "header_check C E h aad = Ok True"
  shows "\<exists>ss pts. try_map (\<lambda>i. create_decryption_share_simple C E p h aad (kps i) i) is = Ok ss \<and>
    try_map (get_domain_point A d) is = Ok pts \<and>
    share_combine_simple E ss (prepare_combine_simple pts) =
      SharedSecret (pair E (hdr_commitment h) (g2_mul E (g2_generator E) (peval cs 0)))"
proof -
  let ?x = "\<lambda>i. domain_points A d ! unat i"
  let ?s = "\<lambda>i. \<lparr> simple_decryption_share = pair E (hdr_commitment h) (g2_mul E (g2_generator E) (peval cs (?x i))),
      simple_validator_checksum = \<lparr> checksum = g1_mul E (hdr_commitment h) (inverse (decryption_key (kps i))) \<rparr> \<rparr>"
  have "try_map (\<lambda>i. create_decryption_share_simple C E p h aad (kps i) i) is = Ok (map ?s is)"
    using assms(3,5) by (intro try_map_Ok_map share_from_verified[OF assms(1) _ _ assms(6)])
      (auto simp: list_all_iff)
  moreover have "try_map (get_domain_point A d) is = Ok (map ?x is)"
    using assms(3) by (intro try_map_Ok_map) (simp add: get_domain_point_eq list_all_iff)
  moreover have "share_combine_simple E (map ?s is) (prepare_combine_simple (map ?x is)) =
      SharedSecret (pair E (hdr_commitment h) (g2_mul E (g2_generator E) (peval cs 0)))"
    by (rule combine_simple_secret[OF distinct_points[OF assms(2,3)]]) (simp_all add: assms(4))
  ultimately show ?thesis by blast
qed

lemma precomputed_share_from_verified:
  assumes "take (length (validators d)) (shares p) = dealt_shares E A d cs"
    and "unat i < length (validators d)"
    and "keypair_public_key E kp = v_public_key (snd (validators d ! unat i))"
    and "header_check C E h aad = Ok True"
    and "distinct (map fst m)" "distinct (map snd m)" "map_of m i = Some x"
  shows "create_decryption_share_precomputed C E p h aad kp i m = Ok \<lparr>
      decrypter_index = unat i,
      precomputed_decryption_share =
        pair E (g1_mul E (hdr_commitment h) (lagrange_basis (set (map snd m)) x 0))
          (g2_mul E (g2_generator E) (peval cs (domain_points A d ! unat i))),
      precomputed_validator_checksum = \<lparr> checksum = g1_mul E (hdr_commitment h) (inverse (decryption_key kp)) \<rparr> \<rparr>"
  using assms(4) validator_key[OF assms(2,3)]
  by (simp add: create_decryption_share_precomputed_def validator_share[OF assms(1,2)] outcome_simps
      precomputed_present_index[OF assms(5-7)] unblind_eq decryption_share_precomputed_create_def
      precomputed_create_unchecked_Ok)

lemma combine_verified_precomputed:
  assumes "take (length (validators d)) (shares p) = dealt_shares E A d cs"
    and "distinct (map fst m)" "length cs \<le> length m"
    and "list_all (\<lambda>(i, x). unat i < length (validators d) \<and> x = domain_points A d ! unat i) m"
    and "list_all (\<lambda>i. keypair_public_key E (kps i) = v_public_key (snd (validators d ! unat i))) (map fst m)"
    and "header_check C E h aad = Ok True"
  shows "\<exists>ss. try_map (\<lambda>i. create_decryption_share_precomputed C E p h aad (kps i) i m) (map fst m) = Ok ss \<and>
    share_combine_precomputed ss =
      SharedSecret (pair E (hdr_commitment h) (g2_mul E (g2_generator E) (peval cs 0)))"
proof -
  let ?x = "\<lambda>i. domain_points A d ! unat i"
  let ?s = "\<lambda>i. \<lparr> decrypter_index = unat i,
      precomputed_decryption_share =
        pair E (g1_mul E (hdr_commitment h) (lagrange_basis (set (map snd m)) (?x i) 0))
          (g2_mul E (g2_generator E) (peval cs (?x i))),
      precomputed_validator_checksum = \<lparr> checksum = g1_mul E (hdr_commitment h) (inverse (decryption_key (kps i))) \<rparr> \<rparr>"
  have x: "map ?x (map fst m) = map snd m" using assms(4) by (auto simp: list_all_iff)
  have dx: "distinct (map snd m)"
    using distinct_points[OF assms(2)] assms(4) unfolding x by (fastforce simp: list_all_iff)
  have "create_decryption_share_precomputed C E p h aad (kps i) i m = Ok (?s i)" if "i \<in> set (map fst m)" for i
    using that assms(4,5)
    by (intro precomputed_share_from_verified[OF assms(1) _ _ assms(6) assms(2) dx])
      (auto simp: list_all_iff map_of_eq_Some_iff[OF assms(2)])
  then have ok: "try_map (\<lambda>i. create_decryption_share_precomputed C E p h aad (kps i) i m) (map fst m) =
      Ok (map ?s (map fst m))" by (rule try_map_Ok_map)
  let ?F = "\<lambda>x l. pair E (g1_mul E (hdr_commitment h) l) (g2_mul E (g2_generator E) (peval cs x))"
  have "map precomputed_decryption_share (map ?s (map fst m)) =
      map (\<lambda>x. ?F x (lagrange_basis (set (map snd m)) x 0)) (map ?x (map fst m))" by simp
  also have "\<dots> = map2 ?F (map snd m) (prepare_combine_simple (map snd m))"
    unfolding x prepare_combine_simple_def lagrange_basis_at_distinct[OF dx] map2_map_same ..
  finally have "map precomputed_decryption_share (map ?s (map fst m)) =
      map2 ?F (map snd m) (prepare_combine_simple (map snd m))" .
  with dx assms(3) have "share_combine_precomputed (map ?s (map fst m)) =
      SharedSecret (pair E (hdr_commitment h) (g2_mul E (g2_generator E) (peval cs 0)))"
    by (intro combine_precomputed_secret[where xs = "map snd m"]) simp_all
  with ok show ?thesis by blast
qed

text \<open>The aggregation check: full verification, valid dealer proofs, and equal constant terms.\<close>

lemma verify_aggregation_Ok:
  "verify_aggregation E A p d ts = Ok b \<longleftrightarrow>
     b \<and> ts \<noteq> [] \<and> verify_full E A p d = Ok True \<and> list_all (verify_optimistic E) ts \<and>
     sum_list (map (hd \<circ> coeffs) ts) = hd (coeffs p)"
proof -
  have "coeffs p \<noteq> []" if "verify_full E A p d = Ok True"
    using that threshold_pos by (auto simp: verify_full_def do_verify_full_True)
  then show ?thesis
    unfolding verify_aggregation_def do_verify_aggregation_def
    by (auto simp: outcome_simps fold_constant_terms verify_full_def[symmetric] slice_first_eq_Some
        split: if_splits)
qed

end

lemma verify_aggregation_not_Panic: "verify_aggregation E A p d ts \<noteq> Panic"
  unfolding verify_aggregation_def do_verify_aggregation_def
  by (auto simp: outcome_simps split: if_splits dest!: try_fold_not_Panic[THEN notE, rotated])

end
