(* ===== verification/Transcripts.thy ===== *)
theory Transcripts
  imports Pvss
begin

text \<open>
  The properties of transcripts (\<open>ferveo/src/pvss.rs\<close>): creation implements the specification
  \<open>dealt\<close>, verification accepts exactly the transcripts that implement it, aggregation adds the
  dealt polynomials, and a verified aggregate lets every threshold of validators decrypt while
  fewer learn nothing from their shares.
\<close>

section \<open>Supporting facts\<close>

lemma interpolating_polynomial:
  fixes y :: "'f::field \<Rightarrow> 'f"
  assumes "distinct xs" "length xs \<le> n"
  shows "\<exists>cs. length cs = n \<and> (\<forall>x\<in>set xs. peval cs x = y x)"
proof -
  let ?f = "\<lambda>x. \<Sum>x_j\<in>set xs. y x_j * lagrange_basis (set xs) x_j x"
  have "polyfun (card (set xs)) ?f"
    by (rule polyfun_sum) (auto intro: polyfun_smult polyfun_lagrange_basis)
  then obtain cs where cs: "length cs = length xs" "?f = peval cs"
    using assms(1) by (auto simp: polyfun_def distinct_card)
  have "peval (cs @ replicate (n - length xs) 0) x = y x" if "x \<in> set xs" for x
    using interpolation_any[OF finite_set that, of y] cs(2) by (metis peval_pad)
  then show ?thesis
    using assms(2) cs(1) by (intro exI[of _ "cs @ replicate (n - length xs) 0"]) auto
qed

context session begin

lemma pvss_new_polynomial:
  assumes "rand_laws R" "pvss_new E A R s d rng = (Ok p, rng')"
  obtains cs where "length cs = unat (security_threshold (params d))" "hd cs = s"
    "s \<noteq> 0 \<Longrightarrow> last cs \<noteq> 0" "p = dealt E A d cs"
proof -
  obtain phi r where phi: "poly_rand R (unat (security_threshold (params d)) - 1) rng = (phi, r)"
    by fastforce
  note law = rand_laws.poly_rand_length[OF assms(1) phi] rand_laws.poly_rand_lead[OF assms(1) phi]
  have "p = dealt E A d (phi[0 := s])"
    using pvss_new_dealt[OF assms(1) phi, of s] assms(2) by simp
  moreover have "length (phi[0 := s]) = unat (security_threshold (params d))"
    using law threshold_pos by simp
  moreover have "hd (phi[0 := s]) = s" "s \<noteq> 0 \<Longrightarrow> last (phi[0 := s]) \<noteq> 0"
    using law by (cases phi; auto simp: last_list_update)+
  ultimately show ?thesis using that by blast
qed

lemma dealt_verifies:
  assumes "unat (security_threshold (params d)) \<le> length (dom_elements A (domain d))"
    and "length cs = unat (security_threshold (params d))" "hd cs \<noteq> 0" "last cs \<noteq> 0"
  shows "verify_full E A (dealt E A d cs) d = Ok True" "verify_optimistic E (dealt E A d cs)"
proof -
  show "verify_full E A (dealt E A d cs) d = Ok True"
    unfolding verify_full_iff[OF assms(1)] using assms(2-4) by auto
  have "cs = hd cs # tl cs" using assms(2) threshold_pos by (cases cs) auto
  then have "coeffs (dealt E A d cs) = g1_mul E (g1_generator E) (hd cs) # map (g1_mul E (g1_generator E)) (tl cs)"
    "peval cs 0 = hd cs"
    by (metis dealt_simps(1) list.simps(9)) (metis \<open>cs = hd cs # tl cs\<close> peval_zero_point list.simps(5))
  with assms(3) show "verify_optimistic E (dealt E A d cs)" by (auto simp: verify_optimistic_iff)
qed

lemma verified_polynomial:
  assumes "unat (security_threshold (params d)) \<le> length (dom_elements A (domain d))"
    and "verify_full E A p d = Ok True"
  obtains cs where "length cs = unat (security_threshold (params d))"
    "take (length (validators d)) (shares p) = dealt_shares E A d cs"
    "hd (coeffs p) = g1_mul E (g1_generator E) (peval cs 0)" "last cs \<noteq> 0"
proof -
  obtain cs where cs: "length cs = unat (security_threshold (params d))"
      "coeffs p = map (g1_mul E (g1_generator E)) cs"
      "take (length (validators d)) (shares p) = dealt_shares E A d cs" "last cs \<noteq> 0"
    using assms by (auto simp: verify_full_iff)
  then have "cs \<noteq> []" using threshold_pos by auto
  then have "hd (coeffs p) = g1_mul E (g1_generator E) (peval cs 0)"
    using cs(2) by (cases cs) (simp_all add: peval_zero_point)
  with cs show ?thesis using that by blast
qed

text \<open>
  Prescribed shares for \<open>t - 1\<close> validators: whatever the secret, one choice of the coefficients above
  it deals them.
\<close>

lemma unique_coefficients:
  assumes "distinct I" "list_all (\<lambda>i. i < length (validators d)) I" "length Y = length I"
  shows "\<exists>!tail. length tail = length I \<and> map ((!) (dealt_shares E A d (s # tail))) I = Y"
proof -
  let ?x = "(!) (domain_points A d)" and ?ek = "\<lambda>i. encryption_key (v_public_key (snd (validators d ! i)))"
  have I: "i < length (validators d)" if "i \<in> set I" for i using that assms(2) by (auto simp: list_all_iff)
  have inj: "inj_on ?x (set I)" by (intro inj_onI) (auto simp: I nth_eq_iff_index_eq)
  have "0 \<notin> set (map ?x I)" using I domain_points_nonzero by force
  then have pts: "distinct (0 # map ?x I)" using assms(1) inj by (simp add: distinct_map)
  have ek: "?ek i \<noteq> 0" if "i \<in> set I" for i using dkg_wf_nth(4)[OF wf] I that by blast
  define y where "y k = (SOME a. Y ! k = g2_mul E (?ek (I ! k)) a)" for k
  have y: "Y ! k = g2_mul E (?ek (I ! k)) (y k)" if "k < length I" for k
  proof -
    obtain a b where "Y ! k = g2_mul E (g2_generator E) a" "?ek (I ! k) = g2_mul E (g2_generator E) b"
      by (metis g2.dlogE)
    moreover from this(2) have "b \<noteq> 0" using ek[of "I ! k"] that by auto
    ultimately have "Y ! k = g2_mul E (?ek (I ! k)) (inverse b * a)" by (simp add: g2.mul_mul)
    then show ?thesis unfolding y_def by (rule someI)
  qed
  have deals: "map ((!) (dealt_shares E A d cs)) I = Y \<longleftrightarrow> (\<forall>k<length I. peval cs (?x (I ! k)) = y k)" for cs
    using assms(3) I ek y by (auto simp: list_eq_iff_nth_eq nth_dealt_shares g2.mul_left_cancel)
  obtain f where f: "\<And>k. k < length I \<Longrightarrow> f (?x (I ! k)) = y k"
  proof
    fix k assume k: "k < length I"
    have "(THE j. j < length I \<and> ?x (I ! j) = ?x (I ! k)) = k"
      using k inj assms(1) by (intro the_equality) (auto dest!: inj_onD simp: nth_eq_iff_index_eq)
    then show "(\<lambda>x. y (THE j. j < length I \<and> ?x (I ! j) = x)) (?x (I ! k)) = y k" by simp
  qed
  show ?thesis
  proof (rule ex_ex1I)
    obtain cs where cs: "length cs = Suc (length I)"
        "\<forall>x\<in>set (0 # map ?x I). peval cs x = (if x = 0 then s else f x)"
      using interpolating_polynomial[OF pts, of "Suc (length I)" "\<lambda>x. if x = 0 then s else f x"] by auto
    then obtain tail where tail: "cs = s # tail" by (cases cs) auto
    have "peval cs (?x (I ! k)) = y k" if "k < length I" for k
      using cs(2) f[OF that] that \<open>0 \<notin> set (map ?x I)\<close> by (auto simp: image_iff)
    then show "\<exists>tail. length tail = length I \<and> map ((!) (dealt_shares E A d (s # tail))) I = Y"
      using cs(1) tail deals by auto
  next
    fix a b
    assume "length a = length I \<and> map ((!) (dealt_shares E A d (s # a))) I = Y"
      and "length b = length I \<and> map ((!) (dealt_shares E A d (s # b))) I = Y"
    then have len: "length a = length I" "length b = length I"
      and v: "\<forall>k<length I. peval (s # a) (?x (I ! k)) = y k \<and> peval (s # b) (?x (I ! k)) = y k"
      by (auto simp: deals)
    have "peval (s # a) x = peval (s # b) x" if x: "x \<in> set (0 # map ?x I)" for x
    proof (cases "x = 0")
      case False
      with x obtain k where "k < length I" "x = ?x (I ! k)" by (auto simp: in_set_conv_nth)
      with v show ?thesis by metis
    qed simp
    then have "s # a = s # b" using len by (intro peval_unique[OF _ pts]) auto
    then show "a = b" by simp
  qed
qed

end

section \<open>Sample transcripts\<close>

definition sample_pvss :: "(f17, f17) pvss" where
  "sample_pvss = dealt E17 A17 sample_dkg [5, 2, 3]"

lemma sample_pvss_new: "pvss_new E17 A17 R17 5 sample_dkg 0 = (Ok sample_pvss, 3)"
  by code_simp

lemma sample_threshold:
  "unat (security_threshold (params sample_dkg)) \<le> length (dom_elements A17 (domain sample_dkg))"
  by code_simp

lemma sample_pvss_verifies: "verify_full E17 A17 sample_pvss sample_dkg = Ok True"
  by code_simp

definition sample_keys :: "u32 \<Rightarrow> f17 keypair" where
  "sample_keys i = sample_keypair (unat i)"

section \<open>Properties\<close>

text \<open>
  C14: dealing always succeeds in a session and implements the specification: the transcript
  commits to a polynomial of exactly \<open>threshold\<close> coefficients whose constant term is the secret,
  carries each validator's evaluation blinded with its key, and proves the secret.
\<close>

theorem pvss_new_refines_dealt:
  assumes "session E A d" "rand_laws R"
  shows "\<exists>cs rng'. pvss_new E A R s d rng = (Ok (dealt E A d cs), rng') \<and>
    length cs = unat (security_threshold (params d)) \<and> hd cs = s"
proof -
  obtain phi r where "poly_rand R (unat (security_threshold (params d)) - 1) rng = (phi, r)"
    by fastforce
  then have ok: "pvss_new E A R s d rng = (Ok (dealt E A d (phi[0 := s])), r)"
    by (rule session.pvss_new_dealt[OF assms])
  then show ?thesis
    using session.pvss_new_polynomial[OF assms ok] by metis
qed

theorem pvss_new_refines_dealt_witness:
  "\<exists>cs rng'. pvss_new E17 A17 R17 5 sample_dkg 0 = (Ok (dealt E17 A17 sample_dkg cs), rng') \<and>
    length cs = unat (security_threshold (params sample_dkg)) \<and> hd cs = 5"
  by (rule pvss_new_refines_dealt[OF session17.session_axioms r17.rand_laws_axioms])

text \<open>
  The transcript an honest dealer makes for a nonzero secret passes both the optimistic and
  the full verification, whenever the evaluation domain has at least \<open>threshold\<close> points.
\<close>

lemma honest_transcript_verifies:
  assumes "session E A d" "rand_laws R"
    and "unat (security_threshold (params d)) \<le> length (dom_elements A (domain d))"
    and "s \<noteq> 0" "pvss_new E A R s d rng = (Ok p, rng')"
  shows "verify_optimistic E p \<and> verify_full E A p d = Ok True"
  using session.pvss_new_polynomial[OF assms(1,2,5)] session.dealt_verifies[OF assms(1,3)] assms(4)
  by metis

text \<open>
  C8: full verification accepts a transcript if and only if it implements the specification for
  some polynomial of exactly \<open>threshold\<close> coefficients with nonzero constant and leading terms: its
  commitments are those of the polynomial and every validator's slot is the blinded evaluation at
  the validator's domain point.  A transcript may carry further shares, which nobody owns.
\<close>

theorem verify_full_iff_dealt:
  assumes "session E A d"
    and "unat (security_threshold (params d)) \<le> length (dom_elements A (domain d))"
  shows "verify_full E A p d = Ok True \<longleftrightarrow>
    (\<exists>cs. length cs = unat (security_threshold (params d)) \<and> hd cs \<noteq> 0 \<and> last cs \<noteq> 0 \<and>
       coeffs p = coeffs (dealt E A d cs) \<and>
       take (length (validators d)) (shares p) = shares (dealt E A d cs))"
  by (rule session.verify_full_iff[OF assms])

theorem verify_full_iff_dealt_witness:
  "\<exists>cs. length cs = unat (security_threshold (params sample_dkg)) \<and> hd cs \<noteq> 0 \<and> last cs \<noteq> 0 \<and>
     coeffs sample_pvss = coeffs (dealt E17 A17 sample_dkg cs) \<and>
     take (length (validators sample_dkg)) (shares sample_pvss) = shares (dealt E17 A17 sample_dkg cs)"
  using verify_full_iff_dealt[OF session17.session_axioms sample_threshold, of sample_pvss]
    sample_pvss_verifies by blast

text \<open>
  The proof of knowledge is accepted exactly when the commitment to the constant term and the
  proof carry the same nonzero scalar.
\<close>

lemma verify_optimistic_iff_same_secret:
  assumes "pairing_laws E"
  shows "verify_optimistic E p \<longleftrightarrow> (\<exists>s Fs. s \<noteq> 0 \<and> coeffs p = g1_mul E (g1_generator E) s # Fs \<and>
     sigma p = g2_mul E (g2_generator E) s)"
  by (rule pairing_laws.verify_optimistic_iff[OF assms])

text \<open>
  Aggregating the transcripts of several polynomials is the transcript of their sum, so the
  shared secret of the aggregate is the sum of the dealers' secrets.
\<close>

lemma aggregate_refines_sum:
  assumes "session E A d" "list_all (\<lambda>ds. length ds = length cs) css"
  shows "aggregate (map (dealt E A d) (cs # css)) = Ok (dealt E A d (sum_polys cs css)) \<and>
    peval (sum_polys cs css) x = peval cs x + sum_list (map (\<lambda>ds. peval ds x) css)"
  using session.aggregate_dealt[OF assms] peval_sum_polys[OF assms(2)] by blast

text \<open>
  Aggregation succeeds exactly on a nonempty list of transcripts of one shape, and reports the
  first transcript whose number of commitments, or else of shares, differs; no list of
  peer-supplied transcripts makes aggregation, or the verification of an aggregate, panic.
\<close>

lemma aggregation_total:
  "((\<exists>q. aggregate ts = Ok q) \<longleftrightarrow> ts \<noteq> [] \<and>
      list_all (\<lambda>p. length (coeffs p) = length (coeffs (hd ts)) \<and>
        length (shares p) = length (shares (hd ts))) ts) \<and>
   aggregate ts \<noteq> Panic \<and> from_transcripts ts \<noteq> Panic \<and> verify_full E A p d \<noteq> Panic \<and>
   verify_aggregation E A p d ts \<noteq> Panic"
proof -
  have "(\<exists>q. aggregate_loop cs ss sg ps = Ok q) \<longleftrightarrow>
      list_all (\<lambda>p. length (coeffs p) = length cs \<and> length (shares p) = length ss) ps"
    for cs :: "'a list" and ss :: "'b list" and sg ps
    by (induction cs ss sg ps rule: aggregate_loop.induct) auto
  then have "(\<exists>q. aggregate ts = Ok q) \<longleftrightarrow> ts \<noteq> [] \<and>
      list_all (\<lambda>p. length (coeffs p) = length (coeffs (hd ts)) \<and>
        length (shares p) = length (shares (hd ts))) ts"
    by (cases ts) (simp_all add: aggregate_def)
  then show ?thesis by (simp add: verify_aggregation_not_Panic)
qed

text \<open>
  C15: the aggregation check accepts exactly when the aggregate passes full verification, every
  transcript passes its proof of knowledge, and the aggregate's constant term is the sum of the
  transcripts' constant terms; it never answers \<open>Ok(false)\<close>.  The further commitments and the
  shares of the transcripts are not compared with those of the aggregate.
\<close>

theorem verify_aggregation_iff:
  assumes "session E A d"
  shows "verify_aggregation E A p d ts = Ok b \<longleftrightarrow>
     b \<and> ts \<noteq> [] \<and> verify_full E A p d = Ok True \<and> list_all (verify_optimistic E) ts \<and>
     sum_list (map (hd \<circ> coeffs) ts) = hd (coeffs p)"
  by (rule session.verify_aggregation_Ok[OF assms])

theorem verify_aggregation_iff_witness:
  "verify_aggregation E17 A17 sample_pvss sample_dkg [sample_pvss] = Ok True"
proof -
  have "verify_optimistic E17 sample_pvss" by code_simp
  then show ?thesis
    using verify_aggregation_iff[OF session17.session_axioms, of sample_pvss "[sample_pvss]" True]
      sample_pvss_verifies by simp
qed

text \<open>
  Threshold decryption, simple variant.  Against a fully verified aggregate, any distinct
  validators, at least \<open>threshold\<close> many, holding the keys they registered, produce decryption
  shares of a valid ciphertext without error, and combining them with the coefficients of their
  domain points gives \<open>e(U, [s]H)\<close>, where \<open>[s]G\<close> is the aggregate's public key.
\<close>

lemma threshold_decryption_simple:
  assumes "session E A d"
    and "unat (security_threshold (params d)) \<le> length (dom_elements A (domain d))"
    and "verify_full E A p d = Ok True"
    and "distinct is" "list_all (\<lambda>i. unat i < length (validators d)) is"
    and "unat (security_threshold (params d)) \<le> length is"
    and "list_all (\<lambda>i. keypair_public_key E (kps i) = v_public_key (snd (validators d ! unat i))) is"
    and "header_check C E h aad = Ok True"
  shows "\<exists>ss pts s. try_map (\<lambda>i. create_decryption_share_simple C E p h aad (kps i) i) is = Ok ss \<and>
    try_map (get_domain_point A d) is = Ok pts \<and>
    hd (coeffs p) = g1_mul E (g1_generator E) s \<and>
    share_combine_simple E ss (prepare_combine_simple pts) =
      SharedSecret (pair E (hdr_commitment h) (g2_mul E (g2_generator E) s))"
  using assms(1-3)
proof (rule session.verified_polynomial)
  fix cs assume "length cs = unat (security_threshold (params d))"
    and shares: "take (length (validators d)) (shares p) = dealt_shares E A d cs"
    and pk: "hd (coeffs p) = g1_mul E (g1_generator E) (peval cs 0)"
  with assms(6) have "length cs \<le> length is" by simp
  from session.combine_verified[OF assms(1) shares assms(4,5) this assms(7,8)] pk
  show ?thesis by blast
qed

lemma sample_header_keys:
  "list_all (\<lambda>i. unat i < length (validators sample_dkg)) [3 :: u32, 0, 2]"
  "list_all (\<lambda>i. keypair_public_key E17 (sample_keys i) =
     v_public_key (snd (validators sample_dkg ! unat i))) [3, 0, 2]"
  "unat (security_threshold (params sample_dkg)) \<le> length [3 :: u32, 0, 2]"
  "distinct [3 :: u32, 0, 2]"
  by code_simp+

text \<open>
  C9: threshold decryption, precomputed variant: any set of at least \<open>threshold\<close> validators that
  agree on the map of their domain points (an iteration order of it is a list) produce shares whose
  plain product is the same secret \<open>e(U, [s]H)\<close>.  Fewer than all validators suffice.
\<close>

theorem threshold_decryption_precomputed:
  assumes "session E A d"
    and "unat (security_threshold (params d)) \<le> length (dom_elements A (domain d))"
    and "verify_full E A p d = Ok True"
    and "distinct (map fst m)" "unat (security_threshold (params d)) \<le> length m"
    and "list_all (\<lambda>(i, x). unat i < length (validators d) \<and> x = domain_points A d ! unat i) m"
    and "list_all (\<lambda>i. keypair_public_key E (kps i) = v_public_key (snd (validators d ! unat i))) (map fst m)"
    and "header_check C E h aad = Ok True"
  shows "\<exists>ss s. try_map (\<lambda>i. create_decryption_share_precomputed C E p h aad (kps i) i m) (map fst m) = Ok ss \<and>
    hd (coeffs p) = g1_mul E (g1_generator E) s \<and>
    share_combine_precomputed ss =
      SharedSecret (pair E (hdr_commitment h) (g2_mul E (g2_generator E) s))"
  using assms(1-3)
proof (rule session.verified_polynomial)
  fix cs assume "length cs = unat (security_threshold (params d))"
    and shares: "take (length (validators d)) (shares p) = dealt_shares E A d cs"
    and pk: "hd (coeffs p) = g1_mul E (g1_generator E) (peval cs 0)"
  with assms(5) have "length cs \<le> length m" by simp
  from session.combine_verified_precomputed[OF assms(1) shares assms(4) this assms(6-8)] pk
  show ?thesis by blast
qed

lemma sample_points:
  "distinct (map fst [(3 :: u32, 13 :: f17), (0, 1), (2, 16)])"
  "unat (security_threshold (params sample_dkg)) \<le> length [(3 :: u32, 13 :: f17), (0, 1), (2, 16)]"
  "list_all (\<lambda>(i, x). unat i < length (validators sample_dkg) \<and> x = domain_points A17 sample_dkg ! unat i)
     [(3 :: u32, 13), (0, 1), (2, 16)]"
  "list_all (\<lambda>i. keypair_public_key E17 (sample_keys i) =
     v_public_key (snd (validators sample_dkg ! unat i))) (map fst [(3 :: u32, 13 :: f17), (0, 1), (2, 16)])"
  by code_simp+

theorem threshold_decryption_precomputed_witness:
  "\<exists>ss s. try_map (\<lambda>i. create_decryption_share_precomputed C17 E17 sample_pvss sample_header [1]
      (sample_keys i) i [(3, 13), (0, 1), (2, 16)]) (map fst [(3 :: u32, 13 :: f17), (0, 1), (2, 16)]) = Ok ss \<and>
    hd (coeffs sample_pvss) = g1_mul E17 (g1_generator E17) s \<and>
    share_combine_precomputed ss =
      SharedSecret (pair E17 (hdr_commitment sample_header) (g2_mul E17 (g2_generator E17) s))"
  by (rule threshold_decryption_precomputed[OF session17.session_axioms sample_threshold
        sample_pvss_verifies sample_points sample_header_ok])




end
