(* ===== verification/Ritual.thy ===== *)
theory Ritual
  imports Transcripts
begin

text \<open>
  The operations of \<open>PubliclyVerifiableDkg\<close> on transcripts (\<open>ferveo/src/dkg.rs\<close>): dealing a
  transcript, accepting the messages of a ritual, and aggregating them; and the whole protocol
  from the dealt transcripts to the decrypted message.
\<close>

section \<open>Operations\<close>

type_synonym ('g1, 'g2) validator_message = "'g2 validator \<times> ('g1, 'g2) pvss"

definition generate_transcript ::
  "('f, 'g1, 'g2, 'gt) pairing \<Rightarrow> ('f, 'g1, 'd) ark_poly \<Rightarrow> ('f, 'r) ark_rand \<Rightarrow>
    ('g2, 'd) dkg \<Rightarrow> 'r \<Rightarrow> ('g1, 'g2) pvss result \<times> 'r"
where
  "generate_transcript E A R self rng =
     (let (s, rng') = scalar_rand R rng in pvss_new E A R s self rng')"

text \<open>The loop over the messages, with the two hash sets as lists without repetition.\<close>

fun verify_messages ::
  "('f, 'g1::zero, 'g2, 'gt) pairing \<Rightarrow> ('g2, 'd) dkg \<Rightarrow> ethereum_address list \<Rightarrow> ('g1, 'g2) pvss list \<Rightarrow>
    ('g1, 'g2) validator_message list \<Rightarrow> (ethereum_address list \<times> ('g1, 'g2) pvss list) result"
where
  "verify_messages E self validator_set transcript_set [] = Ok (validator_set, transcript_set)"
| "verify_messages E self validator_set transcript_set ((v, transcript) # messages) =
     (let index = v_share_index v; sender = v_address v in
      if map_of (validators self) index = None then Err (UnknownDealer sender)
      else if sender \<in> set validator_set then Err (DuplicateDealer sender)
      else if transcript \<in> set transcript_set then Err (DuplicateTranscript sender)
      else if \<not> verify_optimistic E transcript then Err (InvalidPvssTranscript sender)
      else verify_messages E self (List.insert sender validator_set)
        (List.insert transcript transcript_set) messages)"

definition verify_transcripts ::
  "('f, 'g1::zero, 'g2, 'gt) pairing \<Rightarrow> ('g2, 'd) dkg \<Rightarrow> ('g1, 'g2) validator_message list \<Rightarrow> unit result"
where
  "verify_transcripts E self messages =
     and_then (verify_messages E self [] [] messages) (\<lambda>(validator_set, transcript_set).
     if length validator_set > length (validators self) \<or> length transcript_set > length (validators self)
     then Err (TooManyTranscripts (of_nat (length (validators self))) (of_nat (length validator_set)))
     else Ok ())"

definition aggregate_transcripts ::
  "('f, 'g1::ab_group_add, 'g2::ab_group_add, 'gt) pairing \<Rightarrow> ('g2, 'd) dkg \<Rightarrow>
    ('g1, 'g2) validator_message list \<Rightarrow> ('g1, 'g2) aggregated_transcript result"
where
  "aggregate_transcripts E self messages =
     and_then (verify_transcripts E self messages) (\<lambda>_. from_transcripts (map snd messages))"

section \<open>Supporting facts\<close>

lemma verify_messages_Ok:
  "verify_messages E d vs ts msgs = Ok r \<longleftrightarrow>
     list_all (\<lambda>(v, p). map_of (validators d) (v_share_index v) \<noteq> None \<and> verify_optimistic E p) msgs \<and>
     distinct (map (v_address \<circ> fst) msgs) \<and> distinct (map snd msgs) \<and>
     set vs \<inter> (v_address \<circ> fst) ` set msgs = {} \<and> set ts \<inter> snd ` set msgs = {} \<and>
     r = (rev (map (v_address \<circ> fst) msgs) @ vs, rev (map snd msgs) @ ts)"
proof (induction E d vs ts msgs rule: verify_messages.induct)
  case (2 E d vs ts v p msgs)
  show ?case
  proof (cases "map_of (validators d) (v_share_index v) \<noteq> None \<and> v_address v \<notin> set vs \<and>
      p \<notin> set ts \<and> verify_optimistic E p")
    case True
    then have "verify_messages E d vs ts ((v, p) # msgs) = verify_messages E d (v_address v # vs) (p # ts) msgs"
      by auto
    moreover have "verify_messages E d (v_address v # vs) (p # ts) msgs = Ok r \<longleftrightarrow>
     list_all (\<lambda>(v, p). map_of (validators d) (v_share_index v) \<noteq> None \<and> verify_optimistic E p) msgs \<and>
     distinct (map (v_address \<circ> fst) msgs) \<and> distinct (map snd msgs) \<and>
     set (v_address v # vs) \<inter> (v_address \<circ> fst) ` set msgs = {} \<and> set (p # ts) \<inter> snd ` set msgs = {} \<and>
     r = (rev (map (v_address \<circ> fst) msgs) @ v_address v # vs, rev (map snd msgs) @ p # ts)"
      using 2[OF refl refl] True by (simp add: o_def)
    ultimately show ?thesis using True by (auto simp: o_def)
  next
    case False
    then show ?thesis by (auto simp: Let_def)
  qed
qed auto

lemma verify_messages_not_Panic [simp]: "verify_messages E d vs ts msgs \<noteq> Panic"
  by (induction E d vs ts msgs rule: verify_messages.induct) (auto simp: Let_def)

lemma verify_transcripts_not_Panic [simp]: "verify_transcripts E d msgs \<noteq> Panic"
  by (auto simp: verify_transcripts_def outcome_simps split: prod.splits)

lemma verify_transcripts_Ok:
  "verify_transcripts E d msgs = Ok u \<longleftrightarrow>
     list_all (\<lambda>(v, p). map_of (validators d) (v_share_index v) \<noteq> None \<and> verify_optimistic E p) msgs \<and>
     distinct (map (v_address \<circ> fst) msgs) \<and> distinct (map snd msgs) \<and>
     length msgs \<le> length (validators d)"
  by (auto simp: verify_transcripts_def outcome_simps verify_messages_Ok not_less)

lemma from_transcripts_Ok:
  "from_transcripts ts = Ok a \<longleftrightarrow> (\<exists>F Fs. aggregate ts = Ok (aggregate_pvss a) \<and>
     coeffs (aggregate_pvss a) = F # Fs \<and> agg_public_key a = DkgPublicKey F)"
proof -
  have "from_aggregate p = Ok a \<longleftrightarrow> p = aggregate_pvss a \<and> (\<exists>F Fs. coeffs p = F # Fs \<and>
      agg_public_key a = DkgPublicKey F)" for p :: "('a, 'b) pvss"
    by (cases "coeffs p"; cases a) (auto simp: from_aggregate_def)
  then show ?thesis by (auto simp: from_transcripts_def outcome_simps)
qed

lemma sum_list_hd_dealt:
  assumes "pairing_laws E" "list_all (\<lambda>ds. ds \<noteq> []) css"
  shows "sum_list (map (hd \<circ> coeffs) (map (dealt E A d) css)) =
    g1_mul E (g1_generator E) (sum_list (map (\<lambda>ds. peval ds 0) css))"
proof -
  have act: "scalar_action (g1_mul E)"
    using assms(1) by (simp add: pairing_laws_def cyclic_action_def)
  have "hd (coeffs (dealt E A d ds)) = g1_mul E (g1_generator E) (peval ds 0)" if "ds \<noteq> []" for ds
    using that by (cases ds) (simp_all add: peval_zero_point)
  then have "map (hd \<circ> coeffs) (map (dealt E A d) css) =
      map (g1_mul E (g1_generator E)) (map (\<lambda>ds. peval ds 0) css)"
    using assms(2) by (simp add: list_all_iff)
  then show ?thesis by (simp only: scalar_action.mul_sum_list_right[OF act])
qed

context session begin

lemma honest_aggregate:
  assumes "unat (security_threshold (params d)) \<le> length (dom_elements A (domain d))"
    and "list_all (\<lambda>ds. length ds = unat (security_threshold (params d)) \<and> hd ds \<noteq> 0 \<and> last ds \<noteq> 0) (cs # css)"
    and "hd (sum_polys cs css) \<noteq> 0" "last (sum_polys cs css) \<noteq> 0"
  shows "from_transcripts (map (dealt E A d) (cs # css)) =
      Ok \<lparr> aggregate_pvss = dealt E A d (sum_polys cs css),
        agg_public_key = DkgPublicKey (g1_mul E (g1_generator E) (peval (sum_polys cs css) 0)) \<rparr>"
    "verify_aggregation E A (dealt E A d (sum_polys cs css)) d (map (dealt E A d) (cs # css)) = Ok True"
proof -
  let ?q = "sum_polys cs css"
  have len: "list_all (\<lambda>ds. length ds = length cs) css" using assms(2) by (auto simp: list_all_iff)
  then have lq: "length ?q = unat (security_threshold (params d))" using assms(2) by simp
  then have "?q \<noteq> []" using threshold_pos by auto
  then have hq: "coeffs (dealt E A d ?q) = g1_mul E (g1_generator E) (peval ?q 0) # tl (coeffs (dealt E A d ?q))"
    by (cases ?q) (simp_all add: peval_zero_point)
  show "from_transcripts (map (dealt E A d) (cs # css)) =
      Ok \<lparr> aggregate_pvss = dealt E A d ?q,
        agg_public_key = DkgPublicKey (g1_mul E (g1_generator E) (peval ?q 0)) \<rparr>"
    unfolding from_transcripts_Ok using hq aggregate_dealt[OF len] by auto
  have ne: "list_all (\<lambda>ds. ds \<noteq> []) (cs # css)"
    using assms(2) threshold_pos by (auto simp: list_all_iff)
  have "sum_list (map (hd \<circ> coeffs) (map (dealt E A d) (cs # css))) = hd (coeffs (dealt E A d ?q))"
    using sum_list_hd_dealt[OF pairing_laws_axioms ne] hq peval_sum_polys[OF len, of 0]
    by (metis list.sel(1) list.simps(9) sum_list.Cons)
  moreover have "list_all (verify_optimistic E) (map (dealt E A d) (cs # css))"
    using dealt_verifies(2)[OF assms(1)] assms(2) by (auto simp: list_all_iff)
  moreover have "verify_full E A (dealt E A d ?q) d = Ok True"
    by (rule dealt_verifies(1)[OF assms(1) lq assms(3,4)])
  ultimately show "verify_aggregation E A (dealt E A d ?q) d (map (dealt E A d) (cs # css)) = Ok True"
    unfolding verify_aggregation_Ok by simp
qed

end

section \<open>Properties\<close>

text \<open>
  A ritual of honest dealers succeeds.  When the dealers' polynomials have \<open>threshold\<close>
  coefficients with nonzero constant and leading terms, their sum too, and the messages are
  acceptable, aggregation returns the transcript of the sum under the public key \<open>[\<Sum> s_i]G\<close>, and
  the aggregate verifies against the messages it was made from.
\<close>

lemma honest_ritual_succeeds:
  assumes "session E A d"
    and "unat (security_threshold (params d)) \<le> length (dom_elements A (domain d))"
    and "list_all (\<lambda>ds. length ds = unat (security_threshold (params d)) \<and> hd ds \<noteq> 0 \<and> last ds \<noteq> 0) (cs # css)"
    and "hd (sum_polys cs css) \<noteq> 0" "last (sum_polys cs css) \<noteq> 0"
    and "map snd msgs = map (dealt E A d) (cs # css)" "verify_transcripts E d msgs = Ok ()"
  shows "aggregate_transcripts E d msgs = Ok \<lparr> aggregate_pvss = dealt E A d (sum_polys cs css),
      agg_public_key = DkgPublicKey (g1_mul E (g1_generator E)
        (peval cs 0 + sum_list (map (\<lambda>ds. peval ds 0) css))) \<rparr> \<and>
    verify_aggregation E A (dealt E A d (sum_polys cs css)) d (map snd msgs) = Ok True"
proof -
  have len: "list_all (\<lambda>ds. length ds = length cs) css" using assms(3) by (auto simp: list_all_iff)
  then show ?thesis
    using session.honest_aggregate[OF assms(1-5)] assms(6,7)
    by (simp add: aggregate_transcripts_def peval_sum_polys)
qed

text \<open>
  C2: the protocol from end to end.  Let an aggregate come out of a ritual and verify against the
  ritual's messages.  Then a message encrypted to its public key is recovered, unchanged, from the
  decryption shares of any distinct validators, at least \<open>threshold\<close> many, who hold their
  registered keys: every share is created, the shares combine, and decryption returns the message.
\<close>

theorem ritual_end_to_end:
  assumes "session E A d" "crypto_laws C"
    and "unat (security_threshold (params d)) \<le> length (dom_elements A (domain d))"
    and "aggregate_transcripts E d msgs = Ok agg"
    and "verify_aggregation E A (aggregate_pvss agg) d (map snd msgs) = Ok True"
    and "encrypt C E R message aad (agg_public_key agg) rng = (Ok ct, rng')"
    and "ct_commitment ct \<noteq> 0" "ct_auth_tag ct \<noteq> 0" "ct_header C ct = Ok header"
    and "distinct is" "list_all (\<lambda>i. unat i < length (validators d)) is"
    and "unat (security_threshold (params d)) \<le> length is"
    and "list_all (\<lambda>i. keypair_public_key E (kps i) = v_public_key (snd (validators d ! unat i))) is"
  shows "\<exists>ss pts.
    try_map (\<lambda>i. create_decryption_share_simple C E (aggregate_pvss agg) header aad (kps i) i) is = Ok ss \<and>
    try_map (get_domain_point A d) is = Ok pts \<and>
    decrypt_with_shared_secret C E ct aad (share_combine_simple E ss (prepare_combine_simple pts)) =
      Ok message"
proof -
  have E: "pairing_laws E" using assms(1) by (simp add: session_def)
  have scheme: "tdec_scheme C E" by (rule tdec_scheme.intro[OF assms(2) E])
  have verified: "verify_full E A (aggregate_pvss agg) d = Ok True"
    using assms(5) by (simp add: session.verify_aggregation_Ok[OF assms(1)])
  have pk: "agg_public_key agg = DkgPublicKey (hd (coeffs (aggregate_pvss agg)))"
    using assms(4) by (auto simp: aggregate_transcripts_def outcome_simps from_transcripts_Ok)
  have check: "header_check C E header aad = Ok True"
    using tdec_scheme.encrypt_check[OF scheme assms(6-8)] assms(9) by (simp add: ciphertext_check_def)
  have U: "hdr_commitment header = ct_commitment ct" using assms(9) by (auto simp: ct_header_def)
  show ?thesis
    using assms(1,3) verified
  proof (rule session.verified_polynomial)
    fix cs assume "length cs = unat (security_threshold (params d))"
      and shares: "take (length (validators d)) (shares (aggregate_pvss agg)) = dealt_shares E A d cs"
      and F0: "hd (coeffs (aggregate_pvss agg)) = g1_mul E (g1_generator E) (peval cs 0)"
    with assms(12) have len: "length cs \<le> length is" by simp
    have "decrypt_with_shared_secret C E ct aad
        (SharedSecret (pair E (ct_commitment ct) (g2_mul E (g2_generator E) (peval cs 0)))) = Ok message"
      using tdec_scheme.encrypt_secret[OF scheme _ assms(7,8)] assms(6) by (simp add: pk F0)
    with session.combine_verified[OF assms(1) shares assms(10,11) len assms(13) check] U
    show ?thesis by metis
  qed
qed

definition sample_agg :: "(f17, f17) aggregated_transcript" where
  "sample_agg = \<lparr> aggregate_pvss = sample_pvss,
     agg_public_key = DkgPublicKey (g1_mul E17 (g1_generator E17) 5) \<rparr>"

lemma sample_agg_ok:
  "aggregate_transcripts E17 sample_dkg [(sample_validator 0, sample_pvss)] = Ok sample_agg"
  "verify_aggregation E17 A17 (aggregate_pvss sample_agg) sample_dkg
     (map snd [(sample_validator 0, sample_pvss)]) = Ok True"
  by code_simp+

lemma sample_encrypted:
  "encrypt C17 E17 R17 [10, 20] [1] (agg_public_key sample_agg) 2 = (Ok sample_ct, 3)"
  "ct_header C17 sample_ct = Ok sample_header"
  using sample_ct_ok(1) by (simp_all add: sample_agg_def ct_header_def sample_header_def)

theorem ritual_end_to_end_witness:
  "\<exists>ss pts. try_map (\<lambda>i. create_decryption_share_simple C17 E17 (aggregate_pvss sample_agg)
      sample_header [1] (sample_keys i) i) [3, 0, 2] = Ok ss \<and>
    try_map (get_domain_point A17 sample_dkg) [3, 0, 2] = Ok pts \<and>
    decrypt_with_shared_secret C17 E17 sample_ct [1]
      (share_combine_simple E17 ss (prepare_combine_simple pts)) = Ok [10, 20]"
  by (rule ritual_end_to_end[OF session17.session_axioms c17.crypto_laws_axioms sample_threshold
        sample_agg_ok sample_encrypted(1) sample_ct_ok(2,3) sample_encrypted(2)
        sample_header_keys(4,1,3,2)])

text \<open>
  Dealing by \<open>generate_transcript\<close> never fails in a session, and its transcript is accepted by
  the message check of the same session whenever the sampled secret is nonzero.
\<close>

lemma generate_transcript_accepted:
  assumes "session E A d" "rand_laws R"
    and "unat (security_threshold (params d)) \<le> length (dom_elements A (domain d))"
    and "fst (scalar_rand R rng) \<noteq> 0" "map_of (validators d) (v_share_index v) \<noteq> None"
  shows "\<exists>p rng'. generate_transcript E A R d rng = (Ok p, rng') \<and>
    verify_transcripts E d [(v, p)] = Ok ()"
proof -
  obtain s r where s: "scalar_rand R rng = (s, r)" "s \<noteq> 0" using assms(4) by (cases "scalar_rand R rng") auto
  obtain phi r' where "poly_rand R (unat (security_threshold (params d)) - 1) r = (phi, r')"
    by fastforce
  then have ok: "pvss_new E A R s d r = (Ok (dealt E A d (phi[0 := s])), r')"
    by (rule session.pvss_new_dealt[OF assms(1,2)])
  have "verify_optimistic E (dealt E A d (phi[0 := s]))"
    using session.pvss_new_polynomial[OF assms(1,2) ok] session.dealt_verifies(2)[OF assms(1,3)] s(2)
    by metis
  moreover have "validators d \<noteq> []" using session.validators_nonempty[OF assms(1)] .
  then have "1 \<le> length (validators d)" by (cases "validators d") auto
  ultimately show ?thesis
    using ok s(1) assms(5) by (simp add: generate_transcript_def verify_transcripts_Ok)
qed

end
