(* ===== verification/Refresh.thy ===== *)
theory Refresh
  imports Ritual
begin

text \<open>
  \<open>ferveo/src/refresh.rs\<close> and the operations of \<open>pvss.rs\<close> and \<open>dkg.rs\<close> behind the
  \<open>experimental-refresh\<close> feature: share refresh and handover.  Validation failures are panics in
  the sources (\<open>assert!\<close>, \<open>unwrap\<close>), so most operations return an outcome.
\<close>

section \<open>Share updates\<close>

datatype 'g2 updatable_blinded_key_share =
  UpdatableBlindedKeyShare (inner_share: "'g2 blinded_key_share")

record ('g1, 'g2) share_update =
  su_update :: 'g2
  su_commitment :: 'g1

record ('g1, 'g2) update_transcript =
  ut_coeffs :: "'g1 list"
  ut_updates :: "(u32, ('g1, 'g2) share_update) hash_map"

definition share_update_verify ::
  "('f, 'g1, 'g2, 'gt) pairing \<Rightarrow> ('g1, 'g2) share_update \<Rightarrow> 'g2 public_key \<Rightarrow> bool result" where
  "share_update_verify E self target =
     (let is_valid = (pair E (g1_generator E) (su_update self) = pair E (su_commitment self) (encryption_key target))
      in if is_valid then Ok True else Err InvalidShareUpdate)"

definition apply_share_updates ::
  "('f, 'g1, 'g2::ab_group_add, 'gt) pairing \<Rightarrow> 'g2 updatable_blinded_key_share \<Rightarrow>
    (u32, ('g1, 'g2) update_transcript) hash_map \<Rightarrow> u32 \<Rightarrow> 'g2 updatable_blinded_key_share result"
where
  "apply_share_updates E self update_transcripts index =
     and_then (try_map (\<lambda>(_, ut).
         and_then (expect (map_of (ut_updates ut) index)) (\<lambda>upd.
         and_then (unwrap (share_update_verify E upd
             \<lparr> encryption_key = bks_validator_public_key (inner_share self) \<rparr>)) (\<lambda>_.
         Ok upd))) update_transcripts)
       (\<lambda>share_updates.
         Ok (UpdatableBlindedKeyShare \<lparr> bks_validator_public_key = bks_validator_public_key (inner_share self),
           bks_blinded_key_share = fold (\<lambda>delta acc. acc + su_update delta) share_updates
             (bks_blinded_key_share (inner_share self)) \<rparr>))"

definition updatable_create_decryption_share_simple ::
  "('g1, 'g2, 'gt, 'fp, 'fp2, 'ecp2) crypto \<Rightarrow> ('f::field, 'g1::ab_group_add, 'g2::ab_group_add, 'gt::comm_monoid_mult) pairing \<Rightarrow>
    'g2 updatable_blinded_key_share \<Rightarrow> ('g1, 'g2) ciphertext_header \<Rightarrow> bytes \<Rightarrow> 'f keypair \<Rightarrow>
    ('g1, 'gt) decryption_share_simple result"
where
  "updatable_create_decryption_share_simple C E self header aad kp =
     unwrap (bks_create_decryption_share_simple C E (inner_share self) header aad kp)"

definition updatable_create_decryption_share_precomputed ::
  "('g1, 'g2, 'gt, 'fp, 'fp2, 'ecp2) crypto \<Rightarrow> ('f::field, 'g1::ab_group_add, 'g2::ab_group_add, 'gt::comm_monoid_mult) pairing \<Rightarrow>
    'g2 updatable_blinded_key_share \<Rightarrow> ('g1, 'g2) ciphertext_header \<Rightarrow> bytes \<Rightarrow> 'f keypair \<Rightarrow> u32 \<Rightarrow>
    (u32, 'f) hash_map \<Rightarrow> ('g1, 'gt) decryption_share_precomputed result"
where
  "updatable_create_decryption_share_precomputed C E self header aad kp share_index domain_points_map =
     (let points = sort_key fst domain_points_map;
          only_domain_points = map snd points;
          lagrange_coeffs = prepare_combine_simple only_domain_points;
          sorted_share_indices = hm_collect (zip (map fst points) [0..<length points])
      in and_then (ok_or (map_of sorted_share_indices share_index) (InvalidShareIndex share_index))
           (\<lambda>adjusted_share_index.
         and_then (slice_index lagrange_coeffs adjusted_share_index) (\<lambda>lagrange_coeff.
         let private_key_share = unblind E (inner_share self) kp in
         and_then (unwrap private_key_share) (\<lambda>private_key_share.
         map_err ThresholdEncryptionError
           (decryption_share_precomputed_create C E (unat share_index) (decryption_key kp)
             private_key_share header aad lagrange_coeff)))))"

section \<open>Update transcripts\<close>

text \<open>\<open>poly[0]\<close> is an index into the coefficient vector and panics on an empty polynomial.\<close>

definition make_random_polynomial_with_root ::
  "('f::field, 'g1, 'd) ark_poly \<Rightarrow> ('f, 'r) ark_rand \<Rightarrow> u32 \<Rightarrow> 'f \<Rightarrow> 'r \<Rightarrow> 'f list result \<times> 'r"
where
  "make_random_polynomial_with_root A R degree root rng =
     (let (poly, rng') = poly_rand R (unat degree) rng
      in (if poly = [] then Panic
          else let poly = poly[0 := 0];
                   new_c_0 = 0 - poly_evaluate A poly root
               in Ok (poly[0 := new_c_0]), rng'))"

definition prepare_share_updates_with_root ::
  "('f::field, 'g1, 'g2, 'gt) pairing \<Rightarrow> ('f, 'g1, 'd) ark_poly \<Rightarrow> ('f, 'r) ark_rand \<Rightarrow>
    (u32, 'f \<times> 'g2 public_key) hash_map \<Rightarrow> 'f \<Rightarrow> u32 \<Rightarrow> 'r \<Rightarrow> ('g1, 'g2) update_transcript result \<times> 'r"
where
  "prepare_share_updates_with_root E A R domain_points_and_keys root threshold rng =
     (let (update_poly, rng') = make_random_polynomial_with_root A R (threshold - 1) root rng
      in (and_then update_poly (\<lambda>update_poly.
          let g = g1_generator E;
              coeff_commitments = fast_multiexp (g1_batch_mul E) update_poly g;
              share_updates = hm_collect (map (\<lambda>(share_index, (x_i, pubkey_i)).
                let eval = poly_evaluate A update_poly x_i
                in (share_index, \<lparr> su_update = g2_mul E (encryption_key pubkey_i) eval,
                     su_commitment = g1_mul E g eval \<rparr>)) domain_points_and_keys)
          in Ok \<lparr> ut_coeffs = coeff_commitments, ut_updates = share_updates \<rparr>), rng'))"

definition create_refresh_updates ::
  "('f::field, 'g1, 'g2, 'gt) pairing \<Rightarrow> ('f, 'g1, 'd) ark_poly \<Rightarrow> ('f, 'r) ark_rand \<Rightarrow>
    (u32, 'f \<times> 'g2 public_key) hash_map \<Rightarrow> u32 \<Rightarrow> 'r \<Rightarrow> ('g1, 'g2) update_transcript result \<times> 'r"
where
  "create_refresh_updates E A R domain_points_and_keys threshold rng =
     prepare_share_updates_with_root E A R domain_points_and_keys 0 threshold rng"

fun verify_updates ::
  "('f, 'g1, 'g2, 'gt) pairing \<Rightarrow> (u32, 'g2 public_key) hash_map \<Rightarrow> 'g1 list \<Rightarrow>
    (u32 \<times> ('g1, 'g2) share_update) list \<Rightarrow> unit result"
where
  "verify_updates E keys commitments [] = Ok ()"
| "verify_updates E keys commitments ((index, upd) # rest) =
     and_then (expect (map_of keys index)) (\<lambda>pk.
     and_then (unwrap (share_update_verify E upd pk)) (\<lambda>_.
     and_then (ok_or (slice_get commitments (unat index)) (InvalidShareIndex index)) (\<lambda>expected_commitment.
     and_then (rust_assert (expected_commitment = su_commitment upd)) (\<lambda>_.
     verify_updates E keys commitments rest))))"

definition verify_recovery ::
  "('f::zero, 'g1::ab_group_add, 'g2, 'gt) pairing \<Rightarrow> ('f, 'g1, 'd) ark_poly \<Rightarrow> ('g1, 'g2) update_transcript \<Rightarrow>
    (u32, 'g2 public_key) hash_map \<Rightarrow> 'd \<Rightarrow> 'f \<Rightarrow> bool result"
where
  "verify_recovery E A self keys dm root =
     (let reconstructed_commitments = dom_fft A dm (batch_to_projective_g1 (ut_coeffs self)) in
      and_then (verify_updates E keys reconstructed_commitments (ut_updates self)) (\<lambda>_.
      if root = 0 then
        and_then (slice_index (ut_coeffs self) 0) (\<lambda>c_0.
        and_then (rust_assert (c_0 = 0)) (\<lambda>_. Ok True))
      else
        (case rev (ut_coeffs self) of
           [] \<Rightarrow> Panic
         | c # cs \<Rightarrow>
             let acc = fold (\<lambda>coeff acc. coeff + g1_mul E acc root) cs c in
             and_then (rust_assert (acc = 0)) (\<lambda>_. Ok True))))"

definition verify_refresh ::
  "('f::zero, 'g1::ab_group_add, 'g2, 'gt) pairing \<Rightarrow> ('f, 'g1, 'd) ark_poly \<Rightarrow> ('g1, 'g2) update_transcript \<Rightarrow>
    (u32, 'g2 public_key) hash_map \<Rightarrow> 'd \<Rightarrow> bool result"
where
  "verify_refresh E A self keys dm = verify_recovery E A self keys dm 0"

section \<open>Refreshing an aggregate\<close>

definition refresh ::
  "('f::zero, 'g1::ab_group_add, 'g2::ab_group_add, 'gt) pairing \<Rightarrow> ('f, 'g1, 'd) ark_poly \<Rightarrow> ('g1, 'g2) pvss \<Rightarrow>
    (u32, ('g1, 'g2) update_transcript) hash_map \<Rightarrow> (u32, 'g2 public_key) hash_map \<Rightarrow> ('g1, 'g2) pvss result"
where
  "refresh E A self update_transcripts validator_keys_map =
     and_then (expect (dom_new A (length (shares self)))) (\<lambda>fft_domain.
     and_then (try_map (\<lambda>(_, ut). unwrap (verify_refresh E A ut validator_keys_map fft_domain))
         update_transcripts) (\<lambda>_.
     let indices = sort (map fst validator_keys_map) in
     and_then (try_map (\<lambda>index.
         and_then (unwrap (ok_or (map_of validator_keys_map index) (InvalidShareIndex index))) (\<lambda>pubkey.
         and_then (unwrap (get_share_for_index_and_pubkey self index pubkey)) (\<lambda>blinded.
         and_then (apply_share_updates E (UpdatableBlindedKeyShare blinded) update_transcripts index)
           (\<lambda>updated_share. Ok (bks_blinded_key_share (inner_share updated_share)))))) indices)
       (\<lambda>updated_blinded_shares.
         Ok \<lparr> coeffs = coeffs self, shares = updated_blinded_shares, sigma = sigma self \<rparr>)))"

definition generate_refresh_transcript ::
  "('f::field, 'g1, 'g2, 'gt) pairing \<Rightarrow> ('f, 'g1, 'd) ark_poly \<Rightarrow> ('f, 'r) ark_rand \<Rightarrow>
    ('g2, 'd) dkg \<Rightarrow> 'r \<Rightarrow> ('g1, 'g2) update_transcript result \<times> 'r"
where
  "generate_refresh_transcript E A R self rng =
     (case domain_and_key_map A self of
        Ok points_and_keys \<Rightarrow>
          create_refresh_updates E A R points_and_keys (security_threshold (params self)) rng
      | Err e \<Rightarrow> (Err e, rng)
      | Panic \<Rightarrow> (Panic, rng))"

section \<open>Handover\<close>

record ('g1, 'g2) handover_transcript =
  ho_share_index :: u32
  double_blind_share :: 'g2
  commitment_to_share :: 'g2
  commitment_to_g1 :: 'g1
  commitment_to_g2 :: 'g2
  incoming_pubkey :: "'g2 public_key"
  outgoing_pubkey :: "'g2 public_key"

definition handover_new ::
  "('f::field, 'g1, 'g2, 'gt) pairing \<Rightarrow> ('f, 'r) ark_rand \<Rightarrow> u32 \<Rightarrow> 'g2 blinded_key_share \<Rightarrow>
    'g2 public_key \<Rightarrow> 'f keypair \<Rightarrow> 'r \<Rightarrow> ('g1, 'g2) handover_transcript \<times> 'r"
where
  "handover_new E R share_index outgoing_blinded_share outgoing_pk incoming_kp rng =
     (let (random_scalar, rng') = scalar_rand R rng;
          incoming_decryption_key = decryption_key incoming_kp
      in (\<lparr> ho_share_index = share_index,
            double_blind_share = g2_mul E (bks_blinded_key_share outgoing_blinded_share) incoming_decryption_key,
            commitment_to_share =
              g2_mul E (encryption_key outgoing_pk) (incoming_decryption_key * random_scalar),
            commitment_to_g1 = g1_mul E (g1_generator E) random_scalar,
            commitment_to_g2 = g2_mul E (g2_generator E) random_scalar,
            incoming_pubkey = keypair_public_key E incoming_kp,
            outgoing_pubkey = outgoing_pk \<rparr>, rng'))"

definition handover_validate ::
  "('f, 'g1::ab_group_add, 'g2, 'gt::comm_monoid_mult) pairing \<Rightarrow> ('g1, 'g2) handover_transcript \<Rightarrow>
    'g1 share_commitment \<Rightarrow> bool result"
where
  "handover_validate E self share_comm =
     (let commitment_to_g1_inv = - commitment_to_g1 self;
          is_valid = (multi_pairing E [commitment_to_g1_inv, commitment_point share_comm]
            [double_blind_share self, commitment_to_share self] = 1);
          is_valid = (is_valid \<and> multi_pairing E [commitment_to_g1_inv, g1_generator E]
            [g2_generator E, commitment_to_g2 self] = 1)
      in if is_valid then Ok True else Err InvalidShareUpdate)"

definition handover_finalize ::
  "('f::field, 'g1::ab_group_add, 'g2, 'gt::comm_monoid_mult) pairing \<Rightarrow> ('g1, 'g2) handover_transcript \<Rightarrow>
    'f keypair \<Rightarrow> 'g1 share_commitment \<Rightarrow> 'g2 blinded_key_share result"
where
  "handover_finalize E self departing_kp share_comm =
     and_then (unwrap (handover_validate E self share_comm)) (\<lambda>is_valid.
     if \<not> is_valid then Err InvalidShareUpdate
     else and_then (expect (ff_inverse (decryption_key departing_kp))) (\<lambda>inv.
       Ok \<lparr> bks_validator_public_key = encryption_key (incoming_pubkey self),
            bks_blinded_key_share = g2_mul E (double_blind_share self) inv \<rparr>))"

text \<open>The boolean of the last check is discarded: only an error of it is propagated.\<close>

definition finalize_handover ::
  "('f::field, 'g1::ab_group_add, 'g2, 'gt::comm_monoid_mult) pairing \<Rightarrow> ('f, 'g1, 'd) ark_poly \<Rightarrow>
    ('g1, 'g2) pvss \<Rightarrow> ('g1, 'g2) handover_transcript \<Rightarrow> 'f keypair \<Rightarrow> ('g1, 'g2) pvss result"
where
  "finalize_handover E A self ho validator_kp =
     (let num_shares = length (shares self) in
      and_then (expect (dom_new A num_shares)) (\<lambda>fft_domain.
      let share_commitments = get_share_commitments_from_poly_commitments A (coeffs self) fft_domain;
          share_index = unat (ho_share_index ho)
      in if num_shares \<le> share_index then Err (InvalidShareIndex (ho_share_index ho))
         else if outgoing_pubkey ho \<noteq> keypair_public_key E validator_kp then Err ValidatorPublicKeyMismatch
         else
           and_then (unwrap (ok_or (slice_get share_commitments share_index)
             (InvalidShareIndex (of_nat share_index)))) (\<lambda>share_comm.
           and_then (unwrap (handover_finalize E ho validator_kp (ShareCommitment share_comm)))
             (\<lambda>new_blind_share.
           let new_shares = (shares self)[share_index := bks_blinded_key_share new_blind_share] in
           and_then (verify_validator_share E share_commitments new_shares share_index (incoming_pubkey ho))
             (\<lambda>_. Ok \<lparr> coeffs = coeffs self, shares = new_shares, sigma = sigma self \<rparr>)))))"

definition generate_handover_transcript ::
  "('f::field, 'g1, 'g2, 'gt) pairing \<Rightarrow> ('f, 'r) ark_rand \<Rightarrow> ('g2, 'd) dkg \<Rightarrow>
    ('g1, 'g2) aggregated_transcript \<Rightarrow> u32 \<Rightarrow> 'f keypair \<Rightarrow> 'r \<Rightarrow>
    ('g1, 'g2) handover_transcript result \<times> 'r"
where
  "generate_handover_transcript E R self agg handover_slot_index incoming_kp rng =
     (case and_then (ok_or (map_of (validators self) handover_slot_index)
           (InvalidShareIndex handover_slot_index)) (\<lambda>departing.
         and_then (get_share_for_validator (aggregate_pvss agg) departing) (\<lambda>share. Ok (departing, share))) of
        Ok (departing, share) \<Rightarrow>
          (let (ho, rng') = handover_new E R handover_slot_index share (v_public_key departing) incoming_kp rng
           in (Ok ho, rng'))
      | Err e \<Rightarrow> (Err e, rng)
      | Panic \<Rightarrow> (Panic, rng))"

section \<open>Supporting facts\<close>

lemma share_update_verify_eq [outcome_simps]:
  "share_update_verify E u pk = Ok b \<longleftrightarrow>
     b \<and> pair E (g1_generator E) (su_update u) = pair E (su_commitment u) (encryption_key pk)"
  by (auto simp: share_update_verify_def)

lemma verify_updates_Ok:
  "verify_updates E keys comms us = Ok () \<longleftrightarrow>
     list_all (\<lambda>(i, u). (\<exists>pk. map_of keys i = Some pk \<and> share_update_verify E u pk = Ok True) \<and>
       unat i < length comms \<and> comms ! unat i = su_commitment u) us"
  by (induction us) (auto simp: outcome_simps slice_get_eq_Some)

lemma horner_rev:
  "fold (\<lambda>coeff acc. coeff + mul acc x) (rev Cs) acc = gpeval mul (Cs @ [acc]) x"
  if "\<And>y. mul 0 y = 0" for mul :: "'g::ab_group_add \<Rightarrow> 'f \<Rightarrow> 'g"
  by (induction Cs) (simp_all add: that)

text \<open>Both branches of the root check say that the committed polynomial vanishes at the root.\<close>

context pairing_laws begin

lemma verify_recovery_Ok:
  "verify_recovery E A ut keys dm root = Ok b \<longleftrightarrow>
     b \<and> verify_updates E keys (dom_fft A dm (ut_coeffs ut)) (ut_updates ut) = Ok () \<and>
     ut_coeffs ut \<noteq> [] \<and> gpeval (g1_mul E) (ut_coeffs ut) root = 0"
proof (cases "ut_coeffs ut" rule: rev_cases)
  case (snoc cs c)
  have "(cs @ [c]) ! 0 = gpeval (g1_mul E) (cs @ [c]) 0" by (cases cs) simp_all
  with snoc show ?thesis
    by (auto simp: verify_recovery_def Let_def outcome_simps horner_rev split: if_splits)
qed (auto simp: verify_recovery_def Let_def outcome_simps split: if_splits)

end

lemma apply_share_updates_Ok:
  fixes uts :: "(u32, ('g1, 'g2::ab_group_add) update_transcript) hash_map"
  assumes "list_all (\<lambda>(_, ut). \<exists>u. map_of (ut_updates ut) i = Some u \<and>
      share_update_verify E u \<lparr> encryption_key = bks_validator_public_key (inner_share self) \<rparr> = Ok True) uts"
  shows "apply_share_updates E self uts i = Ok (UpdatableBlindedKeyShare
    \<lparr> bks_validator_public_key = bks_validator_public_key (inner_share self),
      bks_blinded_key_share = bks_blinded_key_share (inner_share self) +
        sum_list (map (\<lambda>(_, ut). su_update (the (map_of (ut_updates ut) i))) uts) \<rparr>)"
proof -
  have "try_map (\<lambda>(_, ut). and_then (expect (map_of (ut_updates ut) i)) (\<lambda>upd.
      and_then (unwrap (share_update_verify E upd
        \<lparr> encryption_key = bks_validator_public_key (inner_share self) \<rparr>)) (\<lambda>_. Ok upd))) uts =
      (Ok (map (\<lambda>(_, ut). the (map_of (ut_updates ut) i)) uts) :: ('g1, 'g2) share_update list result)"
    using assms by (intro try_map_Ok_map) (fastforce simp: list_all_iff)
  moreover have "fold (\<lambda>delta acc. acc + su_update delta) us x = x + sum_list (map su_update us)"
    for us :: "('g1, 'g2) share_update list" and x
    by (induction us arbitrary: x) (simp_all add: add.assoc)
  ultimately show ?thesis
    by (simp add: apply_share_updates_def o_def case_prod_unfold)
qed

text \<open>The key map of a session, in any order of its entries.\<close>

definition session_keys :: "('g2, 'd) dkg \<Rightarrow> (u32, 'g2 public_key) hash_map \<Rightarrow> bool" where
  "session_keys d keys \<longleftrightarrow> distinct (map fst keys) \<and>
     set keys = {(of_nat i, v_public_key (snd (validators d ! i))) | i. i < length (validators d)}"

text \<open>An update transcript deals the polynomial \<open>ds\<close>, with root zero, to every validator.\<close>

definition deals_update ::
  "('f::field, 'g1, 'g2, 'gt) pairing \<Rightarrow> ('f, 'g1, 'd) ark_poly \<Rightarrow> ('g2, 'd) dkg \<Rightarrow> nat \<Rightarrow>
    ('g1, 'g2) update_transcript \<Rightarrow> 'f list \<Rightarrow> bool"
where
  "deals_update E A d k ut ds \<longleftrightarrow> length ds = k \<and> peval ds 0 = 0 \<and>
     ut_coeffs ut = map (g1_mul E (g1_generator E)) ds \<and>
     (\<forall>i<length (validators d). \<exists>u. map_of (ut_updates ut) (of_nat i) = Some u \<and>
       su_update u = g2_mul E (encryption_key (v_public_key (snd (validators d ! i)))) (peval ds (domain_points A d ! i)) \<and>
       share_update_verify E u (v_public_key (snd (validators d ! i))) = Ok True)"

context session begin

lemma random_polynomial_root:
  assumes "rand_laws R" "0 < unat t"
  obtains cs rng' where "make_random_polynomial_with_root A R (t - 1) root rng = (Ok cs, rng')"
    "length cs = unat t" "peval cs root = 0"
proof -
  obtain phi r where phi: "poly_rand R (unat (t - 1)) rng = (phi, r)" by fastforce
  have t: "unat (t - 1) = unat t - 1" using assms(2) by (intro unat_minus_one) auto
  have len: "length phi = unat t"
    using rand_laws.poly_rand_length[OF assms(1) phi] t assms(2) by simp
  then obtain c cs where "phi = c # cs" using assms(2) by (cases phi) auto
  then show ?thesis
    using phi len that[of "(0 - peval (0 # cs) root) # cs" r]
    by (simp add: make_random_polynomial_with_root_def dm.evaluate)
qed

text \<open>An update transcript that verifies holds the blinded evaluations of one polynomial.\<close>

lemma update_verify_dlog:
  "share_update_verify E \<lparr> su_update = Q, su_commitment = g1_mul E (g1_generator E) y \<rparr> pk = Ok True \<longleftrightarrow>
     Q = g2_mul E (encryption_key pk) y"
  by (auto simp: outcome_simps pair_shift pair_left_cancel)

lemma verify_recovery_iff:
  assumes "length (ut_coeffs ut) \<le> length (dom_elements A (domain d))"
  shows "verify_recovery E A ut keys (domain d) root = Ok True \<longleftrightarrow>
    (\<exists>cs. ut_coeffs ut = map (g1_mul E (g1_generator E)) cs \<and> cs \<noteq> [] \<and> peval cs root = 0 \<and>
      list_all (\<lambda>(i, u). unat i < length (dom_elements A (domain d)) \<and> (\<exists>pk. map_of keys i = Some pk \<and>
        u = \<lparr> su_update = g2_mul E (encryption_key pk) (peval cs (dom_elements A (domain d) ! unat i)),
          su_commitment = g1_mul E (g1_generator E) (peval cs (dom_elements A (domain d) ! unat i)) \<rparr>))
        (ut_updates ut))" (is "_ \<longleftrightarrow> (\<exists>cs. ?P cs)")
proof -
  obtain cs where cs: "ut_coeffs ut = map (g1_mul E (g1_generator E)) cs" by (rule g1.dlog_listE)
  have uniq: "(\<exists>cs. ?P cs) \<longleftrightarrow> ?P cs" using cs by auto
  have fft: "dom_fft A (domain d) (ut_coeffs ut) =
      map (\<lambda>x. g1_mul E (g1_generator E) (peval cs x)) (dom_elements A (domain d))"
    using assms dm.fft_eval[OF dom] by (simp add: cs g1.gpeval_map_mul)
  have slot: "((\<exists>pk. map_of keys i = Some pk \<and> share_update_verify E u pk = Ok True) \<and>
       unat i < length (dom_fft A (domain d) (ut_coeffs ut)) \<and>
       dom_fft A (domain d) (ut_coeffs ut) ! unat i = su_commitment u) \<longleftrightarrow>
     (unat i < length (dom_elements A (domain d)) \<and> (\<exists>pk. map_of keys i = Some pk \<and>
        u = \<lparr> su_update = g2_mul E (encryption_key pk) (peval cs (dom_elements A (domain d) ! unat i)),
          su_commitment = g1_mul E (g1_generator E) (peval cs (dom_elements A (domain d) ! unat i)) \<rparr>))"
    for i :: u32 and u :: "('g1, 'g2) share_update"
    unfolding fft using update_verify_dlog by (cases u) auto
  have "gpeval (g1_mul E) (ut_coeffs ut) root = g1_mul E (g1_generator E) (peval cs root)"
    by (simp add: cs g1.gpeval_map_mul)
  then show ?thesis
    unfolding uniq verify_recovery_Ok verify_updates_Ok slot using cs by auto
qed

lemma session_keys_lookup:
  assumes "session_keys d keys" "i < length (validators d)"
  shows "map_of keys (of_nat i) = Some (v_public_key (snd (validators d ! i)))"
  using assms by (auto simp: session_keys_def map_of_eq_Some_iff)

lemma session_keys_sorted:
  assumes "session_keys d keys"
  shows "sort (map fst keys) = map of_nat [0..<length (validators d)]"
proof (rule sorted_distinct_set_unique)
  have n: "length (validators d) \<le> 2 ^ 32" using wf by (simp add: dkg_wf_def)
  then have "sorted_wrt (\<lambda>i j. (of_nat i :: u32) \<le> of_nat j) [0..<length (validators d)]"
    by (intro sorted_wrt_mono_rel[OF _ sorted_wrt_upt])
      (auto simp: word_le_nat_alt unat_of_nat_u32)
  then show "sorted (map (of_nat :: nat \<Rightarrow> u32) [0..<length (validators d)])"
    by (simp add: sorted_wrt_map)
  show "distinct (map (of_nat :: nat \<Rightarrow> u32) [0..<length (validators d)])"
    using dkg_wf_distinct[OF wf] wf by (simp add: dkg_wf_def)
  show "set (sort (map fst keys)) = set (map of_nat [0..<length (validators d)])"
    using assms by (force simp: session_keys_def)
qed (use assms in \<open>simp_all add: session_keys_def\<close>)

text \<open>What a verified update transcript gives the validator of slot \<open>i\<close>.\<close>

lemma verified_update:
  assumes "session_keys d keys" "verify_refresh E A ut keys (domain d) = Ok True"
    and "length (ut_coeffs ut) \<le> length (dom_elements A (domain d))"
    and "set (map of_nat [0..<length (validators d)]) \<subseteq> fst ` set (ut_updates ut)"
  shows "\<exists>ds. deals_update E A d (length (ut_coeffs ut)) ut ds"
proof -
  obtain ds where ds: "ut_coeffs ut = map (g1_mul E (g1_generator E)) ds" "peval ds 0 = 0"
    and upd: "list_all (\<lambda>(i, u). unat i < length (dom_elements A (domain d)) \<and> (\<exists>pk. map_of keys i = Some pk \<and>
        u = \<lparr> su_update = g2_mul E (encryption_key pk) (peval ds (dom_elements A (domain d) ! unat i)),
          su_commitment = g1_mul E (g1_generator E) (peval ds (dom_elements A (domain d) ! unat i)) \<rparr>))
        (ut_updates ut)"
    using assms(2) verify_recovery_iff[OF assms(3)] by (auto simp: verify_refresh_def)
  have "\<exists>u. map_of (ut_updates ut) (of_nat i) = Some u \<and>
      su_update u = g2_mul E (encryption_key (v_public_key (snd (validators d ! i)))) (peval ds (domain_points A d ! i)) \<and>
      share_update_verify E u (v_public_key (snd (validators d ! i))) = Ok True"
    if i: "i < length (validators d)" for i
  proof -
    have "i < 2 ^ 32" using i wf by (simp add: dkg_wf_def)
    then have ui: "unat (of_nat i :: u32) = i" by (rule unat_of_nat_u32)
    have "of_nat i \<in> fst ` set (ut_updates ut)" using assms(4) i by auto
    then obtain u where u: "map_of (ut_updates ut) (of_nat i) = Some u"
      by (metis image_iff map_of_eq_None_iff not_None_eq)
    then have "(of_nat i, u) \<in> set (ut_updates ut)" by (rule map_of_SomeD)
    then have "u = \<lparr> su_update = g2_mul E (encryption_key (v_public_key (snd (validators d ! i)))) (peval ds (domain_points A d ! i)),
          su_commitment = g1_mul E (g1_generator E) (peval ds (domain_points A d ! i)) \<rparr>"
      using upd session_keys_lookup[OF assms(1) i] i ui by (auto simp: list_all_iff nth_domain_points)
    with u update_verify_dlog show ?thesis by auto
  qed
  with ds show ?thesis by (intro exI[of _ ds]) (auto simp: deals_update_def)
qed

lemma applied_updates:
  assumes "list_all2 (\<lambda>(_, ut). deals_update E A d k ut) uts dss" "i < length (validators d)"
  shows "apply_share_updates E (UpdatableBlindedKeyShare \<lparr> bks_validator_public_key =
        encryption_key (v_public_key (snd (validators d ! i))), bks_blinded_key_share = Y \<rparr>) uts (of_nat i) =
    Ok (UpdatableBlindedKeyShare \<lparr> bks_validator_public_key =
        encryption_key (v_public_key (snd (validators d ! i))),
      bks_blinded_key_share = Y + g2_mul E (encryption_key (v_public_key (snd (validators d ! i))))
        (sum_list (map (\<lambda>ds. peval ds (domain_points A d ! i)) dss)) \<rparr>)"
proof -
  let ?pk = "v_public_key (snd (validators d ! i))"
  have "sum_list (map (\<lambda>(_, ut). su_update (the (map_of (ut_updates ut) (of_nat i)))) uts) =
      g2_mul E (encryption_key ?pk) (sum_list (map (\<lambda>ds. peval ds (domain_points A d ! i)) dss)) \<and>
      list_all (\<lambda>(_, ut). \<exists>u. map_of (ut_updates ut) (of_nat i) = Some u \<and>
        share_update_verify E u ?pk = Ok True) uts"
    using assms(1)
  proof (induction rule: list_all2_induct)
    case (Cons x uts ds dss)
    from Cons.hyps(1) obtain u where "map_of (ut_updates (snd x)) (of_nat i) = Some u"
      "su_update u = g2_mul E (encryption_key ?pk) (peval ds (domain_points A d ! i))"
      "share_update_verify E u ?pk = Ok True"
      using assms(2) unfolding deals_update_def by (cases x) auto
    with Cons.IH show ?case by (simp add: g2.mul_simps case_prod_unfold)
  qed simp
  moreover have surj: "\<lparr> encryption_key = encryption_key pk \<rparr> = pk" for pk :: "'g2 public_key"
    by (cases pk) simp
  ultimately show ?thesis
    using apply_share_updates_Ok[of "of_nat i" E "UpdatableBlindedKeyShare
        \<lparr> bks_validator_public_key = encryption_key ?pk, bks_blinded_key_share = Y \<rparr>" uts]
    by (simp add: surj)
qed

lemma verified_updates:
  assumes "session_keys d keys" "k \<le> length (dom_elements A (domain d))"
    and "list_all (\<lambda>(_, ut). verify_refresh E A ut keys (domain d) = Ok True \<and> length (ut_coeffs ut) = k \<and>
      set (map of_nat [0..<length (validators d)]) \<subseteq> fst ` set (ut_updates ut)) uts"
  obtains dss where "list_all2 (\<lambda>(_, ut). deals_update E A d k ut) uts dss"
    "list_all (\<lambda>ds. length ds = k) dss" "sum_list (map (\<lambda>ds. peval ds 0) dss) = 0"
proof -
  have "\<exists>ds. (case x of (_, ut) \<Rightarrow> deals_update E A d k ut) ds" if "x \<in> set uts" for x
  proof (cases x)
    case (Pair j ut)
    then have "verify_refresh E A ut keys (domain d) = Ok True" "length (ut_coeffs ut) = k"
      "set (map of_nat [0..<length (validators d)]) \<subseteq> fst ` set (ut_updates ut)"
      using assms(3) that by (simp_all only: list_all_iff) (drule (1) bspec, simp)+
    then show ?thesis
      using verified_update[OF assms(1), of ut] assms(2) unfolding Pair prod.case by simp
  qed
  then have "list_all (\<lambda>x. \<exists>ds. (case x of (_, ut) \<Rightarrow> deals_update E A d k ut) ds) uts"
    by (simp add: list_all_iff)
  then obtain dss where dss: "list_all2 (\<lambda>(_, ut). deals_update E A d k ut) uts dss"
    using list_all_choice by blast
  then have "list_all (\<lambda>ds. length ds = k) dss \<and> sum_list (map (\<lambda>ds. peval ds 0) dss) = 0"
    by (induction rule: list_all2_induct) (auto simp: deals_update_def)
  with dss show ?thesis using that by blast
qed

lemma refresh_sum:
  assumes "session_keys d keys" "shares p = dealt_shares E A d cs"
    and "length cs \<le> length (dom_elements A (domain d))"
    and "list_all (\<lambda>(_, ut). verify_refresh E A ut keys (domain d) = Ok True \<and> length (ut_coeffs ut) = length cs \<and>
      set (map of_nat [0..<length (validators d)]) \<subseteq> fst ` set (ut_updates ut)) uts"
  obtains dss where "list_all2 (\<lambda>(_, ut). deals_update E A d (length cs) ut) uts dss"
    "list_all (\<lambda>ds. length ds = length cs) dss" "peval (sum_polys cs dss) 0 = peval cs 0"
    "refresh E A p uts keys =
      Ok \<lparr> coeffs = coeffs p, shares = dealt_shares E A d (sum_polys cs dss), sigma = sigma p \<rparr>"
proof -
  let ?n = "length (validators d)"
  obtain dss where dss: "list_all2 (\<lambda>(_, ut). deals_update E A d (length cs) ut) uts dss"
    and len: "list_all (\<lambda>ds. length ds = length cs) dss"
    and zero: "sum_list (map (\<lambda>ds. peval ds 0) dss) = 0"
    using assms(1,3,4) by (rule verified_updates)
  let ?cs' = "sum_polys cs dss"
  have share: "and_then (unwrap (ok_or (map_of keys (of_nat i)) (InvalidShareIndex (of_nat i)))) (\<lambda>pubkey.
      and_then (unwrap (get_share_for_index_and_pubkey p (of_nat i) pubkey)) (\<lambda>blinded.
      and_then (apply_share_updates E (UpdatableBlindedKeyShare blinded) uts (of_nat i))
        (\<lambda>u. Ok (bks_blinded_key_share (inner_share u))))) = (Ok (dealt_shares E A d ?cs' ! i) :: 'g2 result)"
    if i: "i < ?n" for i
  proof -
    have "unat (of_nat i :: u32) = i" using i wf by (intro unat_of_nat_u32) (simp add: dkg_wf_def)
    then show ?thesis
      using i peval_sum_polys[OF len] applied_updates[OF dss i]
      by (simp add: session_keys_lookup[OF assms(1) i] get_share_for_index_and_pubkey_def assms(2)
          slice_get_def nth_dealt_shares g2.mul_simps)
  qed
  have "try_map (\<lambda>index. and_then (unwrap (ok_or (map_of keys index) (InvalidShareIndex index))) (\<lambda>pubkey.
      and_then (unwrap (get_share_for_index_and_pubkey p index pubkey)) (\<lambda>blinded.
      and_then (apply_share_updates E (UpdatableBlindedKeyShare blinded) uts index)
        (\<lambda>u. Ok (bks_blinded_key_share (inner_share u)))))) (map of_nat [0..<?n]) =
      (Ok (map (\<lambda>i. dealt_shares E A d ?cs' ! i) [0..<?n]) :: 'g2 list result)"
    unfolding try_map_map by (rule try_map_Ok_map, rule share) simp
  moreover have "map (\<lambda>i. dealt_shares E A d ?cs' ! i) [0..<?n] = dealt_shares E A d ?cs'"
    by (rule nth_equalityI) simp_all
  moreover have "try_map (\<lambda>(_, ut). unwrap (verify_refresh E A ut keys (domain d))) uts =
      (Ok (map (\<lambda>_. True) uts) :: bool list result)"
    using assms(4) by (intro try_map_Ok_map) (auto simp: list_all_iff)
  ultimately have "refresh E A p uts keys =
      Ok \<lparr> coeffs = coeffs p, shares = dealt_shares E A d ?cs', sigma = sigma p \<rparr>"
    by (simp add: refresh_def assms(2) dom session_keys_sorted[OF assms(1)])
  with dss len show ?thesis using that zero peval_sum_polys[OF len, of 0] by simp
qed

lemma refresh_dealt:
  assumes "session_keys d keys" "shares p = dealt_shares E A d cs"
    and "length cs \<le> length (dom_elements A (domain d))"
    and "list_all (\<lambda>(_, ut). verify_refresh E A ut keys (domain d) = Ok True \<and> length (ut_coeffs ut) = length cs \<and>
      set (map of_nat [0..<length (validators d)]) \<subseteq> fst ` set (ut_updates ut)) uts"
  shows "\<exists>cs'. length cs' = length cs \<and> peval cs' 0 = peval cs 0 \<and>
    refresh E A p uts keys = Ok \<lparr> coeffs = coeffs p, shares = dealt_shares E A d cs', sigma = sigma p \<rparr>"
  using assms by (rule refresh_sum) (metis length_sum_polys)

end

end
