(* ===== verification/Mobility.thy ===== *)
theory Mobility
  imports Refresh
begin

text \<open>
  Properties of share refresh and handover: update transcripts commit to polynomials with the
  required root, refreshing keeps the shared secret and moves every share, the gaps the sources
  document are real, and a handover re-blinds a share for the incoming validator.
\<close>

section \<open>Supporting facts\<close>

context session begin

lemma refresh_transcript_generated:
  assumes "rand_laws R"
  obtains cs m ut rng' where "generate_refresh_transcript E A R d rng = (Ok ut, rng')"
    "domain_and_key_map A d = Ok m" "distinct (map fst m)"
    "set m = {(of_nat i, (domain_points A d ! i, v_public_key (snd (validators d ! i)))) | i.
       i < length (validators d)}"
    "length cs = unat (security_threshold (params d))" "peval cs 0 = 0"
    "ut_coeffs ut = map (g1_mul E (g1_generator E)) cs"
    "set (ut_updates ut) = (\<lambda>(i, (x, pk)). (i, \<lparr> su_update = g2_mul E (encryption_key pk) (peval cs x),
       su_commitment = g1_mul E (g1_generator E) (peval cs x) \<rparr>)) ` set m"
proof -
  let ?t = "security_threshold (params d)"
  obtain m where m: "domain_and_key_map A d = Ok m" "distinct (map fst m)"
    "set m = {(of_nat i, (domain_points A d ! i, v_public_key (snd (validators d ! i)))) | i.
       i < length (validators d)}"
    using domain_and_key_map_entries by blast
  obtain cs r where cs: "make_random_polynomial_with_root A R (?t - 1) 0 rng = (Ok cs, r)"
    "length cs = unat ?t" "peval cs 0 = 0"
    using assms threshold_pos by (rule random_polynomial_root)
  let ?e = "\<lambda>(i :: u32, (x, pk)). (i, \<lparr> su_update = g2_mul E (encryption_key pk) (peval cs x),
       su_commitment = g1_mul E (g1_generator E) (peval cs x) \<rparr>)"
  have "map fst (map ?e m) = map fst m" by (auto simp: case_prod_unfold)
  then have "set (hm_collect (map ?e m)) = ?e ` set m"
    using hash_map.collect_set[of "map ?e m"] m(2) by (simp only: set_map)
  moreover have "generate_refresh_transcript E A R d rng =
      (Ok \<lparr> ut_coeffs = map (g1_mul E (g1_generator E)) cs, ut_updates = hm_collect (map ?e m) \<rparr>, r)"
    using m(1) cs(1) by (simp add: generate_refresh_transcript_def create_refresh_updates_def
        prepare_share_updates_with_root_def fast_multiexp_eq dm.evaluate Let_def)
  ultimately show ?thesis using that m cs(2,3) by force
qed

lemma handover_validate_iff:
  assumes "commitment_to_g1 ho = g1_mul E (g1_generator E) c"
  shows "handover_validate E ho (ShareCommitment (g1_mul E (g1_generator E) y)) = Ok True \<longleftrightarrow>
    g2_mul E (double_blind_share ho) c = g2_mul E (commitment_to_share ho) y \<and>
    commitment_to_g2 ho = g2_mul E (g2_generator E) c"
  by (auto simp: handover_validate_def Let_def multi_pairing_two pair_product_one assms pair_shift
      pair_left_cancel)

lemma finalize_handover_branch:
  assumes "coeffs p = map (g1_mul E (g1_generator E)) cs" "length cs \<le> length (dom_elements A (domain d))"
    and "length (shares p) = length (validators d)" "unat (ho_share_index ho) < length (validators d)"
    and "outgoing_pubkey ho = keypair_public_key E kp" "decryption_key kp \<noteq> 0"
    and "handover_validate E ho (ShareCommitment (g1_mul E (g1_generator E)
      (peval cs (domain_points A d ! unat (ho_share_index ho))))) = Ok True"
  shows "finalize_handover E A p ho kp = Ok \<lparr> coeffs = coeffs p,
    shares = (shares p)[unat (ho_share_index ho) :=
      g2_mul E (double_blind_share ho) (inverse (decryption_key kp))], sigma = sigma p \<rparr>"
proof -
  let ?i = "unat (ho_share_index ho)"
  have i: "?i < length (dom_elements A (domain d))"
    using assms(4) dm.dom_size[OF dom] by simp
  have fft: "dom_fft A (domain d) (coeffs p) =
      map (\<lambda>x. g1_mul E (g1_generator E) (peval cs x)) (dom_elements A (domain d))"
    using assms(2) dm.fft_eval[OF dom] by (simp add: assms(1) g1.gpeval_map_mul)
  let ?new = "(shares p)[?i := g2_mul E (double_blind_share ho) (inverse (decryption_key kp))]"
  obtain b where "verify_validator_share E (dom_fft A (domain d) (coeffs p)) ?new ?i (incoming_pubkey ho) = Ok b"
    using i assms(3,4) by (auto simp: verify_validator_share_Ok fft)
  then show ?thesis
    using assms(2-7) i by (simp add: finalize_handover_def get_share_commitments_from_poly_commitments_def
        fft dom slice_get_def nth_domain_points handover_finalize_def ff_inverse_def Let_def)
qed

lemma determined_by_shares:
  assumes "dealt_shares E A d cs = dealt_shares E A d cs'" "length cs = length cs'"
    and "length cs \<le> length (validators d)"
  shows "cs = cs'"
proof (rule peval_unique[OF assms(2) distinct_domain_points])
  show "length cs \<le> length (domain_points A d)" using assms(3) by simp
  fix x assume "x \<in> set (domain_points A d)"
  then obtain i where i: "i < length (validators d)" "x = domain_points A d ! i"
    by (auto simp: in_set_conv_nth)
  have "dealt_shares E A d cs ! i = dealt_shares E A d cs' ! i" by (simp add: assms(1))
  then show "peval cs x = peval cs' x"
    using i dkg_wf_nth(4)[OF wf i(1)] by (simp add: nth_dealt_shares g2.mul_left_cancel)
qed

end

section \<open>Properties\<close>

text \<open>
  C26: an update transcript verifies for a root if and only if it commits to a nonempty polynomial
  that vanishes at the root, and every update it carries is for a known key and is that
  polynomial's evaluation at the slot's domain point, committed and blinded.  The number of
  commitments is not compared with the threshold.
\<close>

theorem verify_recovery_iff_root:
  assumes "session E A d" "length (ut_coeffs ut) \<le> length (dom_elements A (domain d))"
  shows "verify_recovery E A ut keys (domain d) root = Ok True \<longleftrightarrow>
    (\<exists>cs. ut_coeffs ut = map (g1_mul E (g1_generator E)) cs \<and> cs \<noteq> [] \<and> peval cs root = 0 \<and>
      list_all (\<lambda>(i, u). unat i < length (dom_elements A (domain d)) \<and> (\<exists>pk. map_of keys i = Some pk \<and>
        u = \<lparr> su_update = g2_mul E (encryption_key pk) (peval cs (dom_elements A (domain d) ! unat i)),
          su_commitment = g1_mul E (g1_generator E) (peval cs (dom_elements A (domain d) ! unat i)) \<rparr>))
        (ut_updates ut))"
  by (rule session.verify_recovery_iff[OF assms])

definition sample_update :: "(f17, f17) update_transcript" where
  "sample_update = (case fst (generate_refresh_transcript E17 A17 R17 sample_dkg 0) of Ok ut \<Rightarrow> ut)"

definition sample_key_map :: "(u32, f17 public_key) hash_map" where
  "sample_key_map = map (\<lambda>i. (of_nat i, v_public_key (sample_validator i))) [2, 0, 1, 3]"

lemma sample_update_ok:
  "verify_refresh E17 A17 sample_update sample_key_map (domain sample_dkg) = Ok True"
  "length (ut_coeffs sample_update) = 3"
  "length (ut_coeffs sample_update) \<le> length (dom_elements A17 (domain sample_dkg))"
  by code_simp+

theorem verify_recovery_iff_root_witness:
  "\<exists>cs. ut_coeffs sample_update = map (g1_mul E17 (g1_generator E17)) cs \<and> cs \<noteq> [] \<and> peval cs 0 = 0 \<and>
      list_all (\<lambda>(i, u). unat i < length (dom_elements A17 (domain sample_dkg)) \<and> (\<exists>pk. map_of sample_key_map i = Some pk \<and>
        u = \<lparr> su_update = g2_mul E17 (encryption_key pk) (peval cs (dom_elements A17 (domain sample_dkg) ! unat i)),
          su_commitment = g1_mul E17 (g1_generator E17) (peval cs (dom_elements A17 (domain sample_dkg) ! unat i)) \<rparr>))
        (ut_updates sample_update)"
  using verify_recovery_iff_root[OF session17.session_axioms sample_update_ok(3), of sample_key_map 0]
    sample_update_ok(1) unfolding verify_refresh_def by blast

text \<open>
  The refresh transcript that a context generates commits to a polynomial of \<open>threshold\<close>
  coefficients with root zero, carries an update for every validator, and verifies against the
  keys of the session.
\<close>

lemma generated_refresh_verifies:
  assumes "session E A d" "rand_laws R" "session_keys d keys"
    and "unat (security_threshold (params d)) \<le> length (dom_elements A (domain d))"
  shows "\<exists>ut rng'. generate_refresh_transcript E A R d rng = (Ok ut, rng') \<and>
    verify_refresh E A ut keys (domain d) = Ok True \<and>
    length (ut_coeffs ut) = unat (security_threshold (params d)) \<and>
    fst ` set (ut_updates ut) = set (map of_nat [0..<length (validators d)])"
  using assms(1,2)
proof (rule session.refresh_transcript_generated)
  fix cs m ut rng'
  assume gen: "generate_refresh_transcript E A R d rng = (Ok ut, rng')"
    and m: "set m = {(of_nat i, (domain_points A d ! i, v_public_key (snd (validators d ! i)))) | i.
       i < length (validators d)}"
    and cs: "length cs = unat (security_threshold (params d))" "peval cs 0 = 0"
      "ut_coeffs ut = map (g1_mul E (g1_generator E)) cs"
    and upd: "set (ut_updates ut) = (\<lambda>(i, (x, pk)). (i, \<lparr> su_update = g2_mul E (encryption_key pk) (peval cs x),
       su_commitment = g1_mul E (g1_generator E) (peval cs x) \<rparr>)) ` set m"
  have entry: "\<exists>i<length (validators d). x = (of_nat i, \<lparr>
      su_update = g2_mul E (encryption_key (v_public_key (snd (validators d ! i)))) (peval cs (domain_points A d ! i)),
      su_commitment = g1_mul E (g1_generator E) (peval cs (domain_points A d ! i)) \<rparr>)"
    if "x \<in> set (ut_updates ut)" for x
    using that unfolding upd m by auto
  have n: "unat (of_nat i :: u32) = i" "i < length (dom_elements A (domain d))"
      "domain_points A d ! i = dom_elements A (domain d) ! i"
      "map_of keys (of_nat i) = Some (v_public_key (snd (validators d ! i)))"
    if "i < length (validators d)" for i
    using that session.wf[OF assms(1)] session.length_domain_points[OF assms(1)]
      session.nth_domain_points[OF assms(1) that] session.session_keys_lookup[OF assms(1,3) that]
    by (auto simp: dkg_wf_def unat_of_nat_u32 domain_points_def)
  have "cs \<noteq> []" using cs(1) session.threshold_pos[OF assms(1)] by auto
  moreover have "list_all (\<lambda>(i, u). unat i < length (dom_elements A (domain d)) \<and> (\<exists>pk. map_of keys i = Some pk \<and>
        u = \<lparr> su_update = g2_mul E (encryption_key pk) (peval cs (dom_elements A (domain d) ! unat i)),
          su_commitment = g1_mul E (g1_generator E) (peval cs (dom_elements A (domain d) ! unat i)) \<rparr>))
        (ut_updates ut)"
    using n by (auto simp: list_all_iff dest!: entry)
  ultimately have "verify_refresh E A ut keys (domain d) = Ok True"
    unfolding verify_refresh_def using cs assms(4)
    by (subst session.verify_recovery_iff[OF assms(1)]) auto
  moreover have "fst ` set (ut_updates ut) = set (map of_nat [0..<length (validators d)])"
    unfolding upd m by (force simp: image_iff)
  ultimately show ?thesis using gen cs by auto
qed

lemma session_keys_list:
  "distinct (map fst keys) \<and> set keys =
     set (map (\<lambda>i. (of_nat i, v_public_key (snd (validators d ! i)))) [0..<length (validators d)]) \<Longrightarrow> session_keys d keys"
  by (auto simp: session_keys_def)

lemma sample_session_keys: "session_keys sample_dkg sample_key_map"
  by (rule session_keys_list) code_simp

text \<open>
  Refreshing keeps the secret.  If every update transcript verifies, has as many commitments
  as the dealt polynomial and covers every validator, the refreshed shares are those of another
  polynomial of the same size with the same constant term, so every threshold of validators still
  decrypts under the old public key.
\<close>

lemma refresh_preserves_secret:
  assumes "session E A d" "session_keys d keys" "shares p = dealt_shares E A d cs"
    and "length cs \<le> length (dom_elements A (domain d))"
    and "list_all (\<lambda>(_, ut). verify_refresh E A ut keys (domain d) = Ok True \<and> length (ut_coeffs ut) = length cs \<and>
      set (map of_nat [0..<length (validators d)]) \<subseteq> fst ` set (ut_updates ut)) uts"
  shows "\<exists>cs'. length cs' = length cs \<and> peval cs' 0 = peval cs 0 \<and>
    refresh E A p uts keys = Ok \<lparr> coeffs = coeffs p, shares = dealt_shares E A d cs', sigma = sigma p \<rparr>"
  by (rule session.refresh_dealt[OF assms])

text \<open>
  The commitments are not refreshed with the shares: when there are at least as many validators
  as coefficients, the refreshed transcript passes full verification only if the update polynomials
  summed to zero, that is if no share changed.
\<close>

lemma refreshed_aggregate_verifies_iff_unchanged:
  assumes "session E A d"
    and "unat (security_threshold (params d)) \<le> length (validators d)"
    and "coeffs p = map (g1_mul E (g1_generator E)) cs"
    and "length cs = unat (security_threshold (params d))" "hd cs \<noteq> 0" "last cs \<noteq> 0"
    and "length cs' = length cs"
  shows "verify_full E A \<lparr> coeffs = coeffs p, shares = dealt_shares E A d cs', sigma = sigma p \<rparr> d = Ok True
    \<longleftrightarrow> cs' = cs"
proof -
  have E: "pairing_laws E" using assms(1) by (simp add: session_def)
  then have c: "cyclic_action (g1_mul E) (g1_generator E)" by (simp add: pairing_laws_def)
  have "unat (security_threshold (params d)) \<le> length (dom_elements A (domain d))"
    using assms(2) session.length_domain_points[OF assms(1)] by (auto simp: domain_points_def)
  note iff = session.verify_full_iff[OF assms(1) this]
  have len: "length (dealt_shares E A d cs') = length (validators d)"
    by (rule session.length_dealt_shares[OF assms(1)])
  show ?thesis
    unfolding iff using assms(3-7) len session.determined_by_shares[OF assms(1), of cs' cs] assms(2)
    by (auto simp: cyclic_action.gen_map_inj[OF c])
qed

text \<open>
  An update transcript that does not verify makes \<open>refresh\<close> panic; no error value reports it.
\<close>

lemma refresh_panics_on_invalid_update:
  assumes "(i, ut) \<in> set uts" "dom_new A (length (shares p)) = Some dm"
    and "verify_refresh E A ut keys dm \<noteq> Ok True"
  shows "refresh E A p uts keys = Panic"
proof -
  have ne: "verify_refresh E A ut keys dm \<noteq> Ok b" for b
    using assms(3) by (cases b) (auto simp: verify_refresh_def verify_recovery_def Let_def outcome_simps split: list.splits)
  have "try_map (\<lambda>(_, ut). unwrap (verify_refresh E A ut keys dm)) uts = (Panic :: bool list result)"
    using assms(1)
  proof (induction uts)
    case (Cons x uts)
    then show ?case
      using ne by (cases "case x of (_, ut) \<Rightarrow> verify_refresh E A ut keys dm") (auto split: prod.splits)
  qed simp
  then show ?thesis by (simp add: refresh_def assms(2))
qed

section \<open>Handover\<close>

context session begin

lemma handover_generated:
  assumes "shares (aggregate_pvss agg) = dealt_shares E A d cs" "unat i < length (validators d)"
    and "keypair_public_key E kp = v_public_key (snd (validators d ! unat i))"
  obtains c ho rng' where "generate_handover_transcript E R d agg i incoming rng = (Ok ho, rng')"
    "ho_share_index ho = i" "outgoing_pubkey ho = keypair_public_key E kp"
    "incoming_pubkey ho = keypair_public_key E incoming"
    "double_blind_share ho = g2_mul E (g2_generator E)
       (peval cs (domain_points A d ! unat i) * decryption_key kp * decryption_key incoming)"
    "commitment_to_share ho = g2_mul E (g2_generator E) (decryption_key kp * (decryption_key incoming * c))"
    "commitment_to_g1 ho = g1_mul E (g1_generator E) c" "commitment_to_g2 ho = g2_mul E (g2_generator E) c"
    "c = fst (scalar_rand R rng)"
proof -
  obtain c r where c: "scalar_rand R rng = (c, r)" by fastforce
  have n: "unat (v_share_index (snd (validators d ! unat i))) = unat i"
    by (rule dkg_wf_nth(3)[OF wf assms(2)])
  then have "get_share_for_validator (aggregate_pvss agg) (snd (validators d ! unat i)) =
      Ok \<lparr> bks_validator_public_key = encryption_key (v_public_key (snd (validators d ! unat i))),
        bks_blinded_key_share = dealt_shares E A d cs ! unat i \<rparr>"
    using assms(1,2) by (simp add: get_share_for_validator_def get_share_for_index_and_pubkey_def slice_get_def)
  moreover have "v_public_key (snd (validators d ! unat i)) = keypair_public_key E kp" using assms(3) ..
  ultimately have gen: "generate_handover_transcript E R d agg i incoming rng =
      (Ok \<lparr> ho_share_index = i, double_blind_share = g2_mul E (g2_generator E)
          (peval cs (domain_points A d ! unat i) * decryption_key kp * decryption_key incoming),
        commitment_to_share = g2_mul E (g2_generator E) (decryption_key kp * (decryption_key incoming * c)),
        commitment_to_g1 = g1_mul E (g1_generator E) c, commitment_to_g2 = g2_mul E (g2_generator E) c,
        incoming_pubkey = keypair_public_key E incoming, outgoing_pubkey = keypair_public_key E kp \<rparr>, r)"
    using c assms(2) validator_key(2)[OF assms(2,3), of cs]
    by (simp add: generate_handover_transcript_def dkg_wf_lookup[OF wf] handover_new_def Let_def
        keypair_public_key_def g2.mul_mul)
  show ?thesis by (rule that[OF gen, of c]) (simp_all add: c)
qed

lemma handover_validates:
  assumes "commitment_to_g1 ho = g1_mul E (g1_generator E) c" "commitment_to_g2 ho = g2_mul E (g2_generator E) c"
    and "double_blind_share ho = g2_mul E (g2_generator E) (y * b * b')"
    and "commitment_to_share ho = g2_mul E (g2_generator E) (b * (b' * c))"
  shows "handover_validate E ho (ShareCommitment (g1_mul E (g1_generator E) y)) = Ok True"
  unfolding handover_validate_iff[OF assms(1)] assms(2-4) by (simp add: g2.mul_mul ac_simps)

end

text \<open>
  Finalizing a handover does not act on its last check.  Whenever the baton validates and names
  the departing key, the re-blinded share is installed, whether or not it is valid for the incoming
  key; it is valid only when the baton's double-blinded share is the incoming key's.
\<close>

lemma finalize_handover_ignores_share_check:
  assumes "session E A d"
    and "coeffs p = map (g1_mul E (g1_generator E)) cs" "length cs \<le> length (dom_elements A (domain d))"
    and "length (shares p) = length (validators d)" "unat (ho_share_index ho) < length (validators d)"
    and "outgoing_pubkey ho = keypair_public_key E kp" "decryption_key kp \<noteq> 0"
    and "handover_validate E ho (ShareCommitment (g1_mul E (g1_generator E)
      (peval cs (domain_points A d ! unat (ho_share_index ho))))) = Ok True"
  shows "\<exists>p'. finalize_handover E A p ho kp = Ok p' \<and>
    verify_validator_share E (get_share_commitments_from_poly_commitments A (coeffs p) (domain d)) (shares p')
      (unat (ho_share_index ho)) (incoming_pubkey ho) =
    Ok (g2_mul E (double_blind_share ho) (inverse (decryption_key kp)) =
      g2_mul E (encryption_key (incoming_pubkey ho)) (peval cs (domain_points A d ! unat (ho_share_index ho))))"
proof -
  have E: "pairing_laws E" and dm: "domain_laws (g1_mul E) A"
    using assms(1) by (simp_all add: session_def)
  have c: "cyclic_action (g1_mul E) (g1_generator E)" and act: "scalar_action (g1_mul E)"
    using E by (simp_all add: pairing_laws_def cyclic_action_def)
  let ?i = "unat (ho_share_index ho)"
  have i: "?i < length (dom_elements A (domain d))"
    using assms(5) domain_laws.dom_size[OF dm session.dom[OF assms(1)]] by simp
  have fft: "dom_fft A (domain d) (coeffs p) =
      map (\<lambda>x. g1_mul E (g1_generator E) (peval cs x)) (dom_elements A (domain d))"
    using assms(3) domain_laws.fft_eval[OF dm session.dom[OF assms(1)], of "coeffs p"]
    by (simp add: assms(2) scalar_action.gpeval_map_mul[OF act])
  show ?thesis
    using session.finalize_handover_branch[OF assms] i assms(4,5)
      session.nth_domain_points[OF assms(1,5)] pairing_laws.pair_shift[OF E]
      pairing_laws.pair_left_cancel[OF E cyclic_action.gen_nonzero[OF c]]
    by (simp add: verify_validator_share_Ok get_share_commitments_from_poly_commitments_def fft)
qed

end
