(* ===== verification/Api.thy ===== *)
theory Api
  imports Mobility
begin

text \<open>
  \<open>ferveo/src/api.rs\<close>: the interface that applications and the language bindings call.  Its
  single-field wrappers (\<open>Ciphertext\<close>, \<open>CiphertextHeader\<close>, \<open>DkgPublicKey\<close>, \<open>Dkg\<close>,
  \<open>AggregatedTranscript\<close>, \<open>HandoverTranscript\<close>, \<open>SharedSecret\<close>) are the values they wrap.  The sources
  fix the curve to BLS12-381 here; the model stays parametric in it.
\<close>

section \<open>Encodings and variants\<close>

definition api_to_bytes :: "'p codec \<Rightarrow> 'p \<Rightarrow> bytes result" where
  "api_to_bytes K item = ok_or (serialize_compressed K item) error.ArkSerializeError"

definition api_from_bytes :: "'p codec \<Rightarrow> bytes \<Rightarrow> 'p result" where
  "api_from_bytes K bytes = ok_or (deserialize_compressed K bytes) error.ArkSerializeError"

datatype ferveo_variant = Simple | Precomputed

definition variant_as_str :: "ferveo_variant \<Rightarrow> string" where
  "variant_as_str self = (case self of
     Simple \<Rightarrow> ''FerveoVariant::Simple'' | Precomputed \<Rightarrow> ''FerveoVariant::Precomputed'')"

definition variant_fmt :: "ferveo_variant \<Rightarrow> string" where
  "variant_fmt self = variant_as_str self"

definition variant_from_string :: "string \<Rightarrow> ferveo_variant result" where
  "variant_from_string s =
     (if s = ''FerveoVariant::Simple'' then Ok Simple
      else if s = ''FerveoVariant::Precomputed'' then Ok Precomputed
      else Err (InvalidVariant s))"

definition dkg_public_key_serialized_size :: nat where
  "dkg_public_key_serialized_size = 48"

definition dkg_public_key_to_bytes :: "'g1 codec \<Rightarrow> 'g1 dkg_public_key \<Rightarrow> bytes result" where
  "dkg_public_key_to_bytes K self =
     and_then (api_to_bytes K (dkg_pk_point self)) (\<lambda>as_bytes.
     if length as_bytes = 48 then Ok as_bytes else Panic)"

definition dkg_public_key_from_bytes :: "'g1::zero codec \<Rightarrow> bytes \<Rightarrow> 'g1 dkg_public_key result" where
  "dkg_public_key_from_bytes K bytes =
     (if length bytes \<noteq> 48
      then Err (error.InvalidByteLength dkg_public_key_serialized_size (length bytes))
      else and_then (api_from_bytes K bytes) (\<lambda>pk.
        if pk = 0 then Err error.IdentityDkgPublicKey else Ok (DkgPublicKey pk)))"

datatype 'f field_point = FieldPoint (field_value: 'f)

definition field_point_to_bytes :: "'f codec \<Rightarrow> 'f field_point \<Rightarrow> bytes result" where
  "field_point_to_bytes K self = api_to_bytes K (field_value self)"

definition field_point_from_bytes :: "'f codec \<Rightarrow> bytes \<Rightarrow> 'f field_point result" where
  "field_point_from_bytes K bytes = and_then (api_from_bytes K bytes) (\<lambda>x. Ok (FieldPoint x))"

section \<open>Encryption\<close>

text \<open>\<open>thread_rng()\<close> is a fresh generator state, passed in; its final state is dropped.\<close>

definition api_encrypt ::
  "('g1, 'g2, 'gt, 'fp, 'fp2, 'ecp2) crypto \<Rightarrow> ('f, 'g1::ab_group_add, 'g2, 'gt) pairing \<Rightarrow> ('f, 'r) ark_rand \<Rightarrow> 'r \<Rightarrow>
    bytes \<Rightarrow> bytes \<Rightarrow> 'g1 dkg_public_key \<Rightarrow> ('g1, 'g2) ciphertext result"
where
  "api_encrypt C E R thread_rng message aad pk =
     map_err ThresholdEncryptionError (fst (encrypt C E R message aad pk thread_rng))"

definition api_decrypt_with_shared_secret ::
  "('g1, 'g2, 'gt, 'fp, 'fp2, 'ecp2) crypto \<Rightarrow> ('f, 'g1::ab_group_add, 'g2::ab_group_add, 'gt::comm_monoid_mult) pairing \<Rightarrow>
    ('g1, 'g2) ciphertext \<Rightarrow> bytes \<Rightarrow> 'gt shared_secret \<Rightarrow> bytes result"
where
  "api_decrypt_with_shared_secret C E ct aad ss =
     map_err ThresholdEncryptionError (decrypt_with_shared_secret C E ct aad ss)"

definition api_ciphertext_header ::
  "('g1, 'g2, 'gt, 'fp, 'fp2, 'ecp2) crypto \<Rightarrow> ('g1, 'g2) ciphertext \<Rightarrow> ('g1, 'g2) ciphertext_header result" where
  "api_ciphertext_header C self = map_err ThresholdEncryptionError (ct_header C self)"

definition api_ciphertext_payload :: "('g1, 'g2) ciphertext \<Rightarrow> bytes" where
  "api_ciphertext_payload self = ciphertext_payload self"

section \<open>The DKG\<close>

definition api_dkg_new ::
  "('f, 'g1, 'd) ark_poly \<Rightarrow> u32 \<Rightarrow> u32 \<Rightarrow> u32 \<Rightarrow> 'g2::zero validator list \<Rightarrow> 'g2 validator \<Rightarrow>
    ('g2, 'd) dkg result"
where
  "api_dkg_new A t num_shares threshold vs self =
     and_then (dkg_params_new t threshold num_shares) (\<lambda>ps. dkg_new A vs ps self)"

definition api_generate_transcript ::
  "('f, 'g1, 'g2, 'gt) pairing \<Rightarrow> ('f, 'g1, 'd) ark_poly \<Rightarrow> ('f, 'r) ark_rand \<Rightarrow>
    ('g2, 'd) dkg \<Rightarrow> 'r \<Rightarrow> ('g1, 'g2) pvss result \<times> 'r"
where
  "api_generate_transcript E A R self rng = generate_transcript E A R self rng"

definition api_aggregate_transcripts ::
  "('f, 'g1::ab_group_add, 'g2::ab_group_add, 'gt) pairing \<Rightarrow> ('g2, 'd) dkg \<Rightarrow>
    ('g1, 'g2) validator_message list \<Rightarrow> ('g1, 'g2) aggregated_transcript result"
where
  "api_aggregate_transcripts E self messages = aggregate_transcripts E self messages"

definition api_generate_refresh_transcript ::
  "('f::field, 'g1, 'g2, 'gt) pairing \<Rightarrow> ('f, 'g1, 'd) ark_poly \<Rightarrow> ('f, 'r) ark_rand \<Rightarrow>
    ('g2, 'd) dkg \<Rightarrow> 'r \<Rightarrow> ('g1, 'g2) update_transcript result \<times> 'r"
where
  "api_generate_refresh_transcript E A R self rng = generate_refresh_transcript E A R self rng"

definition api_generate_handover_transcript ::
  "('f::field, 'g1, 'g2, 'gt) pairing \<Rightarrow> ('f, 'r) ark_rand \<Rightarrow> ('g2, 'd) dkg \<Rightarrow>
    ('g1, 'g2) aggregated_transcript \<Rightarrow> u32 \<Rightarrow> 'f keypair \<Rightarrow> 'r \<Rightarrow>
    ('g1, 'g2) handover_transcript result \<times> 'r"
where
  "api_generate_handover_transcript E R self agg slot incoming_kp rng =
     generate_handover_transcript E R self agg slot incoming_kp rng"

definition api_domain_points :: "('f, 'g1, 'd) ark_poly \<Rightarrow> ('g2, 'd) dkg \<Rightarrow> 'f list" where
  "api_domain_points A self = domain_points A self"

section \<open>Aggregated transcripts\<close>

record ('f, 'g1, 'gt) api_decryption_share_simple =
  api_share :: "('g1, 'gt) decryption_share_simple"
  api_domain_point :: 'f

definition api_aggregated_transcript_new ::
  "('g1::ab_group_add, 'g2::ab_group_add) validator_message list \<Rightarrow> ('g1, 'g2) aggregated_transcript result"
where
  "api_aggregated_transcript_new messages = from_transcripts (map snd messages)"

definition api_aggregated_transcript_verify ::
  "('f, 'g1::ab_group_add, 'g2::zero, 'gt) pairing \<Rightarrow> ('f, 'g1, 'd) ark_poly \<Rightarrow>
    ('g1, 'g2) aggregated_transcript \<Rightarrow> u32 \<Rightarrow> u32 \<Rightarrow> ('g1, 'g2) validator_message list \<Rightarrow> bool result"
where
  "api_aggregated_transcript_verify E A self validators_num threshold messages =
     (if messages = [] then Err NoTranscriptsToVerify
      else if validators_num < of_nat (length messages)
      then Err (InvalidAggregateVerificationParameters validators_num (of_nat (length messages)))
      else and_then (expect (dom_new A (unat validators_num))) (\<lambda>dm.
        if \<not> verify_optimistic E (aggregate_pvss self) then Err InvalidTranscriptAggregate
        else and_then (ok_or (slice_first (coeffs (aggregate_pvss self))) InvalidTranscriptAggregate) (\<lambda>f_0.
        if dkg_pk_point (agg_public_key self) \<noteq> f_0 then Err InvalidAggregatePublicKey
        else do_verify_aggregation E A (coeffs (aggregate_pvss self)) (shares (aggregate_pvss self))
          (map fst messages) dm (map snd messages) threshold)))"

fun ok :: "('e, 'a) outcome \<Rightarrow> 'a option" where
  "ok (Ok x) = Some x"
| "ok (Err e) = None"
| "ok Panic = None"

text \<open>\<open>filter_map\<close> drops the selected validators that have no domain point in this session;
  \<open>get_domain_point\<close> returns an error for them and never panics.\<close>

definition selected_domain_points ::
  "('f, 'g1, 'd) ark_poly \<Rightarrow> ('g2, 'd) dkg \<Rightarrow> 'g2 validator list \<Rightarrow> (u32, 'f) hash_map" where
  "selected_domain_points A d selected =
     hm_collect (List.map_filter (\<lambda>v.
       map_option (\<lambda>point. (v_share_index v, point)) (ok (get_domain_point A d (v_share_index v)))) selected)"

definition api_create_decryption_share_precomputed ::
  "('g1, 'g2, 'gt, 'fp, 'fp2, 'ecp2) crypto \<Rightarrow> ('f::field, 'g1::ab_group_add, 'g2::ab_group_add, 'gt::comm_monoid_mult) pairing \<Rightarrow>
    ('f, 'g1, 'd) ark_poly \<Rightarrow> ('g1, 'g2) aggregated_transcript \<Rightarrow> ('g2, 'd) dkg \<Rightarrow>
    ('g1, 'g2) ciphertext_header \<Rightarrow> bytes \<Rightarrow> 'f keypair \<Rightarrow> 'g2 validator list \<Rightarrow>
    ('g1, 'gt) decryption_share_precomputed result"
where
  "api_create_decryption_share_precomputed C E A self d header aad kp selected_validators =
     create_decryption_share_precomputed C E (aggregate_pvss self) header aad kp
       (v_share_index (me d)) (selected_domain_points A d selected_validators)"

definition api_create_decryption_share_simple ::
  "('g1, 'g2, 'gt, 'fp, 'fp2, 'ecp2) crypto \<Rightarrow> ('f::field, 'g1::ab_group_add, 'g2::ab_group_add, 'gt::comm_monoid_mult) pairing \<Rightarrow>
    ('f, 'g1, 'd) ark_poly \<Rightarrow> ('g1, 'g2) aggregated_transcript \<Rightarrow> ('g2, 'd) dkg \<Rightarrow>
    ('g1, 'g2) ciphertext_header \<Rightarrow> bytes \<Rightarrow> 'f keypair \<Rightarrow> ('f, 'g1, 'gt) api_decryption_share_simple result"
where
  "api_create_decryption_share_simple C E A self d header aad kp =
     and_then (create_decryption_share_simple C E (aggregate_pvss self) header aad kp (v_share_index (me d)))
       (\<lambda>share. and_then (get_domain_point A d (v_share_index (me d))) (\<lambda>domain_point.
       Ok \<lparr> api_share = share, api_domain_point = domain_point \<rparr>))"

definition api_verify_decryption_share_simple ::
  "('f, 'g1, 'g2, 'gt) pairing \<Rightarrow> ('f, 'g1, 'd) ark_poly \<Rightarrow> ('g1, 'g2) aggregated_transcript \<Rightarrow> ('g2, 'd) dkg \<Rightarrow>
    ('f, 'g1, 'gt) api_decryption_share_simple \<Rightarrow> u32 \<Rightarrow> 'g2 public_key \<Rightarrow> ('g1, 'g2) ciphertext \<Rightarrow> bool result"
where
  "api_verify_decryption_share_simple E A self d share share_index validator_pk ct =
     and_then (get_share_for_index_and_pubkey (aggregate_pvss self) share_index validator_pk) (\<lambda>blinded.
     and_then (get_domain_point A d share_index) (\<lambda>expected_domain_point.
     Ok (api_domain_point share = expected_domain_point \<and>
       decryption_share_simple_verify E (api_share share) (bks_blinded_key_share blinded)
         (bks_validator_public_key blinded) ct)))"

definition api_public_key :: "('g1, 'g2) aggregated_transcript \<Rightarrow> 'g1 dkg_public_key" where
  "api_public_key self = agg_public_key self"

definition api_refresh ::
  "('f::zero, 'g1::ab_group_add, 'g2::ab_group_add, 'gt) pairing \<Rightarrow> ('f, 'g1, 'd) ark_poly \<Rightarrow>
    ('g1, 'g2) aggregated_transcript \<Rightarrow> (u32, ('g1, 'g2) update_transcript) hash_map \<Rightarrow>
    (u32, 'g2 public_key) hash_map \<Rightarrow> ('g1, 'g2) aggregated_transcript result"
where
  "api_refresh E A self update_transcripts keys =
     and_then (unwrap (refresh E A (aggregate_pvss self) update_transcripts keys)) (\<lambda>updated_aggregate.
     unwrap (from_aggregate updated_aggregate))"

definition api_finalize_handover ::
  "('f::field, 'g1::ab_group_add, 'g2, 'gt::comm_monoid_mult) pairing \<Rightarrow> ('f, 'g1, 'd) ark_poly \<Rightarrow>
    ('g1, 'g2) aggregated_transcript \<Rightarrow> ('g1, 'g2) handover_transcript \<Rightarrow> 'f keypair \<Rightarrow>
    ('g1, 'g2) aggregated_transcript result"
where
  "api_finalize_handover E A self ho kp =
     and_then (unwrap (finalize_handover E A (aggregate_pvss self) ho kp)) (\<lambda>new_aggregate.
     unwrap (from_aggregate new_aggregate))"

definition combine_shares_simple ::
  "('f::field, 'g1, 'g2, 'gt::comm_monoid_mult) pairing \<Rightarrow> ('f, 'g1, 'gt) api_decryption_share_simple list \<Rightarrow>
    'gt shared_secret"
where
  "combine_shares_simple E ss =
     (let points = map api_domain_point ss;
          lagrange_coefficients = prepare_combine_simple points
      in share_combine_simple E (map api_share ss) lagrange_coefficients)"

section \<open>Supporting facts\<close>

lemma do_verify_aggregation_Ok:
  assumes "0 < unat threshold"
  shows "do_verify_aggregation E A Fs Ys vs dm ts threshold = Ok b \<longleftrightarrow>
    b \<and> ts \<noteq> [] \<and> do_verify_full E A Fs Ys vs dm threshold = Ok True \<and>
    list_all (verify_optimistic E) ts \<and> sum_list (map (hd \<circ> coeffs) ts) = hd Fs"
proof -
  have "Fs \<noteq> []" if "do_verify_full E A Fs Ys vs dm threshold = Ok True"
    using that assms by (auto simp: do_verify_full_True)
  then show ?thesis
    unfolding do_verify_aggregation_def
    by (auto simp: outcome_simps fold_constant_terms slice_first_eq_Some split: if_splits)
qed

lemma api_verify_Ok:
  assumes "0 < unat threshold"
  shows "api_aggregated_transcript_verify E A agg n threshold msgs = Ok b \<longleftrightarrow>
    b \<and> msgs \<noteq> [] \<and> of_nat (length msgs) \<le> n \<and> verify_optimistic E (aggregate_pvss agg) \<and>
    dkg_pk_point (agg_public_key agg) = hd (coeffs (aggregate_pvss agg)) \<and>
    (\<exists>dm. dom_new A (unat n) = Some dm \<and>
      do_verify_full E A (coeffs (aggregate_pvss agg)) (shares (aggregate_pvss agg)) (map fst msgs) dm threshold = Ok True) \<and>
    list_all (verify_optimistic E) (map snd msgs) \<and>
    sum_list (map (hd \<circ> coeffs) (map snd msgs)) = hd (coeffs (aggregate_pvss agg))"
proof -
  have "coeffs p \<noteq> []" if "verify_optimistic E p" for p :: "('b, 'c) pvss"
    using that by (auto simp: verify_optimistic_def)
  then show ?thesis
    unfolding api_aggregated_transcript_verify_def
    by (auto simp: outcome_simps do_verify_aggregation_Ok[OF assms] slice_first_eq_Some not_less split: if_splits)
qed

text \<open>The points and shares of a session do not depend on whose context it is.\<close>

lemma domain_points_me [simp]:
  "domain_points A (d\<lparr> me := m \<rparr>) = domain_points A d" "dealt_shares E A (d\<lparr> me := m \<rparr>) = dealt_shares E A d"
  "domain_and_key_map A (d\<lparr> me := m \<rparr>) = domain_and_key_map A d"
  by (simp_all add: domain_points_def dealt_shares_def fun_eq_iff domain_and_key_map_def domain_point_map_def)

text \<open>A list of shares at distinct points that evaluate one polynomial; it combines to the value at 0.\<close>

definition evaluations ::
  "('f::field, 'g1, 'g2, 'gt) pairing \<Rightarrow> 'g1 \<Rightarrow> 'f list \<Rightarrow> ('f, 'g1, 'gt) api_decryption_share_simple list \<Rightarrow> bool"
where
  "evaluations E U cs ss \<longleftrightarrow> distinct (map api_domain_point ss) \<and>
     list_all (\<lambda>s. simple_decryption_share (api_share s) =
       pair E U (g2_mul E (g2_generator E) (peval cs (api_domain_point s)))) ss"

context pairing_laws begin

lemma combine_evaluations:
  assumes "evaluations E U cs ss" "length cs \<le> length ss"
  shows "combine_shares_simple E ss = SharedSecret (pair E U (g2_mul E (g2_generator E) (peval cs 0)))"
proof -
  have "map simple_decryption_share (map api_share ss) =
      map (\<lambda>x. pair E U (g2_mul E (g2_generator E) (peval cs x))) (map api_domain_point ss)"
    using assms(1) by (auto simp: evaluations_def list_all_iff)
  then show ?thesis
    unfolding combine_shares_simple_def Let_def
    using assms by (intro combine_simple_secret) (simp_all add: evaluations_def)
qed

end

context session begin

text \<open>A share that passes verification against a verified aggregate is \<open>e(U, [f(w_i)]H)\<close>.\<close>

lemma verified_api_share:
  assumes "take (length (validators d)) (shares (aggregate_pvss agg)) = dealt_shares E A d cs"
    and "unat i < length (validators d)"
    and "api_verify_decryption_share_simple E A agg d share i (v_public_key (snd (validators d ! unat i))) ct = Ok True"
  shows "api_domain_point share = domain_points A d ! unat i"
    "simple_decryption_share (api_share share) =
       pair E (ct_commitment ct) (g2_mul E (g2_generator E) (peval cs (domain_points A d ! unat i)))"
proof -
  let ?v = "snd (validators d ! unat i)"
  obtain b where b: "encryption_key (v_public_key ?v) = g2_mul E (g2_generator E) b" by (rule g2.dlogE)
  then have "b \<noteq> 0" using dkg_wf_nth(4)[OF wf assms(2)] by auto
  have "keypair_public_key E \<lparr> decryption_key = b \<rparr> = v_public_key ?v"
    by (simp add: keypair_public_key_def public_key_eq_iff b)
  from validator_key(2)[OF assms(2) this, of cs]
  have Y: "dealt_shares E A d cs ! unat i =
      g2_mul E (g2_mul E (g2_generator E) (peval cs (domain_points A d ! unat i))) b" by simp
  have v: "api_domain_point share = domain_points A d ! unat i"
    "decryption_share_simple_verify E (api_share share) (dealt_shares E A d cs ! unat i)
      (g2_mul E (g2_generator E) b) ct"
    using assms by (simp_all add: api_verify_decryption_share_simple_def validator_share[OF assms(1,2)]
        get_domain_point_eq b)
  show "api_domain_point share = domain_points A d ! unat i" by (rule v(1))
  let ?h = "\<lparr> hdr_commitment = ct_commitment ct, hdr_auth_tag = 0, hdr_ciphertext_hash = [] \<rparr>"
  from v(2) show "simple_decryption_share (api_share share) =
       pair E (ct_commitment ct) (g2_mul E (g2_generator E) (peval cs (domain_points A d ! unat i)))"
    using simple_verify_iff[OF \<open>b \<noteq> 0\<close>, of ?h ct "api_share share"] \<open>b \<noteq> 0\<close>
    by (auto simp: simple_create_unchecked_Ok Y)
qed

text \<open>The shares that key holders create are evaluations at their domain points, which are not 0.\<close>

lemma created_evaluations:
  assumes "take (length (validators d)) (shares (aggregate_pvss agg)) = dealt_shares E A d cs"
    and "distinct is" "list_all (\<lambda>i :: u32. unat i < length (validators d)) is"
    and "list_all (\<lambda>i. keypair_public_key E (kps i) = v_public_key (snd (validators d ! unat i))) is"
    and "header_check C E h aad = Ok True"
  obtains ss where "try_map (\<lambda>i. api_create_decryption_share_simple C E A agg
      (d\<lparr> me := snd (validators d ! unat i) \<rparr>) h aad (kps i)) is = Ok ss"
    "evaluations E (hdr_commitment h) cs ss" "map api_domain_point ss = map (\<lambda>i. domain_points A d ! unat i) is"
proof -
  let ?x = "\<lambda>i. domain_points A d ! unat i"
  let ?a = "\<lambda>i. \<lparr> api_share = \<lparr> simple_decryption_share =
        pair E (hdr_commitment h) (g2_mul E (g2_generator E) (peval cs (?x i))),
      simple_validator_checksum = \<lparr> checksum = g1_mul E (hdr_commitment h) (inverse (decryption_key (kps i))) \<rparr> \<rparr>,
      api_domain_point = ?x i \<rparr>"
  have "api_create_decryption_share_simple C E A agg (d\<lparr> me := snd (validators d ! unat i) \<rparr>) h aad (kps i) = Ok (?a i)"
    if "i \<in> set is" for i
  proof -
    have i: "unat i < length (validators d)" "keypair_public_key E (kps i) = v_public_key (snd (validators d ! unat i))"
      using that assms(3,4) by (auto simp: list_all_iff)
    have "v_share_index (snd (validators d ! unat i)) = i"
      using dkg_wf_nth(2)[OF wf i(1)] by (simp add: of_nat_unat_u32)
    then show ?thesis
      using i(1) share_from_verified[OF assms(1) i assms(5)]
      by (simp add: api_create_decryption_share_simple_def get_domain_point_def slice_get_def)
  qed
  then have "try_map (\<lambda>i. api_create_decryption_share_simple C E A agg
      (d\<lparr> me := snd (validators d ! unat i) \<rparr>) h aad (kps i)) is = Ok (map ?a is)"
    by (rule try_map_Ok_map)
  moreover have "evaluations E (hdr_commitment h) cs (map ?a is)"
    using distinct_points[OF assms(2,3)] by (simp add: evaluations_def list_all_iff o_def)
  ultimately show ?thesis by (rule that) simp
qed

lemma combine_verified_api_shares:
  assumes "take (length (validators d)) (shares (aggregate_pvss agg)) = dealt_shares E A d cs"
    and "distinct (map fst iss)" "length cs \<le> length iss"
    and "list_all (\<lambda>(i, s). unat i < length (validators d) \<and>
      api_verify_decryption_share_simple E A agg d s i (v_public_key (snd (validators d ! unat i))) ct = Ok True) iss"
  shows "combine_shares_simple E (map snd iss) =
    SharedSecret (pair E (ct_commitment ct) (g2_mul E (g2_generator E) (peval cs 0)))"
proof -
  let ?x = "\<lambda>i. domain_points A d ! unat i"
  have v: "api_domain_point s = ?x i \<and> simple_decryption_share (api_share s) =
      pair E (ct_commitment ct) (g2_mul E (g2_generator E) (peval cs (?x i))) \<and> unat i < length (validators d)"
    if "(i, s) \<in> set iss" for i s
    using that assms(4) verified_api_share[OF assms(1)] by (fastforce simp: list_all_iff)
  have pts: "map api_domain_point (map snd iss) = map ?x (map fst iss)"
    using v by auto
  have "list_all (\<lambda>i. unat i < length (validators d)) (map fst iss)"
    using v by (auto simp: list_all_iff)
  from distinct_points[OF assms(2) this] have "evaluations E (ct_commitment ct) cs (map snd iss)"
    unfolding evaluations_def pts using v by (auto simp: list_all_iff)
  then show ?thesis by (rule combine_evaluations) (simp add: assms(3))
qed

end

section \<open>Properties\<close>

text \<open>
  C37: the DKG public key survives its byte encoding unless it is the identity, which decoding
  refuses; a field point and a variant name survive theirs; no other string names a variant.
\<close>

theorem api_encodings_roundtrip:
  assumes "codec_laws K 48" "codec_laws KF field_size"
  shows "(\<exists>bs. dkg_public_key_to_bytes K pk = Ok bs \<and> length bs = 48 \<and>
      dkg_public_key_from_bytes K bs =
        (if dkg_pk_point pk = 0 then Err error.IdentityDkgPublicKey else Ok pk)) \<and>
    (\<exists>bs. field_point_to_bytes KF fp = Ok bs \<and> field_point_from_bytes KF bs = Ok fp) \<and>
    (variant_from_string s = Ok v \<longleftrightarrow> s = variant_as_str v)"
proof -
  obtain bs where "serialize_compressed K (dkg_pk_point pk) = Some bs" "length bs = 48"
      "deserialize_compressed K bs = Some (dkg_pk_point pk)"
    using assms(1) by (rule codec_laws.encodeE)
  then have 1: "\<exists>bs. dkg_public_key_to_bytes K pk = Ok bs \<and> length bs = 48 \<and>
      dkg_public_key_from_bytes K bs =
        (if dkg_pk_point pk = 0 then Err error.IdentityDkgPublicKey else Ok pk)"
    by (auto simp: dkg_public_key_to_bytes_def dkg_public_key_from_bytes_def api_to_bytes_def api_from_bytes_def)
  obtain bs' where "serialize_compressed KF (field_value fp) = Some bs'"
      "deserialize_compressed KF bs' = Some (field_value fp)"
    using assms(2) by (rule codec_laws.encodeE)
  then have 2: "\<exists>bs. field_point_to_bytes KF fp = Ok bs \<and> field_point_from_bytes KF bs = Ok fp"
    by (auto simp: field_point_to_bytes_def field_point_from_bytes_def api_to_bytes_def api_from_bytes_def)
  have "variant_from_string s = Ok v \<longleftrightarrow> s = variant_as_str v"
    by (cases v) (auto simp: variant_from_string_def variant_as_str_def)
  with 1 2 show ?thesis by blast
qed

theorem api_encodings_roundtrip_witness:
  "(\<exists>bs. dkg_public_key_to_bytes (codec17 48) (DkgPublicKey 5) = Ok bs \<and> length bs = 48 \<and>
      dkg_public_key_from_bytes (codec17 48) bs =
        (if dkg_pk_point (DkgPublicKey (5 :: f17)) = 0 then Err error.IdentityDkgPublicKey else Ok (DkgPublicKey 5))) \<and>
    (\<exists>bs. field_point_to_bytes (codec17 48) (FieldPoint 7) = Ok bs \<and>
      field_point_from_bytes (codec17 48) bs = Ok (FieldPoint 7)) \<and>
    (variant_from_string ''FerveoVariant::Simple'' = Ok Simple \<longleftrightarrow>
      ''FerveoVariant::Simple'' = variant_as_str Simple)"
  by (rule api_encodings_roundtrip[OF codec48.codec_laws_axioms codec48.codec_laws_axioms])

text \<open>
  C12: verification of an aggregate through the interface is sound.  An accepted aggregate commits
  to a polynomial of exactly \<open>threshold\<close> coefficients with nonzero constant and leading terms, its
  separately carried public key is the committed constant term and the sum of the dealers' terms,
  every message carries a valid proof of knowledge, and the slot of every message's sender is the
  blinded evaluation at its domain point.  The slots of validators without a message are not checked.
\<close>

theorem api_verify_sound:
  assumes "pairing_laws E" "domain_laws (g1_mul E) A" "0 < unat threshold"
    and "dom_new A (unat n) = Some dm" "unat threshold \<le> length (dom_elements A dm)"
    and "api_aggregated_transcript_verify E A agg n threshold msgs = Ok b"
  shows "b \<and> (\<exists>cs. length cs = unat threshold \<and> hd cs \<noteq> 0 \<and> last cs \<noteq> 0 \<and>
    coeffs (aggregate_pvss agg) = map (g1_mul E (g1_generator E)) cs \<and>
    agg_public_key agg = DkgPublicKey (g1_mul E (g1_generator E) (peval cs 0)) \<and>
    sum_list (map (hd \<circ> coeffs) (map snd msgs)) = g1_mul E (g1_generator E) (peval cs 0) \<and>
    list_all (\<lambda>(v, p). verify_optimistic E p \<and> encryption_key (v_public_key v) \<noteq> 0 \<and>
      unat (v_share_index v) < length (shares (aggregate_pvss agg)) \<and>
      shares (aggregate_pvss agg) ! unat (v_share_index v) =
        g2_mul E (encryption_key (v_public_key v)) (peval cs (dom_elements A dm ! unat (v_share_index v)))) msgs)"
proof -
  let ?p = "aggregate_pvss agg"
  have c: "cyclic_action (g1_mul E) (g1_generator E)" and act: "scalar_action (g1_mul E)"
    using assms(1) by (simp_all add: pairing_laws_def cyclic_action_def)
  note ok = assms(6)[unfolded api_verify_Ok[OF assms(3)] assms(4)]
  obtain cs where cs: "coeffs ?p = map (g1_mul E (g1_generator E)) cs"
    using c by (rule cyclic_action.dlog_listE)
  have full: "length (coeffs ?p) = unat threshold" "hd (coeffs ?p) \<noteq> 0" "last (coeffs ?p) \<noteq> 0"
    "verify_validator_shares E (dom_fft A dm (coeffs ?p)) (shares ?p) (map fst msgs) = Ok True"
    using ok by (auto simp: do_verify_full_True[OF assms(3)])
  then have ne: "cs \<noteq> []" "length cs = unat threshold" using assms(3) by (auto simp: cs)
  have zero: "g1_mul E (g1_generator E) 0 = 0" by (rule scalar_action.mul_zero[OF act])
  have ends: "hd cs \<noteq> 0" "last cs \<noteq> 0"
    using full(2,3) ne(1) zero by (auto simp: cs hd_map last_map)
  have F0: "hd (coeffs ?p) = g1_mul E (g1_generator E) (peval cs 0)"
    using ne(1) by (cases cs) (simp_all add: cs peval_zero_point)
  have fft: "dom_fft A dm (coeffs ?p) = map (\<lambda>x. g1_mul E (g1_generator E) (peval cs x)) (dom_elements A dm)"
    using domain_laws.fft_eval[OF assms(2,4), of "coeffs ?p"] assms(5) full(1)
    by (simp add: cs scalar_action.gpeval_map_mul[OF act])
  have "list_all (\<lambda>(v, p). verify_optimistic E p \<and> encryption_key (v_public_key v) \<noteq> 0 \<and>
      unat (v_share_index v) < length (shares ?p) \<and>
      shares ?p ! unat (v_share_index v) =
        g2_mul E (encryption_key (v_public_key v)) (peval cs (dom_elements A dm ! unat (v_share_index v)))) msgs"
    using full(4) ok pairing_laws.pair_shift[OF assms(1)]
      pairing_laws.pair_left_cancel[OF assms(1) cyclic_action.gen_nonzero[OF c]]
    by (auto simp: verify_validator_shares_True verify_validator_share_Ok fft list_all_iff)
  moreover have "agg_public_key agg = DkgPublicKey (g1_mul E (g1_generator E) (peval cs 0))"
    using ok F0 by (cases "agg_public_key agg") simp
  ultimately show ?thesis using ok cs ne ends F0 by auto
qed

theorem api_verify_sound_witness:
  "\<exists>cs. length cs = unat (3 :: u32) \<and> hd cs \<noteq> 0 \<and> last cs \<noteq> 0 \<and>
    coeffs (aggregate_pvss sample_agg) = map (g1_mul E17 (g1_generator E17)) cs"
proof -
  have dm: "domain_laws (g1_mul E17) A17" using a17.domain_laws_axioms by (simp add: dlog_pairing_def)
  have "0 < unat (3 :: u32)" "dom_new A17 (unat (4 :: u32)) = Some [1, 4, 16, 13]"
    "unat (3 :: u32) \<le> length (dom_elements A17 [1, 4, 16, 13])"
    "api_aggregated_transcript_verify E17 A17 sample_agg 4 3 [(sample_validator 0, sample_pvss)] = Ok True"
    by code_simp+
  from api_verify_sound[OF e17.pairing_laws_axioms dm this] show ?thesis by blast
qed

text \<open>
  A participant's own share is accepted.  Against a fully verified aggregate, the share a
  validator creates with its registered key for a valid ciphertext passes the share verification of
  every context of the session.
\<close>

lemma api_created_share_verifies:
  assumes "session E A d"
    and "unat (security_threshold (params d)) \<le> length (dom_elements A (domain d))"
    and "verify_full E A (aggregate_pvss agg) d = Ok True"
    and "keypair_public_key E kp = v_public_key (me d)"
    and "ct_header C ct = Ok h" "header_check C E h aad = Ok True"
  shows "\<exists>share. api_create_decryption_share_simple C E A agg d h aad kp = Ok share \<and>
    api_verify_decryption_share_simple E A agg d share (v_share_index (me d)) (v_public_key (me d)) ct = Ok True"
  using assms(1-3)
proof (rule session.verified_polynomial)
  fix cs assume shares: "take (length (validators d)) (shares (aggregate_pvss agg)) = dealt_shares E A d cs"
  let ?i = "v_share_index (me d)"
  have E: "pairing_laws E" using assms(1) by (simp add: session_def)
  obtain v where v: "map_of (validators d) ?i = Some v" "v_public_key v = v_public_key (me d)"
    using session.wf[OF assms(1)] by (auto simp: dkg_wf_def)
  have i: "unat ?i < length (validators d)" and vi: "snd (validators d ! unat ?i) = v"
    using v(1) dkg_wf_lookup[OF session.wf[OF assms(1)], of ?i] by (auto split: if_splits)
  have key: "keypair_public_key E kp = v_public_key (snd (validators d ! unat ?i))"
    by (simp add: vi v(2) assms(4))
  have U: "hdr_commitment h = ct_commitment ct" using assms(5) by (auto simp: ct_header_def)
  note nz = session.validator_key(1)[OF assms(1) i key]
  let ?Y = "dealt_shares E A d cs ! unat ?i"
  let ?s = "\<lparr> simple_decryption_share = pair E (hdr_commitment h)
        (g2_mul E ?Y (inverse (decryption_key kp))),
      simple_validator_checksum = \<lparr> checksum = g1_mul E (hdr_commitment h) (inverse (decryption_key kp)) \<rparr> \<rparr>"
  have "api_create_decryption_share_simple C E A agg d h aad kp =
      Ok \<lparr> api_share = ?s, api_domain_point = domain_points A d ! unat ?i \<rparr>"
    using i nz assms(6) by (simp add: api_create_decryption_share_simple_def create_decryption_share_simple_def
        session.validator_share[OF assms(1) shares i] session.get_domain_point_eq[OF assms(1)] outcome_simps
        bks_create_decryption_share_simple_def unblind_eq decryption_share_simple_create_def
        simple_create_unchecked_Ok)
  moreover have "decryption_share_simple_verify E ?s ?Y (g2_mul E (g2_generator E) (decryption_key kp)) ct"
    unfolding pairing_laws.simple_verify_iff[OF E nz U] by (simp add: simple_create_unchecked_Ok nz)
  then have "api_verify_decryption_share_simple E A agg d
      \<lparr> api_share = ?s, api_domain_point = domain_points A d ! unat ?i \<rparr> ?i (v_public_key (me d)) ct = Ok True"
    using i assms(4)[symmetric] by (simp add: api_verify_decryption_share_simple_def keypair_public_key_def
        session.validator_share[OF assms(1) shares i] session.get_domain_point_eq[OF assms(1)])
  ultimately show ?thesis by blast
qed

end
