(* ===== verification/Dealers.thy ===== *)
theory Dealers
  imports Ritual "HOL-Library.Multiset"
begin

text \<open>
  What aggregation makes of the dealers' transcripts: a closed form, its independence of the order
  in which messages arrive, and what a dealer who speaks last can do with it.
\<close>

section \<open>Aggregation in closed form\<close>

definition sum_transcripts ::
  "nat \<Rightarrow> nat \<Rightarrow> ('g1::ab_group_add, 'g2::ab_group_add) pvss list \<Rightarrow> ('g1, 'g2) pvss"
where
  "sum_transcripts n m ts =
     \<lparr> coeffs = map (\<lambda>i. \<Sum>p\<leftarrow>ts. coeffs p ! i) [0..<n], shares = map (\<lambda>i. \<Sum>p\<leftarrow>ts. shares p ! i) [0..<m],
       sigma = (\<Sum>p\<leftarrow>ts. sigma p) \<rparr>"

abbreviation same_shape :: "nat \<Rightarrow> nat \<Rightarrow> ('g1, 'g2) pvss list \<Rightarrow> bool" where
  "same_shape n m \<equiv> list_all (\<lambda>p. length (coeffs p) = n \<and> length (shares p) = m)"

lemma aggregate_loop_iff:
  "aggregate_loop cs ss sg ts = Ok q \<longleftrightarrow>
     same_shape (length cs) (length ss) ts \<and>
     q = sum_transcripts (length cs) (length ss) (\<lparr> coeffs = cs, shares = ss, sigma = sg \<rparr> # ts)"
proof (induction cs ss sg ts rule: aggregate_loop.induct)
  case (1 cs ss sg)
  show ?case by (auto simp: sum_transcripts_def map_nth)
next
  case (2 cs ss sg p ts)
  have "sum_transcripts (length cs) (length ss) (\<lparr> coeffs = map2 (+) cs (coeffs p),
      shares = map2 (+) ss (shares p), sigma = sg + sigma p \<rparr> # ts) =
    sum_transcripts (length cs) (length ss) (\<lparr> coeffs = cs, shares = ss, sigma = sg \<rparr> # p # ts)"
    if "length (coeffs p) = length cs" "length (shares p) = length ss"
    using that by (auto simp: sum_transcripts_def add.assoc)
  with 2 show ?case by auto
qed

lemma aggregate_iff:
  "aggregate ts = Ok q \<longleftrightarrow> ts \<noteq> [] \<and> (\<exists>n m. same_shape n m ts \<and> q = sum_transcripts n m ts)"
proof (cases ts)
  case (Cons p ts')
  obtain cs ss sg where "p = \<lparr> coeffs = cs, shares = ss, sigma = sg \<rparr>" by (cases p)
  with Cons show ?thesis by (auto simp: aggregate_def aggregate_loop_iff)
qed (simp add: aggregate_def)

lemma sum_list_perm:
  fixes f :: "'a \<Rightarrow> 'b::comm_monoid_add"
  shows "mset xs = mset ys \<Longrightarrow> sum_list (map f xs) = sum_list (map f ys)"
  by (metis mset_map sum_mset_sum_list)

lemma list_all_perm: "mset xs = mset ys \<Longrightarrow> list_all P xs \<longleftrightarrow> list_all P ys"
  by (metis list_all_iff mset_eq_setD)

lemma aggregate_perm:
  assumes "mset ts = mset ts'"
  shows "aggregate ts = Ok q \<longleftrightarrow> aggregate ts' = Ok q"
proof -
  have "sum_transcripts n m ts = sum_transcripts n m ts'" for n m
    unfolding sum_transcripts_def by (simp only: sum_list_perm[OF assms])
  moreover have "ts = [] \<longleftrightarrow> ts' = []" using assms by auto
  ultimately show ?thesis unfolding aggregate_iff by (simp only: list_all_perm[OF assms])
qed

lemma distinct_map_perm: "mset xs = mset ys \<Longrightarrow> distinct (map f xs) \<longleftrightarrow> distinct (map f ys)"
  by (rule mset_eq_imp_distinct_iff) simp

lemma verify_transcripts_perm:
  assumes "mset msgs = mset msgs'"
  shows "verify_transcripts E d msgs = Ok u \<longleftrightarrow> verify_transcripts E d msgs' = Ok u"
  unfolding verify_transcripts_Ok
  by (simp only: list_all_perm[OF assms] distinct_map_perm[OF assms] mset_eq_length[OF assms])

text \<open>The sum of transcripts with valid proofs has a valid proof, unless the secrets cancel.\<close>

lemma optimistic_sum:
  assumes "pairing_laws E" "list_all (verify_optimistic E) ts"
  obtains x where "(\<Sum>p\<leftarrow>ts. coeffs p ! 0) = g1_mul E (g1_generator E) x"
    "(\<Sum>p\<leftarrow>ts. sigma p) = g2_mul E (g2_generator E) x"
proof -
  have act: "scalar_action (g1_mul E)" "scalar_action (g2_mul E)"
    using assms(1) by (simp_all add: pairing_laws_def cyclic_action_def)
  have "\<exists>x. (\<Sum>p\<leftarrow>ts. coeffs p ! 0) = g1_mul E (g1_generator E) x \<and>
      (\<Sum>p\<leftarrow>ts. sigma p) = g2_mul E (g2_generator E) x"
    using assms(2)
  proof (induction ts)
    case Nil
    show ?case using scalar_action.mul_zero[OF act(1)] scalar_action.mul_zero[OF act(2)] by (intro exI[of _ 0]) simp
  next
    case (Cons p ts)
    then obtain x s Fs where "(\<Sum>p\<leftarrow>ts. coeffs p ! 0) = g1_mul E (g1_generator E) x"
      "(\<Sum>p\<leftarrow>ts. sigma p) = g2_mul E (g2_generator E) x"
      "coeffs p = g1_mul E (g1_generator E) s # Fs" "sigma p = g2_mul E (g2_generator E) s"
      by (auto simp: pairing_laws.verify_optimistic_iff[OF assms(1)])
    then show ?case
      by (intro exI[of _ "s + x"]) (simp add: scalar_action.mul_simps[OF act(1)] scalar_action.mul_simps[OF act(2)])
  qed
  with that show ?thesis by blast
qed

section \<open>The last dealer\<close>

text \<open>
  What a dealer computes who has seen the aggregate \<open>others\<close> of everyone else's transcripts: its own
  transcript minus theirs, point by point.  No discrete logarithm enters it.
\<close>

definition rushing_transcript ::
  "('g1::ab_group_add, 'g2::ab_group_add) pvss \<Rightarrow> ('g1, 'g2) pvss \<Rightarrow> ('g1, 'g2) pvss"
where
  "rushing_transcript own others =
     \<lparr> coeffs = map2 (-) (coeffs own) (coeffs others), shares = map2 (-) (shares own) (shares others),
       sigma = sigma own - sigma others \<rparr>"

lemma map2_diff_add: "length xs = length ys \<Longrightarrow> map2 (+) ys (map2 (-) xs ys) = (xs :: 'a::ab_group_add list)"
  by (induction xs ys rule: list_induct2) simp_all

context session begin

lemma rushing_transcript_dealt:
  assumes "length gs = length fs"
  shows "rushing_transcript (dealt E A d gs) (dealt E A d fs) = dealt E A d (map2 (-) gs fs)"
  using assms
  by (auto intro!: nth_equalityI simp: rushing_transcript_def dealt_def nth_dealt_shares peval_diff
      g1.mul_diff_right g2.mul_diff_right)

lemma rushing_dealer:
  assumes "unat (security_threshold (params d)) \<le> length (dom_elements A (domain d))"
    and "list_all (\<lambda>ds. length ds = unat (security_threshold (params d))) (gs # cs # css)"
    and "hd gs \<noteq> hd (sum_polys cs css)" "last gs \<noteq> last (sum_polys cs css)"
  defines "rush \<equiv> rushing_transcript (dealt E A d gs) (dealt E A d (sum_polys cs css))"
  shows "verify_optimistic E rush" "verify_full E A rush d = Ok True"
    "aggregate (map (dealt E A d) (cs # css) @ [rush]) = Ok (dealt E A d gs)"
proof -
  let ?t = "unat (security_threshold (params d))"
  let ?fs = "sum_polys cs css" and ?hs = "map2 (-) gs (sum_polys cs css)"
  have len: "list_all (\<lambda>ds. length ds = length cs) css" "length gs = ?t" "length cs = ?t"
    using assms(2) by (auto simp: list_all_iff)
  then have lf: "length ?fs = ?t" by simp
  have r: "rush = dealt E A d ?hs"
    unfolding rush_def by (rule rushing_transcript_dealt) (simp add: len lf)
  have ne: "gs \<noteq> []" "?fs \<noteq> []" using len(2) lf threshold_pos by auto
  then have "zip gs ?fs \<noteq> []" by (cases gs; cases ?fs) simp_all
  then have "hd ?hs = hd gs - hd ?fs" "last ?hs = last gs - last ?fs"
    using ne len(2) lf by (simp_all add: hd_map last_map hd_zip last_zip case_prod_unfold)
  then have "hd ?hs \<noteq> 0" "last ?hs \<noteq> 0" using assms(3,4) by simp_all
  then show "verify_optimistic E rush" "verify_full E A rush d = Ok True"
    unfolding r using dealt_verifies[OF assms(1), of ?hs] len(2) lf by simp_all
  have "sum_polys cs (css @ [?hs]) = gs"
    unfolding sum_polys_def using map2_diff_add[of gs ?fs] len(2) lf by (simp add: sum_polys_def)
  then show "aggregate (map (dealt E A d) (cs # css) @ [rush]) = Ok (dealt E A d gs)"
    using aggregate_dealt[of cs "css @ [?hs]"] len lf by (simp add: r)
qed

end

section \<open>Properties\<close>

text \<open>
  C21: the order of the messages does not matter: a permuted list of messages is accepted exactly when
  the list is, aggregates to the same transcript under the same public key, and is accepted or
  refused alike by the check of an aggregate against it.\<close>

theorem aggregation_order_independent:
  assumes "session E A d" "mset msgs = mset msgs'"
  shows "(aggregate_transcripts E d msgs = Ok agg \<longleftrightarrow> aggregate_transcripts E d msgs' = Ok agg) \<and>
    (verify_aggregation E A p d (map snd msgs) = Ok b \<longleftrightarrow> verify_aggregation E A p d (map snd msgs') = Ok b)"
proof -
  have ts: "mset (map snd msgs) = mset (map snd msgs')" using assms(2) by simp
  have "from_transcripts (map snd msgs) = Ok agg \<longleftrightarrow> from_transcripts (map snd msgs') = Ok agg"
    unfolding from_transcripts_Ok by (simp only: aggregate_perm[OF ts])
  moreover have "msgs = [] \<longleftrightarrow> msgs' = []" using assms(2) by auto
  ultimately show ?thesis
    using verify_transcripts_perm[OF assms(2)] list_all_perm[OF ts]
      sum_list_perm[OF ts, of "hd \<circ> coeffs :: _ \<Rightarrow> 'b"]
    by (auto simp: aggregate_transcripts_def outcome_simps session.verify_aggregation_Ok[OF assms(1)])
qed

theorem aggregation_order_independent_witness:
  "aggregate_transcripts E17 sample_dkg [(sample_validator 0, dealt E17 A17 sample_dkg [1, 1, 4]),
      (sample_validator 2, sample_pvss)] =
   aggregate_transcripts E17 sample_dkg [(sample_validator 2, sample_pvss),
      (sample_validator 0, dealt E17 A17 sample_dkg [1, 1, 4])]"
  (is "aggregate_transcripts E17 sample_dkg ?m' = aggregate_transcripts E17 sample_dkg ?m")
proof -
  have "is_ok (aggregate_transcripts E17 sample_dkg ?m)" by code_simp
  then obtain agg where agg: "aggregate_transcripts E17 sample_dkg ?m = Ok agg"
    by (cases "aggregate_transcripts E17 sample_dkg ?m") simp_all
  have "mset ?m = mset ?m'" by (simp add: add_mset_commute)
  from aggregation_order_independent[OF session17.session_axioms this] agg show ?thesis by metis
qed

text \<open>
  C22: the dealer who speaks last decides the key.  From the published transcripts of honest dealers
  and a transcript \<open>own\<close> that it deals for a secret of its choice it computes, by subtracting points,
  a transcript that passes the proof of knowledge and the full verification (unless a constant or
  leading coefficient cancels) and with which the aggregate of all is \<open>own\<close>: the shared secret is the
  one it chose.  The proof \<open>sigma\<close> therefore does not show that the dealer knows its secret when it
  may depend on the transcripts of others.\<close>

theorem last_dealer_decides_key:
  assumes "session E A d" "rand_laws R"
    and "unat (security_threshold (params d)) \<le> length (dom_elements A (domain d))"
    and "list_all (\<lambda>ds. length ds = unat (security_threshold (params d))) (cs # css)"
    and "aggregate (map (dealt E A d) (cs # css)) = Ok others"
    and "pvss_new E A R s d rng = (Ok own, rng')"
    and "hd (coeffs own) \<noteq> hd (coeffs others)" "last (coeffs own) \<noteq> last (coeffs others)"
  shows "verify_optimistic E (rushing_transcript own others) \<and>
    verify_full E A (rushing_transcript own others) d = Ok True \<and>
    from_transcripts (map (dealt E A d) (cs # css) @ [rushing_transcript own others]) =
      Ok \<lparr> aggregate_pvss = own, agg_public_key = DkgPublicKey (g1_mul E (g1_generator E) s) \<rparr>"
  using assms(1,2,6)
proof (rule session.pvss_new_polynomial)
  fix gs assume gs: "length gs = unat (security_threshold (params d))" "hd gs = s" and own: "own = dealt E A d gs"
  have len: "list_all (\<lambda>ds. length ds = length cs) css" "length cs = unat (security_threshold (params d))"
    using assms(4) by (auto simp: list_all_iff)
  then have others: "others = dealt E A d (sum_polys cs css)"
    using session.aggregate_dealt[OF assms(1) len(1)] assms(5) by simp
  have ne: "gs \<noteq> []" "sum_polys cs css \<noteq> []"
    using gs(1) len(2) length_sum_polys[OF len(1)] session.threshold_pos[OF assms(1)]
    by (auto simp del: length_sum_polys)
  then have "hd gs \<noteq> hd (sum_polys cs css)" "last gs \<noteq> last (sum_polys cs css)"
    using assms(7,8) by (auto simp: own others hd_map last_map)
  note rush = session.rushing_dealer[OF assms(1,3) _ this]
  have "list_all (\<lambda>ds. length ds = unat (security_threshold (params d))) (gs # cs # css)"
    using assms(4) gs(1) by simp
  note rush = rush[OF this, folded own others]
  from ne(1) gs(2) have "coeffs own = g1_mul E (g1_generator E) s # map (g1_mul E (g1_generator E)) (tl gs)"
    by (cases gs) (simp_all add: own)
  with rush show ?thesis by (simp add: from_transcripts_Ok)
qed

theorem last_dealer_decides_key_witness:
  "\<exists>others. aggregate [dealt E17 A17 sample_dkg [1, 1, 4]] = Ok others \<and>
    verify_optimistic E17 (rushing_transcript sample_pvss others) \<and>
    verify_full E17 A17 (rushing_transcript sample_pvss others) sample_dkg = Ok True \<and>
    from_transcripts [dealt E17 A17 sample_dkg [1, 1, 4], rushing_transcript sample_pvss others] =
      Ok \<lparr> aggregate_pvss = sample_pvss, agg_public_key = DkgPublicKey (g1_mul E17 (g1_generator E17) 5) \<rparr>"
proof -
  let ?o = "dealt E17 A17 sample_dkg [1, 1, 4]"
  have "list_all (\<lambda>ds. length ds = unat (security_threshold (params sample_dkg))) [[1, 1, 4 :: f17]]"
    "aggregate (map (dealt E17 A17 sample_dkg) [[1, 1, 4]]) = Ok ?o"
    "hd (coeffs sample_pvss) \<noteq> hd (coeffs ?o)" "last (coeffs sample_pvss) \<noteq> last (coeffs ?o)"
    by code_simp+
  from last_dealer_decides_key[OF session17.session_axioms r17.rand_laws_axioms sample_threshold
      this(1,2) sample_pvss_new this(3,4)] this(2)
  show ?thesis by auto
qed

end
