(* ===== verification/Lifecycle.thy ===== *)
theory Lifecycle
  imports Mobility Api Dealers
begin

text \<open>
  The life of a ritual after its aggregation: in any order and any number of times, the shares of
  the aggregate are refreshed with updates of the participants, slots are handed over to incoming
  validators, and participants construct new contexts.  A state is a context together with the
  current aggregate, a step is one such exchange through the interface of \<open>ferveo/src/api.rs\<close>.
\<close>

section \<open>States and steps\<close>

record ('g1, 'g2, 'd) ritual_state =
  rs_dkg :: "('g2, 'd) dkg"
  rs_aggregate :: "('g1, 'g2) aggregated_transcript"

text \<open>
  A refresh applies the updates that participants of the session generated, each with the context
  of its own; a handover installs the baton that the incoming validator made from the current
  aggregate, after which a context with the incoming validator's key in that slot is constructed.
\<close>

inductive ritual_step ::
  "('f::field, 'g1::ab_group_add, 'g2::ab_group_add, 'gt::comm_monoid_mult) pairing \<Rightarrow> ('f, 'g1, 'd) ark_poly \<Rightarrow>
    ('f, 'r) ark_rand \<Rightarrow> ('g1, 'g2, 'd) ritual_state \<Rightarrow> ('g1, 'g2, 'd) ritual_state \<Rightarrow> bool"
  for E A R
where
  refreshed: "ritual_step E A R s (s\<lparr> rs_aggregate := agg \<rparr>)"
    if "session_keys (rs_dkg s) keys"
      and "list_all (\<lambda>(_, ut). \<exists>m rng rng'.
        api_generate_refresh_transcript E A R ((rs_dkg s)\<lparr> me := m \<rparr>) rng = (Ok ut, rng')) uts"
      and "api_refresh E A (rs_aggregate s) uts keys = Ok agg"
| handed_over: "ritual_step E A R s \<lparr> rs_dkg = d, rs_aggregate = agg \<rparr>"
    if "api_generate_handover_transcript E R (rs_dkg s) (rs_aggregate s) i incoming rng = (Ok ho, rng')"
      and "map_of (validators (rs_dkg s)) i = Some departing" "keypair_public_key E kp = v_public_key departing"
      and "api_finalize_handover E A (rs_aggregate s) ho kp = Ok agg"
      and "dkg_new A vs (params (rs_dkg s)) self = Ok d"
      and "validators d = (validators (rs_dkg s))[unat i := (i, v)]"
      and "v_public_key v = keypair_public_key E incoming"
| rejoined: "ritual_step E A R s (s\<lparr> rs_dkg := d \<rparr>)"
    if "dkg_new A vs (params (rs_dkg s)) self = Ok d" "validators d = validators (rs_dkg s)"

text \<open>
  The invariant: the context is well-formed, and the aggregate's shares are those of a polynomial of
  \<open>t\<close> coefficients with constant term \<open>x\<close>, the secret of the public key that the aggregate carries.
\<close>

definition shares_secret ::
  "('f::field, 'g1, 'g2::zero, 'gt) pairing \<Rightarrow> ('f, 'g1, 'd) ark_poly \<Rightarrow> u32 \<Rightarrow> 'f \<Rightarrow>
    ('g1, 'g2, 'd) ritual_state \<Rightarrow> bool"
where
  "shares_secret E A t x s \<longleftrightarrow>
     dkg_wf A (rs_dkg s) \<and> security_threshold (params (rs_dkg s)) = t \<and>
     unat t \<le> length (dom_elements A (domain (rs_dkg s))) \<and>
     (\<exists>cs. length cs = unat t \<and> peval cs 0 = x \<and>
       shares (aggregate_pvss (rs_aggregate s)) = dealt_shares E A (rs_dkg s) cs) \<and>
     coeffs (aggregate_pvss (rs_aggregate s)) \<noteq> [] \<and>
     hd (coeffs (aggregate_pvss (rs_aggregate s))) = g1_mul E (g1_generator E) x \<and>
     sigma (aggregate_pvss (rs_aggregate s)) = g2_mul E (g2_generator E) x \<and>
     agg_public_key (rs_aggregate s) = DkgPublicKey (g1_mul E (g1_generator E) x)"

section \<open>Supporting facts\<close>

lemma finalize_handover_Ok:
  assumes "finalize_handover E A p ho kp = Ok q"
  shows "decryption_key kp \<noteq> 0" "q = p\<lparr> shares := (shares p)[unat (ho_share_index ho) :=
      g2_mul E (double_blind_share ho) (inverse (decryption_key kp))] \<rparr>"
  using assms
  by (cases p; auto simp: finalize_handover_def handover_finalize_def ff_inverse_def Let_def outcome_simps
      split: if_splits)+

lemma from_aggregate_Ok:
  "coeffs p \<noteq> [] \<Longrightarrow> from_aggregate p = Ok \<lparr> aggregate_pvss = p, agg_public_key = DkgPublicKey (hd (coeffs p)) \<rparr>"
  by (cases "coeffs p") (simp_all add: from_aggregate_def)

lemma generate_refresh_transcript_me:
  "generate_refresh_transcript E A R (d\<lparr> me := m \<rparr>) rng = generate_refresh_transcript E A R d rng"
  by (simp add: generate_refresh_transcript_def split: outcome.split)

lemma dealt_shares_cong:
  "validators d' = validators d \<Longrightarrow> domain d' = domain d \<Longrightarrow> dealt_shares E A d' cs = dealt_shares E A d cs"
  by (simp add: dealt_shares_def domain_points_def)

lemma dkg_wf_domain: "dkg_wf A d \<Longrightarrow> dom_new A (length (validators d)) = Some (domain d)"
  by (simp add: dkg_wf_def)

lemma dkg_wf_me:
  "dkg_wf A d \<Longrightarrow> i < length (validators d) \<Longrightarrow> dkg_wf A (d\<lparr> me := snd (validators d ! i) \<rparr>)"
  using dkg_wf_lookup[of A d "of_nat i"] dkg_wf_nth(2,3)[of A d i]
  by (auto simp: dkg_wf_def)

context session begin

lemma dealt_shares_replaced:
  assumes "dkg_wf A d'" "i < length (validators d)" "validators d' = (validators d)[i := (k, v)]"
  shows "domain d' = domain d" "dealt_shares E A d' cs = (dealt_shares E A d cs)[i :=
      g2_mul E (encryption_key (v_public_key v)) (peval cs (domain_points A d ! i))]"
proof -
  have "Some (domain d') = Some (domain d)"
    using dkg_wf_domain[OF assms(1)] dom by (simp add: assms(3))
  then show dm: "domain d' = domain d" by simp
  then show "dealt_shares E A d' cs = (dealt_shares E A d cs)[i :=
      g2_mul E (encryption_key (v_public_key v)) (peval cs (domain_points A d ! i))]"
    using assms(2,3) by (intro nth_equalityI)
      (auto simp: dealt_shares_def domain_points_def nth_list_update split: prod.splits)
qed

text \<open>A refresh with generated updates returns, and the new shares hold the same secret.\<close>

lemma generated_updates_refresh:
  assumes "rand_laws R" "session_keys d keys" "shares p = dealt_shares E A d cs"
    and "length cs = unat (security_threshold (params d))" "length cs \<le> length (dom_elements A (domain d))"
    and "list_all (\<lambda>(_, ut). \<exists>m rng rng'.
        api_generate_refresh_transcript E A R (d\<lparr> me := m \<rparr>) rng = (Ok ut, rng')) uts"
  obtains cs' where "length cs' = length cs" "peval cs' 0 = peval cs 0"
    "refresh E A p uts keys = Ok (p\<lparr> shares := dealt_shares E A d cs' \<rparr>)"
proof -
  have "list_all (\<lambda>(_, ut). verify_refresh E A ut keys (domain d) = Ok True \<and> length (ut_coeffs ut) = length cs \<and>
      set (map of_nat [0..<length (validators d)]) \<subseteq> fst ` set (ut_updates ut)) uts"
    using assms(6)
  proof (rule list.pred_mono_strong, clarify)
    fix i ut m rng rng'
    assume "api_generate_refresh_transcript E A R (d\<lparr> me := m \<rparr>) rng = (Ok ut, rng')"
    then show "verify_refresh E A ut keys (domain d) = Ok True \<and> length (ut_coeffs ut) = length cs \<and>
      set (map of_nat [0..<length (validators d)]) \<subseteq> fst ` set (ut_updates ut)"
      using generated_refresh_verifies[OF session_axioms assms(1,2), of rng] assms(4,5)
      by (auto simp: api_generate_refresh_transcript_def generate_refresh_transcript_me)
  qed
  from refresh_dealt[OF assms(2,3,5) this] show ?thesis using that by (cases p) auto
qed

lemma honest_baton:
  assumes "shares (aggregate_pvss agg) = dealt_shares E A d cs" "map_of (validators d) i = Some departing"
    and "keypair_public_key E kp = v_public_key departing"
    and "generate_handover_transcript E R d agg i incoming rng = (Ok ho, rng')"
  shows "unat i < length (validators d)" "ho_share_index ho = i" "decryption_key kp \<noteq> 0"
    "g2_mul E (double_blind_share ho) (inverse (decryption_key kp)) =
      g2_mul E (encryption_key (keypair_public_key E incoming)) (peval cs (domain_points A d ! unat i))"
proof -
  show i: "unat i < length (validators d)" using assms(2) by (simp add: dkg_wf_lookup[OF wf] split: if_splits)
  have key: "keypair_public_key E kp = v_public_key (snd (validators d ! unat i))"
    using assms(2,3) i by (simp add: dkg_wf_lookup[OF wf])
  show nz: "decryption_key kp \<noteq> 0" by (rule validator_key(1)[OF i key])
  from assms(1) i key show "ho_share_index ho = i"
    by (rule handover_generated[where R = R and rng = rng and agg = agg and incoming = incoming]) (use assms(4) in auto)
  from assms(1) i key show "g2_mul E (double_blind_share ho) (inverse (decryption_key kp)) =
      g2_mul E (encryption_key (keypair_public_key E incoming)) (peval cs (domain_points A d ! unat i))"
    by (rule handover_generated[where R = R and rng = rng and agg = agg and incoming = incoming])
      (use assms(4) nz in \<open>auto simp: keypair_public_key_def g2.mul_mul field_simps\<close>)
qed

text \<open>Any \<open>threshold\<close> of the current key holders, each with its own context, make shares that combine.\<close>

lemma api_shares_combine:
  assumes "take (length (validators d)) (shares (aggregate_pvss agg)) = dealt_shares E A d cs"
    and "distinct is" "list_all (\<lambda>i :: u32. unat i < length (validators d)) is" "length cs \<le> length is"
    and "list_all (\<lambda>i. keypair_public_key E (kps i) = v_public_key (snd (validators d ! unat i))) is"
    and "header_check C E h aad = Ok True"
  shows "\<exists>ss. try_map (\<lambda>i. api_create_decryption_share_simple C E A agg
      (d\<lparr> me := snd (validators d ! unat i) \<rparr>) h aad (kps i)) is = Ok ss \<and>
    combine_shares_simple E ss =
      SharedSecret (pair E (hdr_commitment h) (g2_mul E (g2_generator E) (peval cs 0)))"
proof -
  obtain ss where ss: "try_map (\<lambda>i. api_create_decryption_share_simple C E A agg
      (d\<lparr> me := snd (validators d ! unat i) \<rparr>) h aad (kps i)) is = Ok ss" "evaluations E (hdr_commitment h) cs ss"
    "map api_domain_point ss = map (\<lambda>i. domain_points A d ! unat i) is"
    by (rule created_evaluations[OF assms(1-3,5,6)])
  moreover have "length cs \<le> length ss" using assms(4) arg_cong[OF ss(3), of length] by simp
  ultimately show ?thesis using combine_evaluations by blast
qed

end

section \<open>The invariant is kept\<close>

text \<open>A step starts from the session of the state's context.\<close>

lemma shares_secret_session:
  "pairing_laws E \<Longrightarrow> domain_laws (g1_mul E) A \<Longrightarrow> shares_secret E A t x s \<Longrightarrow> session E A (rs_dkg s)"
  by (simp add: shares_secret_def session_def session_axioms_def)

lemma shares_secret_refreshed:
  assumes "session E A (rs_dkg s)" "rand_laws R" "shares_secret E A t x s" "session_keys (rs_dkg s) keys"
    and "list_all (\<lambda>(_, ut). \<exists>m rng rng'.
        api_generate_refresh_transcript E A R ((rs_dkg s)\<lparr> me := m \<rparr>) rng = (Ok ut, rng')) uts"
  shows "\<exists>agg. api_refresh E A (rs_aggregate s) uts keys = Ok agg \<and> shares_secret E A t x (s\<lparr> rs_aggregate := agg \<rparr>)"
proof -
  let ?p = "aggregate_pvss (rs_aggregate s)"
  obtain cs where cs: "shares ?p = dealt_shares E A (rs_dkg s) cs" "length cs = unat t" "peval cs 0 = x"
    and t: "security_threshold (params (rs_dkg s)) = t" "unat t \<le> length (dom_elements A (domain (rs_dkg s)))"
    and ne: "coeffs ?p \<noteq> []"
    using assms(3) unfolding shares_secret_def by blast
  have "length cs = unat (security_threshold (params (rs_dkg s)))"
    "length cs \<le> length (dom_elements A (domain (rs_dkg s)))" using cs t by simp_all
  from session.generated_updates_refresh[OF assms(1,2,4) cs(1) this assms(5)]
  obtain cs' where cs': "length cs' = length cs" "peval cs' 0 = peval cs 0"
    "refresh E A ?p uts keys = Ok (?p\<lparr> shares := dealt_shares E A (rs_dkg s) cs' \<rparr>)" by blast
  then have "api_refresh E A (rs_aggregate s) uts keys =
      Ok \<lparr> aggregate_pvss = ?p\<lparr> shares := dealt_shares E A (rs_dkg s) cs' \<rparr>, agg_public_key = DkgPublicKey (hd (coeffs ?p)) \<rparr>"
    using ne by (simp add: api_refresh_def from_aggregate_Ok)
  then show ?thesis using assms(3) cs cs' by (auto simp: shares_secret_def)
qed

lemma shares_secret_handed_over:
  assumes "session E A (rs_dkg s)" "shares_secret E A t x s"
    and "api_generate_handover_transcript E R (rs_dkg s) (rs_aggregate s) i incoming rng = (Ok ho, rng')"
    and "map_of (validators (rs_dkg s)) i = Some departing" "keypair_public_key E kp = v_public_key departing"
    and "api_finalize_handover E A (rs_aggregate s) ho kp = Ok agg"
    and "dkg_new A vs (params (rs_dkg s)) self = Ok d"
    and "validators d = (validators (rs_dkg s))[unat i := (i, v)]"
    and "v_public_key v = keypair_public_key E incoming"
  shows "shares_secret E A t x \<lparr> rs_dkg = d, rs_aggregate = agg \<rparr>"
proof -
  let ?p = "aggregate_pvss (rs_aggregate s)"
  obtain cs where cs: "shares ?p = dealt_shares E A (rs_dkg s) cs" "length cs = unat t" "peval cs 0 = x"
    and ne: "coeffs ?p \<noteq> []"
    using assms(2) unfolding shares_secret_def by blast
  note baton = session.honest_baton[OF assms(1) cs(1) assms(4,5)
      assms(3)[unfolded api_generate_handover_transcript_def]]
  obtain q where q: "finalize_handover E A ?p ho kp = Ok q" "from_aggregate q = Ok agg"
    using assms(6) by (auto simp: api_finalize_handover_def outcome_simps)
  note wf' = dkg_new_invariant(1,3)[OF assms(7)]
  note repl = session.dealt_shares_replaced[OF assms(1) wf'(1) baton(1) assms(8)]
  have q': "q = ?p\<lparr> shares := dealt_shares E A d cs \<rparr>"
    using finalize_handover_Ok(2)[OF q(1)] by (simp add: cs(1) baton(2,4) repl(2) assms(9))
  then have "agg = \<lparr> aggregate_pvss = q, agg_public_key = DkgPublicKey (hd (coeffs ?p)) \<rparr>"
    using q(2) ne by (simp add: from_aggregate_Ok)
  then show ?thesis using assms(2) wf' cs by (auto simp: shares_secret_def q' repl(1))
qed

lemma shares_secret_rejoined:
  assumes "shares_secret E A t x s" "dkg_new A vs (params (rs_dkg s)) self = Ok d" "validators d = validators (rs_dkg s)"
  shows "shares_secret E A t x (s\<lparr> rs_dkg := d \<rparr>)"
proof -
  note wf' = dkg_new_invariant(1,3)[OF assms(2)]
  have "Some (domain d) = Some (domain (rs_dkg s))"
    using dkg_wf_domain[OF wf'(1)] assms(1,3) by (simp add: shares_secret_def dkg_wf_domain)
  then have "domain d = domain (rs_dkg s)" by simp
  then show ?thesis
    using assms wf' dealt_shares_cong[OF assms(3), where E = E and A = A] by (auto simp: shares_secret_def)
qed

lemma shares_secret_step:
  assumes "pairing_laws E" "domain_laws (g1_mul E) A" "rand_laws R"
    and "shares_secret E A t x s" "ritual_step E A R s s'"
  shows "shares_secret E A t x s'"
  using assms(5)
proof cases
  case (refreshed keys uts agg)
  then show ?thesis
    using shares_secret_refreshed[OF shares_secret_session[OF assms(1,2,4)] assms(3,4)] by fastforce
next
  case (handed_over i incoming rng ho rng' departing kp agg vs self d v)
  show ?thesis unfolding handed_over(1)
    by (rule shares_secret_handed_over[OF shares_secret_session[OF assms(1,2,4)] assms(4) handed_over(2-)])
next
  case (rejoined vs self d)
  then show ?thesis using shares_secret_rejoined[OF assms(4)] by blast
qed

lemma shares_secret_reachable:
  assumes "(ritual_step E A R)\<^sup>*\<^sup>* s s'"
    and "pairing_laws E" "domain_laws (g1_mul E) A" "rand_laws R" "shares_secret E A t x s"
  shows "shares_secret E A t x s'"
  using assms(1)
proof (induction rule: rtranclp_induct)
  case base
  show ?case by (rule assms(5))
next
  case (step s' s'')
  show ?case by (rule shares_secret_step[OF assms(2-4) step.IH step.hyps(2)])
qed

text \<open>A verified aggregate of the session's size starts a life.\<close>

lemma aggregated_proof:
  assumes "pairing_laws E" "api_aggregate_transcripts E d msgs = Ok agg"
  obtains x Fs where "coeffs (aggregate_pvss agg) = g1_mul E (g1_generator E) x # Fs"
    "sigma (aggregate_pvss agg) = g2_mul E (g2_generator E) x"
    "agg_public_key agg = DkgPublicKey (g1_mul E (g1_generator E) x)"
proof -
  let ?ts = "map snd msgs" and ?p = "aggregate_pvss agg"
  have ok: "verify_transcripts E d msgs = Ok ()" "from_transcripts ?ts = Ok agg"
    using assms(2) by (simp_all add: api_aggregate_transcripts_def aggregate_transcripts_def outcome_simps)
  then have "list_all (verify_optimistic E) ?ts" by (auto simp: verify_transcripts_Ok list_all_iff)
  then obtain x where x: "(\<Sum>p\<leftarrow>?ts. coeffs p ! 0) = g1_mul E (g1_generator E) x"
    "(\<Sum>p\<leftarrow>?ts. sigma p) = g2_mul E (g2_generator E) x" by (rule optimistic_sum[OF assms(1)])
  obtain F Fs where F: "aggregate ?ts = Ok ?p" "coeffs ?p = F # Fs" "agg_public_key agg = DkgPublicKey F"
    using ok(2) by (auto simp: from_transcripts_Ok)
  obtain n m where p: "?p = sum_transcripts n m ?ts" using F(1) by (auto simp: aggregate_iff)
  have "n > 0" using F(2) by (cases n) (simp_all add: p sum_transcripts_def)
  then have "coeffs ?p ! 0 = (\<Sum>p\<leftarrow>?ts. coeffs p ! 0)" "sigma ?p = (\<Sum>p\<leftarrow>?ts. sigma p)"
    by (simp_all add: p sum_transcripts_def)
  with F x that[of x Fs] show ?thesis by simp
qed

lemma aggregated_shares_secret:
  assumes "session E A d" "unat (security_threshold (params d)) \<le> length (dom_elements A (domain d))"
    and "api_aggregate_transcripts E d msgs = Ok agg" "verify_full E A (aggregate_pvss agg) d = Ok True"
    and "length (shares (aggregate_pvss agg)) = length (validators d)"
  obtains x where "shares_secret E A (security_threshold (params d)) x \<lparr> rs_dkg = d, rs_aggregate = agg \<rparr>" "x \<noteq> 0"
proof -
  let ?p = "aggregate_pvss agg"
  have E: "pairing_laws E" using assms(1) by (simp add: session_def)
  then have c: "cyclic_action (g1_mul E) (g1_generator E)" "scalar_action (g1_mul E)"
    by (simp_all add: pairing_laws_def cyclic_action_def)
  obtain x Fs where x: "coeffs ?p = g1_mul E (g1_generator E) x # Fs" "sigma ?p = g2_mul E (g2_generator E) x"
    "agg_public_key agg = DkgPublicKey (g1_mul E (g1_generator E) x)"
    using E assms(3) by (rule aggregated_proof)
  have "hd (coeffs ?p) \<noteq> 0"
    using assms(4) by (simp add: verify_full_def do_verify_full_True[OF session.threshold_pos[OF assms(1)]])
  then have nz: "x \<noteq> 0" using x(1) scalar_action.mul_zero[OF c(2)] by auto
  show ?thesis
    using assms(1,2,4)
  proof (rule session.verified_polynomial)
    fix cs assume "length cs = unat (security_threshold (params d))"
      "take (length (validators d)) (shares ?p) = dealt_shares E A d cs"
      and F0: "hd (coeffs ?p) = g1_mul E (g1_generator E) (peval cs 0)"
    moreover have "peval cs 0 = x" using F0 x(1) cyclic_action.gen_inj[OF c(1)] by auto
    ultimately have "shares_secret E A (security_threshold (params d)) x \<lparr> rs_dkg = d, rs_aggregate = agg \<rparr>"
      using assms(2,5) x session.wf[OF assms(1)] by (auto simp: shares_secret_def)
    then show ?thesis using nz by (rule that)
  qed
qed

section \<open>Properties\<close>

text \<open>
  C3: the life of a ritual.  Let an aggregate come out of a session's messages and pass full
  verification, and let a message be encrypted to its public key.  After any history of refreshes
  with the participants' updates, handovers to incoming validators and new contexts, the aggregate
  carries the same public key and a valid proof of its secret, and any \<open>threshold\<close> or more of the
  validators of that moment, each with its own context and current key, create shares that combine
  to the secret that decrypts the message.\<close>

theorem lifecycle_decrypts:
  assumes "session E A d" "crypto_laws C" "rand_laws R"
    and "unat (security_threshold (params d)) \<le> length (dom_elements A (domain d))"
    and "api_aggregate_transcripts E d msgs = Ok agg" "verify_full E A (aggregate_pvss agg) d = Ok True"
    and "length (shares (aggregate_pvss agg)) = length (validators d)"
    and "api_encrypt C E R' rng message aad (api_public_key agg) = Ok ct"
    and "ct_commitment ct \<noteq> 0" "ct_auth_tag ct \<noteq> 0" "api_ciphertext_header C ct = Ok h"
    and "(ritual_step E A R)\<^sup>*\<^sup>* \<lparr> rs_dkg = d, rs_aggregate = agg \<rparr> \<lparr> rs_dkg = d', rs_aggregate = agg' \<rparr>"
    and "distinct is" "list_all (\<lambda>i :: u32. unat i < length (validators d')) is"
    and "unat (security_threshold (params d)) \<le> length is"
    and "list_all (\<lambda>i. keypair_public_key E (kps i) = v_public_key (snd (validators d' ! unat i))) is"
  shows "api_public_key agg' = api_public_key agg \<and> verify_optimistic E (aggregate_pvss agg') \<and>
    (\<exists>ss. try_map (\<lambda>i. api_create_decryption_share_simple C E A agg'
        (d'\<lparr> me := snd (validators d' ! unat i) \<rparr>) h aad (kps i)) is = Ok ss \<and>
      api_decrypt_with_shared_secret C E ct aad (combine_shares_simple E ss) = Ok message)"
proof -
  let ?t = "security_threshold (params d)"
  have laws: "pairing_laws E" "domain_laws (g1_mul E) A" using assms(1) by (simp_all add: session_def)
  then have scheme: "tdec_scheme C E" using assms(2) by (simp add: tdec_scheme.intro)
  obtain x where x: "shares_secret E A ?t x \<lparr> rs_dkg = d, rs_aggregate = agg \<rparr>" "x \<noteq> 0"
    using assms(1,4-7) by (rule aggregated_shares_secret)
  note inv = shares_secret_reachable[OF assms(12) laws assms(3) x(1)]
  have pk: "agg_public_key agg' = agg_public_key agg" "agg_public_key agg = DkgPublicKey (g1_mul E (g1_generator E) x)"
    using x(1) inv by (simp_all add: shares_secret_def)
  obtain rng' where enc: "encrypt C E R' message aad (DkgPublicKey (g1_mul E (g1_generator E) x)) rng = (Ok ct, rng')"
    using assms(8) by (cases "encrypt C E R' message aad (agg_public_key agg) rng")
      (auto simp: api_encrypt_def api_public_key_def pk(2) outcome_simps)
  have h: "ct_header C ct = Ok h" "hdr_commitment h = ct_commitment ct"
    using assms(11) by (auto simp: api_ciphertext_header_def outcome_simps ct_header_def)
  have check: "header_check C E h aad = Ok True"
    using tdec_scheme.encrypt_check[OF scheme enc assms(9,10)] h(1) by (simp add: ciphertext_check_def)
  obtain cs where cs: "shares (aggregate_pvss agg') = dealt_shares E A d' cs" "length cs = unat ?t" "peval cs 0 = x"
    using inv by (auto simp: shares_secret_def)
  have s': "session E A d'" using shares_secret_session[OF laws inv] by simp
  have "take (length (validators d')) (shares (aggregate_pvss agg')) = dealt_shares E A d' cs"
    using session.length_dealt_shares[OF s', of cs] by (simp add: cs(1))
  from session.api_shares_combine[OF s' this assms(13,14) _ assms(16) check] assms(15) cs(2,3)
  obtain ss where "try_map (\<lambda>i. api_create_decryption_share_simple C E A agg'
        (d'\<lparr> me := snd (validators d' ! unat i) \<rparr>) h aad (kps i)) is = Ok ss"
    "combine_shares_simple E ss = SharedSecret (pair E (hdr_commitment h) (g2_mul E (g2_generator E) x))" by auto
  moreover have "api_decrypt_with_shared_secret C E ct aad
      (SharedSecret (pair E (ct_commitment ct) (g2_mul E (g2_generator E) x))) = Ok message"
    using tdec_scheme.encrypt_secret[OF scheme enc assms(9,10)] by (simp add: api_decrypt_with_shared_secret_def)
  moreover have "verify_optimistic E (aggregate_pvss agg')"
    unfolding pairing_laws.verify_optimistic_iff[OF laws(1)] using inv x(2)
    by (auto simp: shares_secret_def neq_Nil_conv)
  ultimately show ?thesis by (auto simp: api_public_key_def pk(1) h(2))
qed

text \<open>A life: slot 2 is handed over to the key 11, then all shares are refreshed.\<close>

definition sample_incoming :: "f17 keypair" where
  "sample_incoming = \<lparr> decryption_key = 11 \<rparr>"

definition sample_successor :: "f17 validator" where
  "sample_successor = \<lparr> v_address = EthereumAddress [9], v_public_key = keypair_public_key E17 sample_incoming,
     v_share_index = 2 \<rparr>"

definition sample_dkg2 :: "(f17, f17 list) dkg" where
  "sample_dkg2 = sample_dkg\<lparr> validators := (validators sample_dkg)[2 := (2, sample_successor)], me := sample_successor \<rparr>"

definition sample_baton :: "(f17, f17) handover_transcript" where
  "sample_baton = (case fst (api_generate_handover_transcript E17 R17 sample_dkg sample_agg 2 sample_incoming 0) of Ok ho \<Rightarrow> ho)"

definition sample_agg2 :: "(f17, f17) aggregated_transcript" where
  "sample_agg2 = (case api_finalize_handover E17 A17 sample_agg sample_baton (sample_keypair 2) of Ok agg \<Rightarrow> agg)"

definition sample_update2 :: "(f17, f17) update_transcript" where
  "sample_update2 = (case fst (api_generate_refresh_transcript E17 A17 R17 sample_dkg2 0) of Ok ut \<Rightarrow> ut)"

definition sample_key_map2 :: "(u32, f17 public_key) hash_map" where
  "sample_key_map2 = map (\<lambda>(i, v). (i, v_public_key v)) (validators sample_dkg2)"

definition sample_agg3 :: "(f17, f17) aggregated_transcript" where
  "sample_agg3 = (case api_refresh E17 A17 sample_agg2 [(0, sample_update2)] sample_key_map2 of Ok agg \<Rightarrow> agg)"

definition sample_keys2 :: "u32 \<Rightarrow> f17 keypair" where
  "sample_keys2 i = (if i = 2 then sample_incoming else sample_keypair (unat i))"

lemma sample_handover:
  "ritual_step E17 A17 R17 \<lparr> rs_dkg = sample_dkg, rs_aggregate = sample_agg \<rparr>
     \<lparr> rs_dkg = sample_dkg2, rs_aggregate = sample_agg2 \<rparr>"
proof (rule handed_over)
  show "api_generate_handover_transcript E17 R17 (rs_dkg \<lparr> rs_dkg = sample_dkg, rs_aggregate = sample_agg \<rparr>)
      (rs_aggregate \<lparr> rs_dkg = sample_dkg, rs_aggregate = sample_agg \<rparr>) 2 sample_incoming 0 = (Ok sample_baton, 1)"
    "map_of (validators (rs_dkg \<lparr> rs_dkg = sample_dkg, rs_aggregate = sample_agg \<rparr>)) 2 = Some (sample_validator 2)"
    "keypair_public_key E17 (sample_keypair 2) = v_public_key (sample_validator 2)"
    "api_finalize_handover E17 A17 (rs_aggregate \<lparr> rs_dkg = sample_dkg, rs_aggregate = sample_agg \<rparr>)
      sample_baton (sample_keypair 2) = Ok sample_agg2"
    "dkg_new A17 [sample_validator 0, sample_validator 1, sample_successor, sample_validator 3]
      (params (rs_dkg \<lparr> rs_dkg = sample_dkg, rs_aggregate = sample_agg \<rparr>)) sample_successor = Ok sample_dkg2"
    "validators sample_dkg2 = (validators (rs_dkg \<lparr> rs_dkg = sample_dkg, rs_aggregate = sample_agg \<rparr>))
      [unat (2 :: u32) := (2, sample_successor)]"
    "v_public_key sample_successor = keypair_public_key E17 sample_incoming"
    by code_simp+
qed

lemma sample_started:
  "api_aggregate_transcripts E17 sample_dkg [(sample_validator 0, sample_pvss)] = Ok sample_agg"
  "verify_full E17 A17 (aggregate_pvss sample_agg) sample_dkg = Ok True"
  "length (shares (aggregate_pvss sample_agg)) = length (validators sample_dkg)"
  by code_simp+

lemma sample_updates:
  "session_keys (rs_dkg \<lparr> rs_dkg = sample_dkg2, rs_aggregate = sample_agg2 \<rparr>) sample_key_map2"
  "list_all (\<lambda>(_, ut). \<exists>m rng rng'. api_generate_refresh_transcript E17 A17 R17
      ((rs_dkg \<lparr> rs_dkg = sample_dkg2, rs_aggregate = sample_agg2 \<rparr>)\<lparr> me := m \<rparr>) rng = (Ok ut, rng'))
      [(0, sample_update2)]"
proof -
  show "session_keys (rs_dkg \<lparr> rs_dkg = sample_dkg2, rs_aggregate = sample_agg2 \<rparr>) sample_key_map2"
    by (rule session_keys_list) code_simp
  have "api_generate_refresh_transcript E17 A17 R17 (sample_dkg2\<lparr> me := sample_successor \<rparr>) 0 = (Ok sample_update2, 3)"
    by code_simp
  then show "list_all (\<lambda>(_, ut). \<exists>m rng rng'. api_generate_refresh_transcript E17 A17 R17
      ((rs_dkg \<lparr> rs_dkg = sample_dkg2, rs_aggregate = sample_agg2 \<rparr>)\<lparr> me := m \<rparr>) rng = (Ok ut, rng'))
      [(0, sample_update2)]" by auto
qed

lemma sample_refresh:
  "ritual_step E17 A17 R17 \<lparr> rs_dkg = sample_dkg2, rs_aggregate = sample_agg2 \<rparr>
     (\<lparr> rs_dkg = sample_dkg2, rs_aggregate = sample_agg2 \<rparr>\<lparr> rs_aggregate := sample_agg3 \<rparr>)"
  using sample_updates by (rule refreshed) code_simp

theorem lifecycle_decrypts_witness:
  "api_public_key sample_agg3 = api_public_key sample_agg \<and> verify_optimistic E17 (aggregate_pvss sample_agg3) \<and>
    (\<exists>ss. try_map (\<lambda>i. api_create_decryption_share_simple C17 E17 A17 sample_agg3
        (sample_dkg2\<lparr> me := snd (validators sample_dkg2 ! unat i) \<rparr>) sample_header [1] (sample_keys2 i)) [3, 0, 2] = Ok ss \<and>
      api_decrypt_with_shared_secret C17 E17 sample_ct [1] (combine_shares_simple E17 ss) = Ok [10, 20])"
proof (rule lifecycle_decrypts[OF session17.session_axioms c17.crypto_laws_axioms r17.rand_laws_axioms sample_threshold
      sample_started])
  show "api_encrypt C17 E17 R17 2 [10, 20] [1] (api_public_key sample_agg) = Ok sample_ct"
    using sample_encrypted(1) by (simp add: api_encrypt_def api_public_key_def)
  show "api_ciphertext_header C17 sample_ct = Ok sample_header"
    using sample_encrypted(2) by (simp add: api_ciphertext_header_def)
  show "(ritual_step E17 A17 R17)\<^sup>*\<^sup>* \<lparr> rs_dkg = sample_dkg, rs_aggregate = sample_agg \<rparr>
      \<lparr> rs_dkg = sample_dkg2, rs_aggregate = sample_agg3 \<rparr>"
    using sample_handover sample_refresh by (auto intro: converse_rtranclp_into_rtranclp)
  show "distinct [3 :: u32, 0, 2]" "list_all (\<lambda>i. unat i < length (validators sample_dkg2)) [3 :: u32, 0, 2]"
    "unat (security_threshold (params sample_dkg)) \<le> length [3 :: u32, 0, 2]"
    "list_all (\<lambda>i. keypair_public_key E17 (sample_keys2 i) = v_public_key (snd (validators sample_dkg2 ! unat i))) [3, 0, 2]"
    by code_simp+
qed (rule sample_ct_ok(2,3))+

text \<open>
  C20: a ritual never gets stuck on refreshing.  After any history, every participant's update
  transcript is generated without error, whatever its generator's state, and refreshing the current
  aggregate with any such updates returns an aggregate, which is again a state of the ritual.\<close>

theorem lifecycle_progress:
  assumes "session E A d" "rand_laws R"
    and "unat (security_threshold (params d)) \<le> length (dom_elements A (domain d))"
    and "api_aggregate_transcripts E d msgs = Ok agg" "verify_full E A (aggregate_pvss agg) d = Ok True"
    and "length (shares (aggregate_pvss agg)) = length (validators d)"
    and "(ritual_step E A R)\<^sup>*\<^sup>* \<lparr> rs_dkg = d, rs_aggregate = agg \<rparr> s"
    and "session_keys (rs_dkg s) keys"
    and "list_all (\<lambda>(_, ut). \<exists>m rng rng'.
        api_generate_refresh_transcript E A R ((rs_dkg s)\<lparr> me := m \<rparr>) rng = (Ok ut, rng')) uts"
  shows "(\<forall>m rng. is_ok (fst (api_generate_refresh_transcript E A R ((rs_dkg s)\<lparr> me := m \<rparr>) rng))) \<and>
    (\<exists>agg'. api_refresh E A (rs_aggregate s) uts keys = Ok agg' \<and>
      (ritual_step E A R)\<^sup>*\<^sup>* \<lparr> rs_dkg = d, rs_aggregate = agg \<rparr> (s\<lparr> rs_aggregate := agg' \<rparr>))"
proof
  have laws: "pairing_laws E" "domain_laws (g1_mul E) A" using assms(1) by (simp_all add: session_def)
  obtain x where x: "shares_secret E A (security_threshold (params d)) x \<lparr> rs_dkg = d, rs_aggregate = agg \<rparr>"
    using assms(1,3-6) by (rule aggregated_shares_secret)
  note inv = shares_secret_reachable[OF assms(7) laws assms(2) x]
  have s: "session E A (rs_dkg s)" by (rule shares_secret_session[OF laws inv])
  show "\<forall>m rng. is_ok (fst (api_generate_refresh_transcript E A R ((rs_dkg s)\<lparr> me := m \<rparr>) rng))"
  proof (intro allI)
    fix m rng
    from s assms(2) show "is_ok (fst (api_generate_refresh_transcript E A R ((rs_dkg s)\<lparr> me := m \<rparr>) rng))"
      by (rule session.refresh_transcript_generated[where rng = rng])
        (simp add: api_generate_refresh_transcript_def generate_refresh_transcript_me)
  qed
  from shares_secret_refreshed[OF s assms(2) inv assms(8,9)] obtain agg' where
    agg': "api_refresh E A (rs_aggregate s) uts keys = Ok agg'" by blast
  from refreshed[OF assms(8,9) this] assms(7) have
    "(ritual_step E A R)\<^sup>*\<^sup>* \<lparr> rs_dkg = d, rs_aggregate = agg \<rparr> (s\<lparr> rs_aggregate := agg' \<rparr>)" by simp
  with agg' show "\<exists>agg'. api_refresh E A (rs_aggregate s) uts keys = Ok agg' \<and>
      (ritual_step E A R)\<^sup>*\<^sup>* \<lparr> rs_dkg = d, rs_aggregate = agg \<rparr> (s\<lparr> rs_aggregate := agg' \<rparr>)" by blast
qed

theorem lifecycle_progress_witness:
  "\<exists>agg'. api_refresh E17 A17 sample_agg2 [(0, sample_update2)] sample_key_map2 = Ok agg' \<and>
    (ritual_step E17 A17 R17)\<^sup>*\<^sup>* \<lparr> rs_dkg = sample_dkg, rs_aggregate = sample_agg \<rparr>
      \<lparr> rs_dkg = sample_dkg2, rs_aggregate = agg' \<rparr>"
proof -
  have "(ritual_step E17 A17 R17)\<^sup>*\<^sup>* \<lparr> rs_dkg = sample_dkg, rs_aggregate = sample_agg \<rparr>
      \<lparr> rs_dkg = sample_dkg2, rs_aggregate = sample_agg2 \<rparr>" using sample_handover by simp
  from lifecycle_progress[OF session17.session_axioms r17.rand_laws_axioms sample_threshold sample_started
      this sample_updates]
  show ?thesis by simp
qed

end
