(* ===== verification/Gaps.thy ===== *)
theory Gaps
  imports Lifecycle
begin

text \<open>
  What the \<open>experimental-refresh\<close> operations leave open, as \<open>docs/refresh-handover-roadmap.md\<close> asks:
  what updating the commitments on refresh would repair, what happens to a handover after a refresh,
  and what the checks of a handover bind.
\<close>

section \<open>Supporting facts\<close>

lemma foldl_map2_map:
  assumes "\<And>x y. h (x + y) = h x + h y" "list_all (\<lambda>ds. length ds = length cs) dss"
  shows "foldl (map2 (+)) (map h cs) (map (map h) dss) = map h (foldl (map2 (+)) cs dss)"
  using assms(2)
proof (induction dss arbitrary: cs)
  case (Cons ds dss)
  have "map2 (+) (map h cs) (map h ds) = map h (map2 (+) cs ds)"
    using Cons.prems assms(1) by (intro nth_equalityI) simp_all
  moreover have "list_all (\<lambda>es. length es = length (map2 (+) cs ds)) dss" using Cons.prems by simp
  ultimately show ?case using Cons.IH[of "map2 (+) cs ds"] by simp
qed simp

context session begin

lemma updated_commitments:
  assumes "list_all2 (\<lambda>(_, ut). deals_update E A d (length cs) ut) uts dss"
    and "list_all (\<lambda>ds. length ds = length cs) dss"
  shows "foldl (map2 (+)) (map (g1_mul E (g1_generator E)) cs) (map (ut_coeffs \<circ> snd) uts) =
    map (g1_mul E (g1_generator E)) (sum_polys cs dss)"
proof -
  have "map (ut_coeffs \<circ> snd) uts = map (map (g1_mul E (g1_generator E))) dss"
    using assms(1) by (induction rule: list_all2_induct) (auto simp: deals_update_def)
  then show ?thesis
    using foldl_map2_map[of "g1_mul E (g1_generator E)", OF g1.mul_add_right assms(2)] by (simp add: sum_polys_def)
qed

text \<open>A baton for a share that the commitments do not commit to is refused by a panic.\<close>

lemma stale_baton_panics:
  assumes "coeffs p = map (g1_mul E (g1_generator E)) cs" "length cs \<le> length (dom_elements A (domain d))"
    and "length (shares p) = length (validators d)" "unat (ho_share_index ho) < length (validators d)"
    and "outgoing_pubkey ho = keypair_public_key E kp" "decryption_key kp \<noteq> 0"
    and "double_blind_share ho = g2_mul E (g2_generator E) (y * b * b')"
    and "commitment_to_share ho = g2_mul E (g2_generator E) (b * (b' * c))"
    and "commitment_to_g1 ho = g1_mul E (g1_generator E) c"
    and "b \<noteq> 0" "b' \<noteq> 0" "c \<noteq> 0" "y \<noteq> peval cs (domain_points A d ! unat (ho_share_index ho))"
  shows "finalize_handover E A p ho kp = Panic"
proof -
  let ?i = "unat (ho_share_index ho)" and ?y = "peval cs (domain_points A d ! unat (ho_share_index ho))"
  have i: "?i < length (dom_elements A (domain d))" using assms(4) dm.dom_size[OF dom] by simp
  have fft: "dom_fft A (domain d) (coeffs p) =
      map (\<lambda>x. g1_mul E (g1_generator E) (peval cs x)) (dom_elements A (domain d))"
    using assms(2) dm.fft_eval[OF dom] by (simp add: assms(1) g1.gpeval_map_mul)
  have "y * b * b' * c = b * (b' * c) * ?y \<longleftrightarrow> y = ?y" using assms(10-12) by (simp add: field_simps)
  then have "handover_validate E ho (ShareCommitment (g1_mul E (g1_generator E) ?y)) \<noteq> Ok True"
    unfolding handover_validate_iff[OF assms(9)] assms(7,8) using assms(13) by (simp add: g2.mul_mul)
  then have "handover_validate E ho (ShareCommitment (g1_mul E (g1_generator E) ?y)) = Err InvalidShareUpdate"
    by (auto simp: handover_validate_def Let_def split: if_splits)
  then show ?thesis
    using assms(2-6) i by (simp add: finalize_handover_def get_share_commitments_from_poly_commitments_def
        fft dom slice_get_def nth_domain_points handover_finalize_def Let_def)
qed

end

lemma verify_full_exact:
  assumes "session E A d" "unat (security_threshold (params d)) \<le> length (dom_elements A (domain d))"
    and "verify_full E A p d = Ok True" "length (shares p) = length (validators d)"
  obtains cs where "length cs = unat (security_threshold (params d))" "hd cs \<noteq> 0" "last cs \<noteq> 0" "cs \<noteq> []"
    "coeffs p = map (g1_mul E (g1_generator E)) cs" "shares p = dealt_shares E A d cs"
  using assms(3,4) that session.threshold_pos[OF assms(1)]
  unfolding session.verify_full_iff[OF assms(1,2)] by fastforce

section \<open>Properties\<close>

text \<open>
  C25: what refreshing does to verifiability.  Refreshing a verified aggregate with verified updates
  of \<open>threshold\<close> commitments returns; the result passes full verification only if no share changed,
  because the commitments are kept.  If the commitments of the updates were added to them, the result
  would verify under the same public key, unless the leading coefficients happen to cancel.\<close>

theorem refresh_reverifiability:
  assumes "session E A d" "unat (security_threshold (params d)) \<le> length (dom_elements A (domain d))"
    and "session_keys d keys" "verify_full E A p d = Ok True" "length (shares p) = length (validators d)"
    and "list_all (\<lambda>(_, ut). verify_refresh E A ut keys (domain d) = Ok True \<and>
      length (ut_coeffs ut) = unat (security_threshold (params d)) \<and>
      set (map of_nat [0..<length (validators d)]) \<subseteq> fst ` set (ut_updates ut)) uts"
  shows "\<exists>q. refresh E A p uts keys = Ok q \<and> (verify_full E A q d = Ok True \<longleftrightarrow> shares q = shares p) \<and>
    (let F = foldl (map2 (+)) (coeffs p) (map (ut_coeffs \<circ> snd) uts) in
      hd F = hd (coeffs p) \<and> (verify_full E A (q\<lparr> coeffs := F \<rparr>) d = Ok True \<longleftrightarrow> last F \<noteq> 0))"
proof -
  let ?G = "g1_mul E (g1_generator E)"
  have "pairing_laws E" using assms(1) by (simp add: session_def)
  then have c: "cyclic_action (g1_mul E) (g1_generator E)" "scalar_action (g1_mul E)"
    by (simp_all add: pairing_laws_def cyclic_action_def)
  have inj: "map ?G xs = map ?G ys \<longleftrightarrow> xs = ys" "?G x = 0 \<longleftrightarrow> x = 0" for xs ys x
    using cyclic_action.gen_map_inj[OF c(1)] cyclic_action.gen_inj[OF c(1), of x 0]
    by (simp_all add: scalar_action.mul_zero[OF c(2)])
  obtain cs where cs: "length cs = unat (security_threshold (params d))" "hd cs \<noteq> 0" "last cs \<noteq> 0" "cs \<noteq> []"
    "coeffs p = map ?G cs" "shares p = dealt_shares E A d cs"
    using assms(1,2,4,5) by (rule verify_full_exact)
  obtain dss where dss: "list_all2 (\<lambda>(_, ut). deals_update E A d (length cs) ut) uts dss"
    "list_all (\<lambda>ds. length ds = length cs) dss" "peval (sum_polys cs dss) 0 = peval cs 0"
    and q: "refresh E A p uts keys =
      Ok \<lparr> coeffs = coeffs p, shares = dealt_shares E A d (sum_polys cs dss), sigma = sigma p \<rparr>"
    using session.refresh_sum[OF assms(1,3) cs(6), of uts] assms(2,6) unfolding cs(1) by blast
  let ?cs' = "sum_polys cs dss"
  have len: "length ?cs' = length cs" by (rule length_sum_polys[OF dss(2)])
  moreover from len have "?cs' \<noteq> []" using cs(4) by (metis length_0_conv)
  ultimately have len: "length ?cs' = length cs" "?cs' \<noteq> []" .
  have hd': "hd ?cs' = hd cs"
    using dss(3) cs(4) len(2) by (cases cs; cases ?cs') (simp_all add: peval_zero_point)
  have F: "foldl (map2 (+)) (coeffs p) (map (ut_coeffs \<circ> snd) uts) = map ?G ?cs'"
    unfolding cs(5) by (rule session.updated_commitments[OF assms(1) dss(1,2)])
  note iff = session.verify_full_iff[OF assms(1,2)]
  note ls = session.length_dealt_shares[OF assms(1)]
  have "verify_full E A \<lparr> coeffs = coeffs p, shares = dealt_shares E A d ?cs', sigma = sigma p \<rparr> d = Ok True
      \<longleftrightarrow> dealt_shares E A d ?cs' = shares p"
    unfolding iff using cs ls by (auto simp: inj)
  moreover have "verify_full E A \<lparr> coeffs = map ?G ?cs', shares = dealt_shares E A d ?cs', sigma = sigma p \<rparr> d = Ok True
      \<longleftrightarrow> last (map ?G ?cs') \<noteq> 0"
    unfolding iff using cs(1,2) ls len hd' by (auto simp: inj last_map)
  ultimately show ?thesis using q F hd' len(2) cs(4,5) by (simp add: Let_def hd_map)
qed

theorem refresh_reverifiability_witness:
  "\<exists>q. refresh E17 A17 sample_pvss [(0, sample_update)] sample_key_map = Ok q \<and>
    \<not> verify_full E17 A17 q sample_dkg = Ok True \<and>
    verify_full E17 A17 (q\<lparr> coeffs := map2 (+) (coeffs sample_pvss) (ut_coeffs sample_update) \<rparr>) sample_dkg = Ok True"
proof -
  have ok: "list_all (\<lambda>(_, ut). verify_refresh E17 A17 ut sample_key_map (domain sample_dkg) = Ok True \<and>
      length (ut_coeffs ut) = unat (security_threshold (params sample_dkg)) \<and>
      set (map of_nat [0..<length (validators sample_dkg)]) \<subseteq> fst ` set (ut_updates ut)) [(0 :: u32, sample_update)]"
    "length (shares sample_pvss) = length (validators sample_dkg)"
    "last (map2 (+) (coeffs sample_pvss) (ut_coeffs sample_update)) \<noteq> 0"
    "map_option shares (case refresh E17 A17 sample_pvss [(0, sample_update)] sample_key_map of Ok q \<Rightarrow> Some q | _ \<Rightarrow> None)
      \<noteq> Some (shares sample_pvss)"
    by code_simp+
  from refresh_reverifiability[OF session17.session_axioms sample_threshold sample_session_keys
      sample_pvss_verifies ok(2,1)] ok(3,4)
  show ?thesis by (auto simp: Let_def)
qed

text \<open>
  C23: a handover after a refresh panics.  Once a refresh of a verified aggregate has changed the share
  of a slot, the baton that an honest incoming validator makes for it from the refreshed aggregate
  makes the departing validator's finalization panic: it is checked against the commitments from
  before the refresh.\<close>

theorem handover_after_refresh_panics:
  assumes "session E A d" "rand_laws R" "unat (security_threshold (params d)) \<le> length (dom_elements A (domain d))"
    and "verify_full E A (aggregate_pvss agg) d = Ok True"
    and "length (shares (aggregate_pvss agg)) = length (validators d)"
    and "session_keys d keys" "list_all (\<lambda>(_, ut). \<exists>m rng rng'.
        api_generate_refresh_transcript E A R (d\<lparr> me := m \<rparr>) rng = (Ok ut, rng')) uts"
    and "api_refresh E A agg uts keys = Ok agg'"
    and "shares (aggregate_pvss agg') ! unat i \<noteq> shares (aggregate_pvss agg) ! unat i"
    and "unat i < length (validators d)" "keypair_public_key E kp = v_public_key (snd (validators d ! unat i))"
    and "decryption_key incoming \<noteq> 0" "fst (scalar_rand R' rng) \<noteq> 0"
  shows "\<exists>ho rng'. api_generate_handover_transcript E R' d agg' i incoming rng = (Ok ho, rng') \<and>
    api_finalize_handover E A agg' ho kp = Panic"
proof -
  let ?p = "aggregate_pvss agg" and ?p' = "aggregate_pvss agg'"
  obtain cs where cs: "length cs = unat (security_threshold (params d))" "hd cs \<noteq> 0" "last cs \<noteq> 0" "cs \<noteq> []"
    "coeffs ?p = map (g1_mul E (g1_generator E)) cs" "shares ?p = dealt_shares E A d cs"
    using assms(1,3,4,5) by (rule verify_full_exact)
  have "length cs \<le> length (dom_elements A (domain d))" using cs(1) assms(3) by simp
  from session.generated_updates_refresh[OF assms(1,2,6) cs(6,1) this assms(7)]
  obtain cs' where "refresh E A ?p uts keys = Ok (?p\<lparr> shares := dealt_shares E A d cs' \<rparr>)" by blast
  then have p': "?p' = ?p\<lparr> shares := dealt_shares E A d cs' \<rparr>"
    using assms(8) cs(4,5) by (auto simp: api_refresh_def from_aggregate_Ok outcome_simps)
  let ?x = "domain_points A d ! unat i"
  have y: "peval cs' ?x \<noteq> peval cs ?x"
    using assms(9,10) by (auto simp: p' cs(6) session.nth_dealt_shares[OF assms(1)])
  have sh: "shares ?p' = dealt_shares E A d cs'" by (simp add: p')
  note nz = session.validator_key(1)[OF assms(1,10,11)]
  show ?thesis
    using assms(1) sh assms(10,11)
  proof (rule session.handover_generated[where R = R' and rng = rng and incoming = incoming])
    fix c ho rng'
    assume gen: "generate_handover_transcript E R' d agg' i incoming rng = (Ok ho, rng')"
      and ho: "ho_share_index ho = i" "outgoing_pubkey ho = keypair_public_key E kp"
        "double_blind_share ho = g2_mul E (g2_generator E) (peval cs' ?x * decryption_key kp * decryption_key incoming)"
        "commitment_to_share ho = g2_mul E (g2_generator E) (decryption_key kp * (decryption_key incoming * c))"
        "commitment_to_g1 ho = g1_mul E (g1_generator E) c" "c = fst (scalar_rand R' rng)"
    have "finalize_handover E A ?p' ho kp = Panic"
      by (rule session.stale_baton_panics[OF assms(1), of ?p' cs ho kp _ "decryption_key kp" "decryption_key incoming" c])
        (use ho cs assms(3,10,12,13) y nz session.length_dealt_shares[OF assms(1)] in \<open>simp_all add: p'\<close>)
    with gen show ?thesis
      by (simp add: api_generate_handover_transcript_def api_finalize_handover_def)
  qed
qed

definition sample_refreshed :: "(f17, f17) aggregated_transcript" where
  "sample_refreshed = (case api_refresh E17 A17 sample_agg [(0, sample_update)] sample_key_map of Ok agg \<Rightarrow> agg)"

theorem handover_after_refresh_panics_witness:
  "\<exists>ho rng'. api_generate_handover_transcript E17 R17 sample_dkg sample_refreshed 2 sample_incoming 0 = (Ok ho, rng') \<and>
    api_finalize_handover E17 A17 sample_refreshed ho (sample_keypair 2) = Panic"
proof (rule handover_after_refresh_panics[OF session17.session_axioms r17.rand_laws_axioms sample_threshold
      _ _ sample_session_keys])
  show "verify_full E17 A17 (aggregate_pvss sample_agg) sample_dkg = Ok True"
    "length (shares (aggregate_pvss sample_agg)) = length (validators sample_dkg)" by (fact sample_started)+
  have "api_generate_refresh_transcript E17 A17 R17 (sample_dkg\<lparr> me := sample_validator 1 \<rparr>) 0 = (Ok sample_update, 3)"
    by code_simp
  then show "list_all (\<lambda>(_, ut). \<exists>m rng rng'. api_generate_refresh_transcript E17 A17 R17
      (sample_dkg\<lparr> me := m \<rparr>) rng = (Ok ut, rng')) [(0, sample_update)]" by auto
  show "api_refresh E17 A17 sample_agg [(0, sample_update)] sample_key_map = Ok sample_refreshed"
    "shares (aggregate_pvss sample_refreshed) ! unat (2 :: u32) \<noteq> shares (aggregate_pvss sample_agg) ! unat (2 :: u32)"
    "unat (2 :: u32) < length (validators sample_dkg)"
    "keypair_public_key E17 (sample_keypair 2) = v_public_key (snd (validators sample_dkg ! unat (2 :: u32)))"
    "decryption_key sample_incoming \<noteq> 0" "fst (scalar_rand R17 0) \<noteq> 0"
    by code_simp+
qed

text \<open>
  C24: the checks of a handover do not bind the share.  A baton whose three commitments are the identity
  passes for every double-blinded share and every incoming key: the departing validator installs
  whatever point the baton carries, unblinded by its own key, into its slot.\<close>

theorem identity_baton_accepted:
  assumes "session E A d" "unat (security_threshold (params d)) \<le> length (dom_elements A (domain d))"
    and "verify_full E A p d = Ok True" "length (shares p) = length (validators d)"
    and "unat i < length (validators d)" "decryption_key kp \<noteq> 0"
  shows "finalize_handover E A p \<lparr> ho_share_index = i, double_blind_share = Q, commitment_to_share = 0,
      commitment_to_g1 = 0, commitment_to_g2 = 0, incoming_pubkey = pk,
      outgoing_pubkey = keypair_public_key E kp \<rparr> kp =
    Ok (p\<lparr> shares := (shares p)[unat i := g2_mul E Q (inverse (decryption_key kp))] \<rparr>)"
proof -
  let ?ho = "\<lparr> ho_share_index = i, double_blind_share = Q, commitment_to_share = 0, commitment_to_g1 = 0,
      commitment_to_g2 = 0, incoming_pubkey = pk, outgoing_pubkey = keypair_public_key E kp \<rparr>"
  have act: "scalar_action (g1_mul E)" "scalar_action (g2_mul E)"
    using assms(1) by (simp_all add: session_def pairing_laws_def cyclic_action_def)
  have zero: "g1_mul E P 0 = 0" "g2_mul E P' 0 = 0" "g2_mul E 0 y = 0" for P P' y
    using scalar_action.mul_zero[OF act(1)] scalar_action.mul_zero[OF act(2)]
      scalar_action.zero_mul[OF act(2)] by simp_all
  obtain cs where cs: "length cs = unat (security_threshold (params d))"
    "coeffs p = map (g1_mul E (g1_generator E)) cs"
    using assms(1-4) by (rule verify_full_exact)
  have "commitment_to_g1 ?ho = g1_mul E (g1_generator E) 0" by (simp add: zero)
  from session.handover_validate_iff[OF assms(1) this]
  have "handover_validate E ?ho (ShareCommitment (g1_mul E (g1_generator E) y)) = Ok True" for y
    by (simp add: zero)
  with session.finalize_handover_branch[OF assms(1) cs(2), of ?ho kp] assms(2,4-6) cs(1)
  show ?thesis by (cases p) simp
qed

theorem identity_baton_accepted_witness:
  "finalize_handover E17 A17 sample_pvss \<lparr> ho_share_index = 2, double_blind_share = 13, commitment_to_share = 0,
      commitment_to_g1 = 0, commitment_to_g2 = 0, incoming_pubkey = \<lparr> encryption_key = 4 \<rparr>,
      outgoing_pubkey = keypair_public_key E17 (sample_keypair 2) \<rparr> (sample_keypair 2) =
    Ok (sample_pvss\<lparr> shares := (shares sample_pvss)[unat (2 :: u32) :=
      g2_mul E17 13 (inverse (decryption_key (sample_keypair 2)))] \<rparr>)"
  by (rule identity_baton_accepted[OF session17.session_axioms sample_threshold sample_pvss_verifies]) code_simp+

text \<open>
  The number of an update's commitments is not compared with the threshold: this update of degree 3
  verifies in a session with threshold 3, and after it three shares do not combine to the secret.\<close>

definition sample_high_update :: "(f17, f17) update_transcript" where
  "sample_high_update = \<lparr> ut_coeffs = [0, 0, 0, 1],
     ut_updates = map (\<lambda>i. (of_nat i, \<lparr> su_update = g2_mul E17 (encryption_key (v_public_key (sample_validator i)))
         (peval [0, 0, 0, 1] (domain_points A17 sample_dkg ! i)),
       su_commitment = peval [0, 0, 0, 1] (domain_points A17 sample_dkg ! i) \<rparr>)) [0, 1, 2, 3] \<rparr>"

lemma high_degree_update_accepted:
  "verify_refresh E17 A17 sample_high_update sample_key_map (domain sample_dkg) = Ok True"
  "case api_refresh E17 A17 sample_agg [(0, sample_high_update)] sample_key_map of Ok agg \<Rightarrow>
     (case try_map (\<lambda>i. api_create_decryption_share_simple C17 E17 A17 agg
         (sample_dkg\<lparr> me := snd (validators sample_dkg ! unat i) \<rparr>) sample_header [1] (sample_keys i)) [3, 0, 2] of
       Ok ss \<Rightarrow> api_decrypt_with_shared_secret C17 E17 sample_ct [1] (combine_shares_simple E17 ss) \<noteq> Ok [10, 20]
     | _ \<Rightarrow> False) | _ \<Rightarrow> False"
  by code_simp+

end
