(* ===== verification/Context.thy ===== *)
theory Context
  imports Key_Share Subproduct
begin

text \<open>
  \<open>ferveo-tdec/src/context.rs\<close>, the batch verifier \<open>verify_decryption_shares_simple\<close> of
  \<open>ferveo-tdec/src/decryption.rs\<close>, and the trusted-dealer factory of the \<open>test-common\<close> feature
  (\<open>ferveo-tdec/src/lib.rs\<close>), whose correctness is in \<open>Trusted_Dealer\<close>.
\<close>

section \<open>Data\<close>

record ('f, 'g1, 'g2) public_decryption_context_simple =
  pub_domain :: 'f
  pub_share_commitment :: "'g1 share_commitment"
  pub_blinded_key_share :: "'g2 blinded_key_share"
  pub_validator_public_key :: "'g2 public_key"

record ('f, 'g1, 'g2) setup_params =
  setup_b :: 'f
  setup_b_inv :: 'f
  setup_g :: 'g1
  setup_g_inv :: 'g1
  setup_h_inv :: 'g2
  setup_h :: 'g2

record ('f, 'g1, 'g2) private_decryption_context_simple =
  priv_index :: nat
  priv_setup_params :: "('f, 'g1, 'g2) setup_params"
  priv_private_key_share :: "'g2 private_key_share"
  priv_public_decryption_contexts :: "('f, 'g1, 'g2) public_decryption_context_simple list"

section \<open>Operations\<close>

definition context_create_share ::
  "('g1, 'g2, 'gt, 'fp, 'fp2, 'ecp2) crypto \<Rightarrow> ('f::field, 'g1::ab_group_add, 'g2::ab_group_add, 'gt::comm_monoid_mult) pairing \<Rightarrow>
    ('f, 'g1, 'g2) private_decryption_context_simple \<Rightarrow> ('g1, 'g2) ciphertext_header \<Rightarrow> bytes \<Rightarrow>
    ('g1, 'gt) decryption_share_simple tdec_result"
where
  "context_create_share C E self header aad =
     decryption_share_simple_create C E (setup_b (priv_setup_params self))
       (priv_private_key_share self) header aad"

text \<open>Both indexings of the sources may be out of bounds and panic.\<close>

definition context_create_share_precomputed ::
  "('g1, 'g2, 'gt, 'fp, 'fp2, 'ecp2) crypto \<Rightarrow> ('f::field, 'g1::ab_group_add, 'g2::ab_group_add, 'gt::comm_monoid_mult) pairing \<Rightarrow>
    ('f, 'g1, 'g2) private_decryption_context_simple \<Rightarrow> ('g1, 'g2) ciphertext_header \<Rightarrow> bytes \<Rightarrow>
    nat list \<Rightarrow> ('g1, 'gt) decryption_share_precomputed tdec_result"
where
  "context_create_share_precomputed C E self header aad selected_participants =
     and_then (try_map (\<lambda>i. and_then (slice_index (priv_public_decryption_contexts self) i)
         (\<lambda>ctx. Ok (pub_domain ctx))) selected_participants) (\<lambda>selected_domain_points.
     let lagrange_coeffs = prepare_combine_simple selected_domain_points in
     and_then (slice_index lagrange_coeffs (priv_index self)) (\<lambda>lagrange_coeff.
     decryption_share_precomputed_create C E (priv_index self) (setup_b (priv_setup_params self))
       (priv_private_key_share self) header aad lagrange_coeff))"

text \<open>\<open>izip!\<close> stops at the shortest of the three sequences.\<close>

fun verify_zipped_shares ::
  "('f, 'g1, 'g2, 'gt) pairing \<Rightarrow> ('g1, 'g2) ciphertext \<Rightarrow>
    (('g1, 'gt) decryption_share_simple \<times> 'g2 \<times> ('f, 'g1, 'g2) public_decryption_context_simple) list \<Rightarrow> bool"
where
  "verify_zipped_shares E ct [] = True"
| "verify_zipped_shares E ct ((share, y_i, pub_context) # rest) =
     (if \<not> decryption_share_simple_verify E share y_i
           (encryption_key (pub_validator_public_key pub_context)) ct
      then False else verify_zipped_shares E ct rest)"

definition verify_decryption_shares_simple ::
  "('f, 'g1, 'g2, 'gt) pairing \<Rightarrow> ('f, 'g1, 'g2) public_decryption_context_simple list \<Rightarrow>
    ('g1, 'g2) ciphertext \<Rightarrow> ('g1, 'gt) decryption_share_simple list \<Rightarrow> bool"
where
  "verify_decryption_shares_simple E pub_contexts ct decryption_shares =
     (let blinded_key_shares = map (\<lambda>c. bks_blinded_key_share (pub_blinded_key_share c)) pub_contexts
      in verify_zipped_shares E ct (zip decryption_shares (zip blinded_key_shares pub_contexts)))"

section \<open>The trusted-dealer factory\<close>

text \<open>The loop of \<open>setup_simple\<close> that pushes one private and one public context per domain point.\<close>

fun setup_contexts ::
  "('f::field, 'g1::ab_group_add, 'g2::ab_group_add, 'gt) pairing \<Rightarrow> ('f, 'r) ark_rand \<Rightarrow> nat \<Rightarrow>
    ('f \<times> 'g1 \<times> 'g2) list \<Rightarrow> 'r \<Rightarrow>
    (('f, 'g1, 'g2) private_decryption_context_simple list \<times>
     ('f, 'g1, 'g2) public_decryption_context_simple list) tdec_result \<times> 'r"
where
  "setup_contexts E R index [] rng = (Ok ([], []), rng)"
| "setup_contexts E R index ((domain_point, share_commit, private_share) # rest) rng =
     (let (blinding_factor, rng1) = scalar_rand R rng;
          validator_public_key = g2_mul E (g2_generator E) blinding_factor;
          blinded = \<lparr> bks_validator_public_key = validator_public_key,
                      bks_blinded_key_share = g2_mul E private_share blinding_factor \<rparr>;
          pub = \<lparr> pub_domain = domain_point, pub_share_commitment = ShareCommitment share_commit,
                  pub_blinded_key_share = blinded,
                  pub_validator_public_key = \<lparr> encryption_key = bks_validator_public_key blinded \<rparr> \<rparr>
      in case ff_inverse blinding_factor of
           None \<Rightarrow> (Panic, rng1)
         | Some b_inv \<Rightarrow>
             let priv = \<lparr> priv_index = index,
                   priv_setup_params = \<lparr> setup_b = blinding_factor, setup_b_inv = b_inv,
                     setup_g = g1_generator E, setup_g_inv = - g1_generator E,
                     setup_h_inv = - g2_generator E, setup_h = g2_generator E \<rparr>,
                   priv_private_key_share = PrivateKeyShare private_share,
                   priv_public_decryption_contexts = [] \<rparr>;
                 (tail, rng2) = setup_contexts E R (Suc index) rest rng1
             in (and_then tail (\<lambda>(privs, pubs). Ok (priv # privs, pub # pubs)), rng2))"

text \<open>
  \<open>threshold - 1\<close> on a zero threshold underflows (a panic in debug builds, an allocation failure
  in release builds).
\<close>

definition setup_simple ::
  "('f::field, 'g1::ab_group_add, 'g2::ab_group_add, 'gt) pairing \<Rightarrow> ('f, 'g1, 'd) ark_poly \<Rightarrow>
    ('f, 'r) ark_rand \<Rightarrow> nat \<Rightarrow> nat \<Rightarrow> 'r \<Rightarrow>
    ('g1 dkg_public_key \<times> 'g2 private_key_share \<times>
     ('f, 'g1, 'g2) private_decryption_context_simple list) tdec_result \<times> 'r"
where
  "setup_simple E A R shares_num threshold rng =
     (if threshold = 0 then (Panic, rng)
      else let (threshold_poly, rng1) = poly_rand R (threshold - 1) rng in
      case dom_new A shares_num of
        None \<Rightarrow> (Panic, rng1)
      | Some fft_domain \<Rightarrow>
          let domain_points = dom_elements A fft_domain;
              evals = poly_evaluate_over_domain A threshold_poly fft_domain;
              share_commitments = fast_multiexp (g1_batch_mul E) evals (g1_generator E);
              privkey_shares = fast_multiexp (g2_batch_mul E) evals (g2_generator E);
              a_0 = threshold_poly ! 0;
              (ctxs, rng2) = setup_contexts E R 0
                (zip domain_points (zip share_commitments privkey_shares)) rng1
          in (and_then ctxs (\<lambda>(private_contexts, public_contexts).
              Ok (DkgPublicKey (g1_mul E (g1_generator E) a_0),
                  PrivateKeyShare (g2_mul E (g2_generator E) a_0),
                  map (\<lambda>p. p\<lparr> priv_public_decryption_contexts := public_contexts \<rparr>)
                    private_contexts)), rng2))"

definition setup_precomputed ::
  "('f::field, 'g1::ab_group_add, 'g2::ab_group_add, 'gt) pairing \<Rightarrow> ('f, 'g1, 'd) ark_poly \<Rightarrow>
    ('f, 'r) ark_rand \<Rightarrow> nat \<Rightarrow> nat \<Rightarrow> 'r \<Rightarrow>
    ('g1 dkg_public_key \<times> 'g2 private_key_share \<times>
     ('f, 'g1, 'g2) private_decryption_context_simple list) tdec_result \<times> 'r"
where
  "setup_precomputed E A R shares_num threshold rng = setup_simple E A R shares_num threshold rng"

definition create_shared_secret_simple ::
  "('f::field, 'g1, 'g2, 'gt::comm_monoid_mult) pairing \<Rightarrow>
    ('f, 'g1, 'g2) public_decryption_context_simple list \<Rightarrow>
    ('g1, 'gt) decryption_share_simple list \<Rightarrow> 'gt shared_secret"
where
  "create_shared_secret_simple E pub_contexts decryption_shares =
     share_combine_simple E decryption_shares (prepare_combine_simple (map pub_domain pub_contexts))"

section \<open>Supporting facts\<close>

lemma verify_zipped_shares_iff:
  "verify_zipped_shares E ct xs \<longleftrightarrow> (\<forall>(share, y_i, ctx) \<in> set xs.
     decryption_share_simple_verify E share y_i (encryption_key (pub_validator_public_key ctx)) ct)"
  by (induction E ct xs rule: verify_zipped_shares.induct) auto

text \<open>
  The Lagrange coefficient is taken at the context's index in the whole validator set, not at its
  position among the selected participants.
\<close>

lemma precomputed_global_index:
  assumes "list_all (\<lambda>i. i < length (priv_public_decryption_contexts self)) selected"
  shows "context_create_share_precomputed C E self h aad selected =
    (if length selected \<le> priv_index self then Panic
     else decryption_share_precomputed_create C E (priv_index self) (setup_b (priv_setup_params self))
       (priv_private_key_share self) h aad (prepare_combine_simple
         (map (\<lambda>i. pub_domain (priv_public_decryption_contexts self ! i)) selected) ! priv_index self))"
proof -
  have "(try_map (\<lambda>i. and_then (slice_index (priv_public_decryption_contexts self) i)
      (\<lambda>ctx. Ok (pub_domain ctx))) selected :: 'a list tdec_result) =
    Ok (map (\<lambda>i. pub_domain (priv_public_decryption_contexts self ! i)) selected)"
    using assms by (intro try_map_Ok_map) (simp add: slice_index_if list_all_iff)
  then show ?thesis
    by (simp add: context_create_share_precomputed_def) (simp add: slice_index_if)
qed

section \<open>Properties\<close>

text \<open>
  The batch verifier accepts exactly when every share that has a context at its position
  verifies against that context; shares beyond the contexts, and contexts beyond the shares, are
  not looked at.
\<close>

lemma verify_decryption_shares_simple_iff:
  "verify_decryption_shares_simple E ctxs ct shares \<longleftrightarrow>
     (\<forall>i < min (length shares) (length ctxs). decryption_share_simple_verify E (shares ! i)
        (bks_blinded_key_share (pub_blinded_key_share (ctxs ! i)))
        (encryption_key (pub_validator_public_key (ctxs ! i))) ct)"
  by (simp add: verify_decryption_shares_simple_def verify_zipped_shares_iff all_set_conv_all_nth)

end
