(* ===== verification/Trusted_Dealer.thy ===== *)
theory Trusted_Dealer
  imports Context
begin

text \<open>
  The trusted-dealer factory \<open>setup_simple\<close> of \<open>ferveo-tdec/src/lib.rs\<close> against the decryption
  contexts of \<open>ferveo-tdec/src/context.rs\<close>: the contexts it hands out hold the shares of one
  polynomial, and threshold decryption with them opens what was encrypted to the public key.
\<close>

section \<open>What the dealer hands out\<close>

text \<open>The contexts of the validator at position \<open>k\<close>, for the polynomial \<open>cs\<close> and the domain point \<open>x\<close>.\<close>

definition dealt_context ::
  "('f::field, 'g1::ab_group_add, 'g2::ab_group_add, 'gt) pairing \<Rightarrow> nat \<Rightarrow> 'f \<times> 'g1 \<times> 'g2 \<Rightarrow>
    ('f, 'g1, 'g2) private_decryption_context_simple \<Rightarrow>
    ('f, 'g1, 'g2) public_decryption_context_simple \<Rightarrow> bool"
where
  "dealt_context E k item priv pub \<longleftrightarrow>
     priv_index priv = k \<and> setup_b (priv_setup_params priv) \<noteq> 0 \<and>
     priv_private_key_share priv = PrivateKeyShare (snd (snd item)) \<and>
     pub_domain pub = fst item \<and> pub_share_commitment pub = ShareCommitment (fst (snd item)) \<and>
     bks_blinded_key_share (pub_blinded_key_share pub) =
       g2_mul E (snd (snd item)) (setup_b (priv_setup_params priv)) \<and>
     encryption_key (pub_validator_public_key pub) =
       g2_mul E (g2_generator E) (setup_b (priv_setup_params priv))"

lemma setup_contexts_dealt:
  "setup_contexts E R i xs rng = (Ok (privs, pubs), rng') \<Longrightarrow>
     length privs = length xs \<and> length pubs = length xs \<and>
     (\<forall>k<length xs. dealt_context E (i + k) (xs ! k) (privs ! k) (pubs ! k))"
proof (induction E R i xs rng arbitrary: privs pubs rng' rule: setup_contexts.induct)
  case (2 E R i x A Z rest rng)
  obtain b rng1 where b: "scalar_rand R rng = (b, rng1)" by fastforce
  obtain res rng2 where res: "setup_contexts E R (Suc i) rest rng1 = (res, rng2)" by fastforce
  from 2(2) have nz: "b \<noteq> 0" by (auto simp: b ff_inverse_def Let_def split: if_splits)
  with 2(2) obtain privs' pubs' where sub: "res = Ok (privs', pubs')" "privs = hd privs # privs'"
      "pubs = hd pubs # pubs'" "dealt_context E i (x, A, Z) (hd privs) (hd pubs)"
    by (auto simp: b res Let_def outcome_simps dealt_context_def)
  have IH: "length privs' = length rest \<and> length pubs' = length rest \<and>
      (\<forall>k<length rest. dealt_context E (Suc i + k) (rest ! k) (privs' ! k) (pubs' ! k))"
    by (rule 2(1)) (use b nz res sub in \<open>auto simp: ff_inverse_def\<close>)
  have "dealt_context E (i + k) (((x, A, Z) # rest) ! k) ((hd privs # privs') ! k) ((hd pubs # pubs') ! k)"
    if "k < Suc (length rest)" for k
    using that IH sub(4) by (cases k) auto
  then show ?case using IH sub(2,3) by (metis length_Cons)
qed simp

lemma setup_contexts_returns:
  assumes "\<And>r. fst (scalar_rand R r) \<noteq> 0"
  shows "\<exists>res rng'. setup_contexts E R i xs rng = (Ok res, rng')"
proof (induction xs arbitrary: i rng)
  case (Cons item rest)
  obtain x A Z where item: "item = (x, A, Z)" by (cases item)
  obtain b rng1 where b: "scalar_rand R rng = (b, rng1)" by fastforce
  with assms[of rng] have "b \<noteq> 0" by simp
  moreover obtain privs pubs rng2 where "setup_contexts E R (Suc i) rest rng1 = (Ok (privs, pubs), rng2)"
    using Cons.IH by fastforce
  ultimately show ?case by (simp add: item b Let_def)
qed simp

text \<open>The contexts as a whole: a polynomial of \<open>threshold\<close> coefficients, its constant coefficient in
  the keys, its value at every domain point in the contexts.\<close>

definition dealer_output ::
  "('f::field, 'g1::ab_group_add, 'g2::ab_group_add, 'gt) pairing \<Rightarrow> 'f list \<Rightarrow> 'f list \<Rightarrow>
    'g1 dkg_public_key \<times> 'g2 private_key_share \<times> ('f, 'g1, 'g2) private_decryption_context_simple list \<Rightarrow>
    ('f, 'g1, 'g2) public_decryption_context_simple list \<Rightarrow> bool"
where
  "dealer_output E cs points out pubs \<longleftrightarrow>
     fst out = DkgPublicKey (g1_mul E (g1_generator E) (peval cs 0)) \<and>
     fst (snd out) = PrivateKeyShare (g2_mul E (g2_generator E) (peval cs 0)) \<and>
     length (snd (snd out)) = length points \<and> length pubs = length points \<and>
     (\<forall>k<length points. priv_public_decryption_contexts (snd (snd out) ! k) = pubs \<and>
       dealt_context E k (points ! k, g1_mul E (g1_generator E) (peval cs (points ! k)),
         g2_mul E (g2_generator E) (peval cs (points ! k))) (snd (snd out) ! k) (pubs ! k))"

lemma setup_simple_output:
  assumes E: "pairing_laws E" and A: "domain_laws mul A" and R: "rand_laws R"
    and t: "0 < t" "t \<le> n" and d: "dom_new A n = Some d"
    and ok: "setup_simple E A R n t rng = (Ok out, rng')"
  shows "\<exists>cs pubs. length cs = t \<and> dealer_output E cs (dom_elements A d) out pubs"
proof -
  obtain cs rng1 where cs: "poly_rand R (t - 1) rng = (cs, rng1)" by fastforce
  have len: "length cs = t" using rand_laws.poly_rand_length[OF R cs] t by simp
  then obtain c cs' where c: "cs = c # cs'" using t by (cases cs) auto
  let ?pts = "dom_elements A d"
  have ev: "poly_evaluate_over_domain A cs d = map (peval cs) ?pts"
    using domain_laws.evaluate_domain[OF A d] domain_laws.dom_size[OF A d] len t by simp
  let ?items = "zip ?pts (zip (map (g1_mul E (g1_generator E)) (map (peval cs) ?pts))
    (map (g2_mul E (g2_generator E)) (map (peval cs) ?pts)))"
  obtain res rng2 where res: "setup_contexts E R 0 ?items rng1 = (res, rng2)" by fastforce
  obtain privs pubs where res_ok: "res = Ok (privs, pubs)"
    and out: "out = (DkgPublicKey (g1_mul E (g1_generator E) c), PrivateKeyShare (g2_mul E (g2_generator E) c),
      map (\<lambda>p. p\<lparr> priv_public_decryption_contexts := pubs \<rparr>) privs)"
    using ok t res d cs[simplified] ev
    by (auto simp: setup_simple_def Let_def pairing_laws.fast_multiexp_eq[OF E] c outcome_simps)
  from setup_contexts_dealt[OF res[unfolded res_ok]]
  have "length privs = length ?pts" "length pubs = length ?pts"
    and "\<And>k. k < length ?pts \<Longrightarrow> dealt_context E k (?pts ! k, g1_mul E (g1_generator E) (peval cs (?pts ! k)),
        g2_mul E (g2_generator E) (peval cs (?pts ! k))) (privs ! k) (pubs ! k)"
    by simp_all
  then have "dealer_output E cs ?pts out pubs"
    unfolding dealer_output_def out by (simp add: c dealt_context_def)
  with len show ?thesis by blast
qed

lemma setup_simple_returns:
  assumes "\<And>r. fst (scalar_rand R r) \<noteq> 0" "0 < t" "dom_new A n = Some d"
  shows "\<exists>out rng'. setup_simple E A R n t rng = (Ok out, rng')"
proof -
  obtain cs rng1 where cs: "poly_rand R (t - 1) rng = (cs, rng1)" by fastforce
  let ?items = "zip (dom_elements A d) (zip
    (fast_multiexp (g1_batch_mul E) (poly_evaluate_over_domain A cs d) (g1_generator E))
    (fast_multiexp (g2_batch_mul E) (poly_evaluate_over_domain A cs d) (g2_generator E)))"
  obtain privs pubs rng2 where "setup_contexts E R 0 ?items rng1 = (Ok (privs, pubs), rng2)"
    using setup_contexts_returns[of R E 0 ?items rng1] assms(1) by fastforce
  with cs assms(2,3) show ?thesis by (simp add: setup_simple_def Let_def)
qed

section \<open>Decryption with the dealer's contexts\<close>

context pairing_laws begin

lemma dealt_create_share:
  assumes "dealt_context E k (x, A, Z) priv pub" "header_check C E h aad = Ok True"
  shows "context_create_share C E priv h aad = Ok \<lparr> simple_decryption_share = pair E (hdr_commitment h) Z,
    simple_validator_checksum = \<lparr> checksum = g1_mul E (hdr_commitment h) (inverse (setup_b (priv_setup_params priv))) \<rparr> \<rparr>"
  using assms by (auto simp: context_create_share_def decryption_share_simple_create_def
    simple_create_unchecked_Ok dealt_context_def)

lemma dealt_share_verifies:
  assumes "dealt_context E k (x, A, Z) priv pub" "header_check C E h aad = Ok True"
    and "context_create_share C E priv h aad = Ok s" "hdr_commitment h = ct_commitment ct"
  shows "decryption_share_simple_verify E s (bks_blinded_key_share (pub_blinded_key_share pub))
    (encryption_key (pub_validator_public_key pub)) ct"
  using assms by (auto simp: simple_verify_iff[OF _ assms(4)] dealt_context_def context_create_share_def
    decryption_share_simple_create_def)

lemma dealer_shares:
  assumes out: "dealer_output E cs pts out pubs" and "distinct pts"
    and sel: "distinct is" "list_all (\<lambda>i. i < length pts) is" "length cs \<le> length is"
    and h: "header_check C E h aad = Ok True" "hdr_commitment h = ct_commitment ct"
  shows "\<exists>ss. try_map (\<lambda>i. context_create_share C E (snd (snd out) ! i) h aad) is = Ok ss \<and>
    verify_decryption_shares_simple E (map ((!) pubs) is) ct ss \<and>
    create_shared_secret_simple E (map ((!) pubs) is) ss =
      SharedSecret (pair E (hdr_commitment h) (private_share_point (fst (snd out))))"
proof -
  define Z where "Z k = g2_mul E (g2_generator E) (peval cs (pts ! k))" for k
  define sh where "sh k = \<lparr> simple_decryption_share = pair E (hdr_commitment h) (Z k),
    simple_validator_checksum = \<lparr> checksum = g1_mul E (hdr_commitment h)
      (inverse (setup_b (priv_setup_params (snd (snd out) ! k)))) \<rparr> \<rparr>" for k
  have dealt: "dealt_context E k (pts ! k, g1_mul E (g1_generator E) (peval cs (pts ! k)), Z k)
      (snd (snd out) ! k) (pubs ! k)" if "k \<in> set is" for k
    using out sel(2) that by (simp add: dealer_output_def Z_def list_all_iff)
  have create: "context_create_share C E (snd (snd out) ! k) h aad = Ok (sh k)" if "k \<in> set is" for k
    using dealt_create_share[OF dealt[OF that] h(1)] by (simp add: sh_def)
  then have ss: "try_map (\<lambda>i. context_create_share C E (snd (snd out) ! i) h aad) is = Ok (map sh is)"
    by (rule try_map_Ok_map)
  have ver: "verify_decryption_shares_simple E (map ((!) pubs) is) ct (map sh is)"
    using dealt_share_verifies[OF dealt h(1) create h(2)]
    by (simp add: verify_decryption_shares_simple_def verify_zipped_shares_iff zip_map_map zip_same_conv_map)
  have points: "map pub_domain (map ((!) pubs) is) = map ((!) pts) is"
    using dealt by (simp add: dealt_context_def)
  have "distinct (map ((!) pts) is)"
    using sel(1,2) assms(2) by (simp add: distinct_map inj_on_def nth_eq_iff_index_eq list_all_iff)
  then have "create_shared_secret_simple E (map ((!) pubs) is) (map sh is) =
      SharedSecret (pair E (hdr_commitment h) (g2_mul E (g2_generator E) (peval cs 0)))"
    unfolding create_shared_secret_simple_def points
    by (rule combine_simple_secret) (use sel(3) in \<open>simp_all add: sh_def Z_def\<close>)
  then show ?thesis using ss ver out by (simp add: dealer_output_def)
qed

text \<open>The coefficient that a context uses is the one of the participant selected at the context's index.\<close>

lemma dealer_precomputed_share:
  assumes out: "dealer_output E cs pts out pubs" and pts: "distinct pts"
    and sel: "distinct sel" "list_all (\<lambda>i. i < length pts) sel" "i \<in> set sel"
    and h: "header_check C E h aad = Ok True"
  shows "context_create_share_precomputed C E (snd (snd out) ! i) h aad sel =
    (if length sel \<le> i then Panic else Ok \<lparr> decrypter_index = i,
       precomputed_decryption_share = pair E (hdr_commitment h)
         (g2_mul E (private_share_point (priv_private_key_share (snd (snd out) ! i)))
           (lagrange_basis (set (map ((!) pts) sel)) (pts ! (sel ! i)) 0)),
       precomputed_validator_checksum = \<lparr> checksum = g1_mul E (hdr_commitment h)
         (inverse (setup_b (priv_setup_params (snd (snd out) ! i)))) \<rparr> \<rparr>)"
proof -
  let ?c = "snd (snd out) ! i" and ?xs = "map ((!) pts) sel"
  have range: "k < length pts" if "k \<in> set sel" for k using that sel(2) by (auto simp: list_all_iff)
  have len: "length pubs = length pts" using out by (simp add: dealer_output_def)
  have ctx: "priv_public_decryption_contexts ?c = pubs" "priv_index ?c = i" "setup_b (priv_setup_params ?c) \<noteq> 0"
    using out range[OF sel(3)] by (simp_all add: dealer_output_def dealt_context_def)
  have points: "map (\<lambda>k. pub_domain (pubs ! k)) sel = ?xs"
    using out range by (simp add: dealer_output_def dealt_context_def)
  have "distinct ?xs"
    using sel(1) pts range by (simp add: distinct_map inj_on_def nth_eq_iff_index_eq)
  then have coeff: "prepare_combine_simple ?xs ! i = lagrange_basis (set ?xs) (pts ! (sel ! i)) 0"
    if "i < length sel"
    using that by (simp add: prepare_combine_simple_def lagrange_basis_at_distinct)
  have "list_all (\<lambda>k. k < length (priv_public_decryption_contexts ?c)) sel" using sel(2) ctx len by simp
  from precomputed_global_index[OF this, of C E h aad] show ?thesis
    using h ctx coeff
    by (auto simp: points pair_shift decryption_share_precomputed_create_def precomputed_create_unchecked_Ok)
qed

lemma dealer_precomputed_combines:
  assumes out: "dealer_output E cs pts out pubs" and pts: "distinct pts"
    and sel: "distinct sel" "list_all (\<lambda>i. i < length pts) sel" "list_all (\<lambda>i. i < length sel) sel"
    and h: "header_check C E h aad = Ok True"
  shows "\<exists>ss. try_map (\<lambda>i. context_create_share_precomputed C E (snd (snd out) ! i) h aad sel) sel = Ok ss \<and>
    share_combine_precomputed ss = SharedSecret (pair E (hdr_commitment h) (\<Sum>i<length sel.
      g2_mul E (private_share_point (priv_private_key_share (snd (snd out) ! i)))
        (lagrange_basis (set (map ((!) pts) sel)) (pts ! (sel ! i)) 0)))"
proof -
  let ?q = "\<lambda>i. g2_mul E (private_share_point (priv_private_key_share (snd (snd out) ! i)))
    (lagrange_basis (set (map ((!) pts) sel)) (pts ! (sel ! i)) 0)"
  define sh where "sh i = \<lparr> decrypter_index = i, precomputed_decryption_share = pair E (hdr_commitment h) (?q i),
    precomputed_validator_checksum = \<lparr> checksum = g1_mul E (hdr_commitment h)
      (inverse (setup_b (priv_setup_params (snd (snd out) ! i)))) \<rparr> \<rparr>" for i
  have "context_create_share_precomputed C E (snd (snd out) ! i) h aad sel = Ok (sh i)" if "i \<in> set sel" for i
    using dealer_precomputed_share[OF out pts sel(1,2) that h] sel(3) that by (auto simp: sh_def list_all_iff)
  then have ss: "try_map (\<lambda>i. context_create_share_precomputed C E (snd (snd out) ! i) h aad sel) sel = Ok (map sh sel)"
    by (rule try_map_Ok_map)
  have "set sel = {..<length sel}"
    using sel(1,3) by (intro card_subset_eq) (auto simp: list_all_iff distinct_card)
  then have "sum_list (map ?q sel) = (\<Sum>i<length sel. ?q i)"
    by (simp only: sum_list_distinct_conv_sum_set[OF sel(1)])
  moreover have "share_combine_precomputed (map sh sel) =
      SharedSecret (pair E (hdr_commitment h) (sum_list (map ?q sel)))"
  proof -
    have "map precomputed_decryption_share (map sh sel) = map (pair E (hdr_commitment h)) (map ?q sel)"
      by (simp add: sh_def)
    then show ?thesis by (simp only: share_combine_precomputed_prod pair_sum_right)
  qed
  ultimately have "share_combine_precomputed (map sh sel) =
      SharedSecret (pair E (hdr_commitment h) (\<Sum>i<length sel. ?q i))" by (simp only:)
  with ss show ?thesis by blast
qed

lemma dealer_right_coefficients:
  assumes out: "dealer_output E cs pts out pubs" and pts: "distinct pts"
    and k: "length cs \<le> k" "k \<le> length pts"
  shows "(\<Sum>i<k. g2_mul E (private_share_point (priv_private_key_share (snd (snd out) ! i)))
    (lagrange_basis (set (take k pts)) (pts ! i) 0)) = private_share_point (fst (snd out))"
proof -
  let ?xs = "take k pts" and ?H = "g2_generator E"
  have share: "private_share_point (priv_private_key_share (snd (snd out) ! i)) = g2_mul E ?H (peval cs (pts ! i))"
    if "i < k" for i
    using out k that by (simp add: dealer_output_def dealt_context_def)
  have "map2 (g2_mul E) (map (g2_mul E ?H) (map (peval cs) ?xs)) (lagrange_basis_at ?xs 0) =
      map (\<lambda>i. g2_mul E (private_share_point (priv_private_key_share (snd (snd out) ! i)))
        (lagrange_basis (set ?xs) (pts ! i) 0)) [0..<k]"
    using k pts share by (intro nth_equalityI) (simp_all add: lagrange_basis_at_distinct)
  from this[symmetric]
  have "sum_list (map (\<lambda>i. g2_mul E (private_share_point (priv_private_key_share (snd (snd out) ! i)))
        (lagrange_basis (set ?xs) (pts ! i) 0)) [0..<k]) =
      g2_mul E ?H (sum_list (map2 (*) (map (peval cs) ?xs) (lagrange_basis_at ?xs 0)))"
    by (simp only: sum_scaled_shares)
  also have "\<dots> = g2_mul E ?H (peval cs 0)"
    using lagrange_basis_at_interpolates[of ?xs cs 0] pts k by simp
  finally show ?thesis
    using out by (simp add: dealer_output_def interv_sum_list_conv_sum_set_nat atLeast0LessThan)
qed

end

section \<open>Properties\<close>

text \<open>
  C27: with the contexts of the trusted dealer, any \<open>threshold\<close> or more distinct participants create
  shares of a ciphertext encrypted to the dealer's public key; the shares pass the batch verifier
  against the public contexts, and the secret combined from them decrypts the ciphertext.  The
  factory returns whenever the sampled blinding factors are not 0.\<close>

theorem trusted_dealer_decrypts:
  assumes "crypto_laws C" "pairing_laws E" "domain_laws mul A" "rand_laws R" "0 < t" "t \<le> n"
    and "dom_new A n = Some d"
  shows "((\<forall>r. fst (scalar_rand R r) \<noteq> 0) \<longrightarrow> is_ok (fst (setup_simple E A R n t rng))) \<and>
    (\<forall>pk sk ctxs rng'. setup_simple E A R n t rng = (Ok (pk, sk, ctxs), rng') \<longrightarrow>
      encrypt C E R' msg aad pk r = (Ok ct, r') \<and> ct_commitment ct \<noteq> 0 \<and> ct_auth_tag ct \<noteq> 0 \<and>
      ct_header C ct = Ok h \<and> distinct is \<and> list_all (\<lambda>i. i < length ctxs) is \<and> t \<le> length is \<longrightarrow>
      (\<exists>ss. try_map (\<lambda>i. context_create_share C E (ctxs ! i) h aad) is = Ok ss \<and>
        (let pubs = map ((!) (priv_public_decryption_contexts (hd ctxs))) is in
          verify_decryption_shares_simple E pubs ct ss \<and>
          decrypt_with_shared_secret C E ct aad (create_shared_secret_simple E pubs ss) = Ok msg)))"
proof (intro conjI allI impI, goal_cases)
  case 1
  then show ?case using setup_simple_returns[of R t A n d E rng] assms(5,7) by force
next
  case (2 pk sk ctxs rng')
  then have enc: "encrypt C E R' msg aad pk r = (Ok ct, r')" "ct_commitment ct \<noteq> 0" "ct_auth_tag ct \<noteq> 0"
    and h: "ct_header C ct = Ok h" and sel: "distinct is" "list_all (\<lambda>i. i < length ctxs) is" "t \<le> length is"
    by simp_all
  obtain cs pubs where out: "length cs = t" "dealer_output E cs (dom_elements A d) (pk, sk, ctxs) pubs"
    using setup_simple_output[OF assms(2-7) 2(1)] by blast
  have scheme: "tdec_scheme C E" using assms(1,2) by (simp add: tdec_scheme_def)
  have commit: "hdr_commitment h = ct_commitment ct" using h by (auto simp: ct_header_def)
  have pk: "pk = DkgPublicKey (g1_mul E (g1_generator E) (peval cs 0))"
    and sk: "sk = PrivateKeyShare (g2_mul E (g2_generator E) (peval cs 0))"
    and len: "length ctxs = length (dom_elements A d)" using out(2) by (simp_all add: dealer_output_def)
  have "header_check C E h aad = Ok True"
    using tdec_scheme.encrypt_check[OF scheme enc] h by (simp add: ciphertext_check_def)
  from pairing_laws.dealer_shares[OF assms(2) out(2) domain_laws.dom_distinct[OF assms(3,7)] sel(1) _ _ this commit]
  obtain ss where ss: "try_map (\<lambda>i. context_create_share C E (ctxs ! i) h aad) is = Ok ss"
    "verify_decryption_shares_simple E (map ((!) pubs) is) ct ss"
    "create_shared_secret_simple E (map ((!) pubs) is) ss = SharedSecret (pair E (ct_commitment ct) (private_share_point sk))"
    using sel out(1) len commit by auto
  have "is \<noteq> []" using sel(3) assms(5) by auto
  then have "0 < length ctxs" using sel(2) by (cases "is") auto
  then have "priv_public_decryption_contexts (hd ctxs) = pubs"
    using out(2) len by (cases ctxs) (force simp: dealer_output_def)+
  with ss tdec_scheme.encrypt_secret[OF scheme enc(1)[unfolded pk] enc(2,3)] show ?case
    by (simp add: sk)
qed

definition sample_dealer ::
  "f17 dkg_public_key \<times> f17 private_key_share \<times> (f17, f17, f17) private_decryption_context_simple list" where
  "sample_dealer = (case fst (setup_simple E17 A17 R17 4 2 0) of Ok out \<Rightarrow> out)"

definition sample_dealer_ct :: "(f17, f17) ciphertext" where
  "sample_dealer_ct = (case fst (encrypt C17 E17 R17 [10, 20] [1] (fst sample_dealer) 2) of Ok ct \<Rightarrow> ct)"

lemma sample_dealer_ok:
  "is_ok (fst (setup_simple E17 A17 R17 4 2 0))"
  "is_ok (fst (encrypt C17 E17 R17 [10, 20] [1] (fst sample_dealer) 2))"
  "ct_commitment sample_dealer_ct \<noteq> 0" "ct_auth_tag sample_dealer_ct \<noteq> 0"
  "list_all (\<lambda>i. i < length (snd (snd sample_dealer))) [3, 1]" "dom_new A17 4 = Some [1, 4, 16, 13]"
  by code_simp+

lemma is_ok_fst: "is_ok (fst p) \<Longrightarrow> p = (Ok (case fst p of Ok x \<Rightarrow> x), snd p)"
  by (cases p; cases "fst p") auto

theorem trusted_dealer_decrypts_witness:
  "\<exists>ss h. ct_header C17 sample_dealer_ct = Ok h \<and>
    try_map (\<lambda>i. context_create_share C17 E17 (snd (snd sample_dealer) ! i) h [1]) [3, 1] = Ok ss \<and>
    (let pubs = map ((!) (priv_public_decryption_contexts (hd (snd (snd sample_dealer))))) [3, 1] in
      decrypt_with_shared_secret C17 E17 sample_dealer_ct [1] (create_shared_secret_simple E17 pubs ss) = Ok [10, 20])"
proof -
  obtain pk sk ctxs where s: "sample_dealer = (pk, sk, ctxs)" by (cases sample_dealer)
  obtain h where h: "ct_header C17 sample_dealer_ct = Ok h" by (simp add: ct_header_def)
  have dealt: "setup_simple E17 A17 R17 4 2 0 = (Ok (pk, sk, ctxs), snd (setup_simple E17 A17 R17 4 2 0))"
    using is_ok_fst[OF sample_dealer_ok(1)] s by (simp add: sample_dealer_def)
  have enc: "encrypt C17 E17 R17 [10, 20] [1] pk 2 = (Ok sample_dealer_ct, snd (encrypt C17 E17 R17 [10, 20] [1] pk 2))"
  proof -
    have "fst sample_dealer = pk" unfolding s by (rule fst_conv)
    then show ?thesis using is_ok_fst[OF sample_dealer_ok(2)] unfolding sample_dealer_ct_def by (simp only:)
  qed
  have sel: "list_all (\<lambda>i. i < length ctxs) [3, 1]" "distinct [3, 1 :: nat]" "2 \<le> length [3, 1 :: nat]"
    using sample_dealer_ok(5) unfolding s by simp_all
  have "\<exists>ss. try_map (\<lambda>i. context_create_share C17 E17 (ctxs ! i) h [1]) [3, 1] = Ok ss \<and>
      (let pubs = map ((!) (priv_public_decryption_contexts (hd ctxs))) [3, 1] in
        verify_decryption_shares_simple E17 pubs sample_dealer_ct ss \<and>
        decrypt_with_shared_secret C17 E17 sample_dealer_ct [1] (create_shared_secret_simple E17 pubs ss) = Ok [10, 20])"
    by (rule trusted_dealer_decrypts[OF c17.crypto_laws_axioms e17.pairing_laws_axioms a17.domain_laws_axioms
          r17.rand_laws_axioms _ _ sample_dealer_ok(6), THEN conjunct2, rule_format, OF _ _ dealt, where R' = R17]) (simp, simp, rule conjI, rule enc, intro conjI sel h sample_dealer_ok(3,4))
  then show ?thesis using h unfolding s by (auto simp: Let_def)
qed

text \<open>
  C36: precomputed shares of the trusted dealer's contexts.  A selected participant whose index is not
  below the number of selected ones panics, since the coefficients of the selected participants are
  indexed with its index in the whole set.  If no index is out of range, participant \<open>i\<close> gets the
  coefficient of the participant selected at position \<open>i\<close>, and the shares combine to the secret exactly
  when the key shares weighted with these coefficients add up to it.  With the coefficients of the
  right participants they always do: selecting the first \<open>k\<close> participants in order decrypts.\<close>

theorem dealer_precomputed_positions:
  assumes "pairing_laws E" "domain_laws mul A" "rand_laws R" "0 < t" "t \<le> n" "dom_new A n = Some d"
    and "setup_simple E A R n t rng = (Ok (pk, sk, ctxs), rng')" "header_check C E h aad = Ok True"
    and "distinct sel" "list_all (\<lambda>i. i < length ctxs) sel" "t \<le> length sel"
  shows "list_all (\<lambda>i. context_create_share_precomputed C E (ctxs ! i) h aad sel = Panic \<longleftrightarrow> length sel \<le> i) sel \<and>
    (list_all (\<lambda>i. i < length sel) sel \<longrightarrow>
      (\<exists>ss. try_map (\<lambda>i. context_create_share_precomputed C E (ctxs ! i) h aad sel) sel = Ok ss \<and>
        (share_combine_precomputed ss = SharedSecret (pair E (hdr_commitment h) (private_share_point sk)) \<longleftrightarrow>
          (\<Sum>i<length sel. g2_mul E (private_share_point (priv_private_key_share (ctxs ! i)))
            (lagrange_basis (set (map ((!) (dom_elements A d)) sel)) (dom_elements A d ! (sel ! i)) 0)) =
          private_share_point sk))) \<and>
    (\<Sum>i<length sel. g2_mul E (private_share_point (priv_private_key_share (ctxs ! i)))
      (lagrange_basis (set (take (length sel) (dom_elements A d))) (dom_elements A d ! i) 0)) = private_share_point sk"
proof -
  let ?pts = "dom_elements A d"
  obtain cs pubs where out: "length cs = t" "dealer_output E cs ?pts (pk, sk, ctxs) pubs"
    using setup_simple_output[OF assms(1-7)] by blast
  have pts: "distinct ?pts" by (rule domain_laws.dom_distinct[OF assms(2,6)])
  have sel: "list_all (\<lambda>i. i < length ?pts) sel" using assms(10) out(2) by (simp add: dealer_output_def)
  have "set sel \<subseteq> {..<length ?pts}" using sel by (auto simp: list_all_iff)
  then have k: "length sel \<le> length ?pts"
    by (metis assms(9) card_lessThan card_mono distinct_card finite_lessThan)
  have U: "hdr_commitment h \<noteq> 0" using assms(8) by (auto simp: header_check_def)
  have "list_all (\<lambda>i. context_create_share_precomputed C E (ctxs ! i) h aad sel = Panic \<longleftrightarrow> length sel \<le> i) sel"
    using pairing_laws.dealer_precomputed_share[OF assms(1) out(2) pts assms(9) sel _ assms(8)]
    by (simp add: list_all_iff)
  moreover have "\<exists>ss. try_map (\<lambda>i. context_create_share_precomputed C E (ctxs ! i) h aad sel) sel = Ok ss \<and>
      (share_combine_precomputed ss = SharedSecret (pair E (hdr_commitment h) (private_share_point sk)) \<longleftrightarrow>
        (\<Sum>i<length sel. g2_mul E (private_share_point (priv_private_key_share (ctxs ! i)))
          (lagrange_basis (set (map ((!) ?pts) sel)) (?pts ! (sel ! i)) 0)) = private_share_point sk)"
    if "list_all (\<lambda>i. i < length sel) sel"
    using pairing_laws.dealer_precomputed_combines[OF assms(1) out(2) pts assms(9) sel that assms(8)]
    by (auto simp: pairing_laws.pair_left_cancel[OF assms(1) U])
  moreover have "(\<Sum>i<length sel. g2_mul E (private_share_point (priv_private_key_share (ctxs ! i)))
      (lagrange_basis (set (take (length sel) ?pts)) (?pts ! i) 0)) = private_share_point sk"
    using pairing_laws.dealer_right_coefficients[OF assms(1) out(2) pts _ k] out(1) assms(11) by simp
  ultimately show ?thesis by blast
qed

text \<open>In the example, selecting participants 2 and 3 panics, and selecting 1 before 0 gives another secret.\<close>

lemma sample_swapped_coefficients:
  "(\<Sum>i<length [1, 0 :: nat]. g2_mul E17 (private_share_point (priv_private_key_share (snd (snd sample_dealer) ! i)))
    (lagrange_basis (set (map ((!) (dom_elements A17 [1, 4, 16, 13])) [1, 0]))
      (dom_elements A17 [1, 4, 16, 13] ! ([1, 0] ! i)) 0)) \<noteq> private_share_point (fst (snd sample_dealer))"
  by code_simp

theorem dealer_precomputed_positions_witness:
  "context_create_share_precomputed C17 E17 (snd (snd sample_dealer) ! 2) sample_header [1] [2, 3] = Panic \<and>
   (\<exists>ss. try_map (\<lambda>i. context_create_share_precomputed C17 E17 (snd (snd sample_dealer) ! i) sample_header [1] [1, 0])
       [1, 0] = Ok ss \<and>
     share_combine_precomputed ss \<noteq> SharedSecret (pair E17 (hdr_commitment sample_header)
       (private_share_point (fst (snd sample_dealer)))))"
proof -
  obtain pk sk ctxs where s: "sample_dealer = (pk, sk, ctxs)" by (cases sample_dealer)
  have dealt: "setup_simple E17 A17 R17 4 2 0 = (Ok (pk, sk, ctxs), snd (setup_simple E17 A17 R17 4 2 0))"
    using is_ok_fst[OF sample_dealer_ok(1)] s by (simp add: sample_dealer_def)
  have len: "list_all (\<lambda>i. i < length ctxs) [2, 3]" "list_all (\<lambda>i. i < length ctxs) [1, 0]"
    using sample_dealer_ok(5) unfolding s by auto
  note positions = dealer_precomputed_positions[OF e17.pairing_laws_axioms a17.domain_laws_axioms
      r17.rand_laws_axioms _ _ sample_dealer_ok(6) dealt sample_header_ok]
  show ?thesis
    using positions[of "[2, 3]"] positions[of "[1, 0]"] len sample_swapped_coefficients
    unfolding s by (simp del: lessThan_Suc)
qed

end
