(* ===== verification/Series.thy ===== *)
theory Series
  imports Poly_Lists
begin

text \<open>
  Reference mathematics for the fast polynomial routines of \<open>subproductdomain\<close>: formal power
  series over a commutative ring, congruence modulo \<open>x^k\<close>, and coefficient lists as the series they
  denote.  Evaluation, the formal derivative and the leading coefficient of a list depend only on
  its series, so an implementation of polynomial arithmetic need only be known up to trailing
  zeros.  None of it models a function of the sources.
\<close>

section \<open>The ring of power series\<close>

typedef 'a series = "UNIV :: (nat \<Rightarrow> 'a) set"
  morphisms coef Series by simp

setup_lifting type_definition_series

lemma series_eqI: "(\<And>n. coef s n = coef t n) \<Longrightarrow> s = t"
  by (simp add: coef_inject[symmetric] fun_eq_iff)

lemma conv_assoc:
  fixes f g h :: "nat \<Rightarrow> 'a::comm_ring_1"
  shows "(\<Sum>i\<le>n. (\<Sum>j\<le>i. f j * g (i - j)) * h (n - i)) =
         (\<Sum>j\<le>n. f j * (\<Sum>k\<le>n - j. g k * h (n - j - k)))"
proof -
  have "(\<Sum>i\<le>n. \<Sum>j\<le>i. f j * g (i - j) * h (n - i)) =
        (\<Sum>j\<le>n. \<Sum>k\<le>n - j. f j * g k * h (n - j - k))"
    unfolding sum.Sigma[OF finite_atMost ballI[OF finite_atMost]]
    by (rule sum.reindex_bij_witness[where i = "\<lambda>(j, k). (j + k, j)" and j = "\<lambda>(i, j). (j, i - j)"])
      auto
  then show ?thesis by (simp add: sum_distrib_left sum_distrib_right mult.assoc)
qed

instantiation series :: (comm_ring_1) comm_ring_1
begin

lift_definition zero_series :: "'a series" is "\<lambda>n. 0" .
lift_definition one_series :: "'a series" is "\<lambda>n. if n = 0 then 1 else 0" .
lift_definition plus_series :: "'a series \<Rightarrow> 'a series \<Rightarrow> 'a series" is "\<lambda>s t n. s n + t n" .
lift_definition minus_series :: "'a series \<Rightarrow> 'a series \<Rightarrow> 'a series" is "\<lambda>s t n. s n - t n" .
lift_definition uminus_series :: "'a series \<Rightarrow> 'a series" is "\<lambda>s n. - s n" .
lift_definition times_series :: "'a series \<Rightarrow> 'a series \<Rightarrow> 'a series"
  is "\<lambda>s t n. \<Sum>i\<le>n. s i * t (n - i)" .

instance
proof
  fix a b c :: "'a series"
  show "a * b * c = a * (b * c)" by transfer (simp add: conv_assoc fun_eq_iff)
  show "a * b = b * a"
  proof (transfer, rule ext)
    fix s t :: "nat \<Rightarrow> 'a" and n
    show "(\<Sum>i\<le>n. s i * t (n - i)) = (\<Sum>i\<le>n. t i * s (n - i))"
      by (rule sum.reindex_bij_witness[where i = "\<lambda>i. n - i" and j = "\<lambda>i. n - i"])
        (auto simp: mult.commute)
  qed
  show "1 * a = a"
  proof (transfer, rule ext)
    fix s :: "nat \<Rightarrow> 'a" and n
    have "(\<Sum>i\<le>n. (if i = 0 then 1 else 0) * s (n - i)) = (\<Sum>i\<le>n. if i = 0 then s (n - i) else 0)"
      by (rule sum.cong) auto
    then show "(\<Sum>i\<le>n. (if i = 0 then 1 else 0) * s (n - i)) = s n" by simp
  qed
  show "(a + b) * c = a * c + b * c"
    by transfer (simp add: fun_eq_iff distrib_right sum.distrib)
  show "(0::'a series) \<noteq> 1" by transfer (auto simp: fun_eq_iff)
qed (transfer; simp add: fun_eq_iff algebra_simps)+

end

lemmas coef_simps [simp] =
  zero_series.rep_eq one_series.rep_eq plus_series.rep_eq minus_series.rep_eq uminus_series.rep_eq

lemma coef_mult: "coef (s * t) n = (\<Sum>i\<le>n. coef s i * coef t (n - i))"
  by (simp add: times_series.rep_eq)

section \<open>Congruence modulo \<open>x^k\<close>\<close>

definition eq_upto :: "nat \<Rightarrow> 'a series \<Rightarrow> 'a series \<Rightarrow> bool" where
  "eq_upto k s t \<longleftrightarrow> (\<forall>n<k. coef s n = coef t n)"

lemma eq_upto_refl [simp]: "eq_upto k s s"
  by (simp add: eq_upto_def)

lemma eq_upto_trans: "eq_upto k s t \<Longrightarrow> eq_upto k t r \<Longrightarrow> eq_upto k s r"
  by (simp add: eq_upto_def)

lemma eq_upto_mono: "eq_upto k s t \<Longrightarrow> l \<le> k \<Longrightarrow> eq_upto l s t"
  by (simp add: eq_upto_def)

lemma eq_upto_mult: "eq_upto k s t \<Longrightarrow> eq_upto k (r * s) (r * t)" for r :: "'a::comm_ring_1 series"
  by (simp add: eq_upto_def coef_mult)

lemma eq_upto_0_iff: "eq_upto k s t \<longleftrightarrow> eq_upto k (s - t) 0" for s :: "'a::comm_ring_1 series"
  by (simp add: eq_upto_def)

lemma eq_upto_0_mult:
  fixes s t :: "'a::comm_ring_1 series"
  assumes "eq_upto k s 0" "eq_upto l t 0"
  shows "eq_upto (k + l) (s * t) 0"
proof -
  have "coef s i * coef t (n - i) = 0" if "n < k + l" "i \<le> n" for n i
    using assms that by (cases "i < k") (auto simp: eq_upto_def)
  then show ?thesis by (simp add: eq_upto_def coef_mult)
qed

text \<open>One step of Newton's iteration doubles the number of correct coefficients.\<close>

lemma newton_step:
  fixes f s :: "'a::comm_ring_1 series"
  assumes "eq_upto k (f * s) 1"
  shows "eq_upto (2 * k) (f * (s + s - f * (s * s))) 1"
proof -
  have "eq_upto k (f * s - 1) 0" using assms by (simp add: eq_upto_0_iff[of k _ 1])
  from eq_upto_0_mult[OF this this] have "eq_upto (2 * k) ((f * s - 1) * (f * s - 1)) 0"
    by (simp add: mult_2)
  moreover have "(f * s - 1) * (f * s - 1) = 1 - f * (s + s - f * (s * s))"
    by (simp add: algebra_simps)
  ultimately show ?thesis by (auto simp: eq_upto_def)
qed

section \<open>Coefficient lists as series\<close>

definition ser :: "'a::zero list \<Rightarrow> 'a series" where
  "ser cs = Series (\<lambda>n. if n < length cs then cs ! n else 0)"

definition canonical :: "'a::zero list \<Rightarrow> bool" where
  "canonical cs \<longleftrightarrow> cs = [] \<or> last cs \<noteq> 0"

lemma coef_ser: "coef (ser cs) n = (if n < length cs then cs ! n else 0)"
  by (simp add: ser_def Series_inverse)

lemma coef_ser_simps [simp]:
  "coef (ser []) n = 0"
  "coef (ser (c # cs)) 0 = c"
  "coef (ser (c # cs)) (Suc n) = coef (ser cs) n"
  by (simp_all add: coef_ser)

lemma ser_Nil [simp]: "ser [] = 0"
  by (rule series_eqI) simp

lemma ser_single_1 [simp]: "ser [1] = 1"
  by (rule series_eqI) (simp add: coef_ser)

lemma canonical_Nil [simp]: "canonical []"
  by (simp add: canonical_def)

lemma canonical_single [simp]: "canonical [c] \<longleftrightarrow> c \<noteq> 0"
  by (simp add: canonical_def)

lemma eq_upto_take: "k \<le> n \<Longrightarrow> eq_upto k (ser (take n cs)) (ser cs)"
  by (simp add: eq_upto_def coef_ser)

lemma canonical_length:
  "canonical cs \<Longrightarrow> (\<And>n. k \<le> n \<Longrightarrow> coef (ser cs) n = 0) \<Longrightarrow> length cs \<le> k"
proof (rule ccontr)
  assume can: "canonical cs" and z: "\<And>n. k \<le> n \<Longrightarrow> coef (ser cs) n = 0" and "\<not> length cs \<le> k"
  then have "cs \<noteq> []" "k \<le> length cs - 1" by auto
  with z[of "length cs - 1"] have "last cs = 0" by (simp add: coef_ser last_conv_nth)
  with can \<open>cs \<noteq> []\<close> show False by (simp add: canonical_def)
qed

lemma ser_take_drop_rev:
  "n < length cs \<Longrightarrow> coef (ser (rev cs)) n = coef (ser cs) (length cs - 1 - n)"
  by (auto simp: coef_ser rev_nth)

section \<open>Products of lists, reversal\<close>

fun lmul :: "'a::comm_ring_1 list \<Rightarrow> 'a list \<Rightarrow> 'a list" where
  "lmul [] g = []"
| "lmul (c # cs) g = (let p = lmul cs g; k = max (length g) (Suc (length p)) in
     map (\<lambda>n. c * (if n < length g then g ! n else 0) + (if n = 0 then 0 else
       if n - 1 < length p then p ! (n - 1) else 0)) [0..<k])"

lemma coef_Cons_mult:
  "coef (ser (c # cs) * t) n = c * coef t n + (if n = 0 then 0 else coef (ser cs * t) (n - 1))"
proof (cases n)
  case (Suc k)
  show ?thesis unfolding coef_mult Suc by (subst sum.atMost_Suc_shift) simp
qed (simp add: coef_mult)

lemma ser_lmul: "ser (lmul f g) = ser f * ser g"
proof (induction f)
  case (Cons c cs)
  have "coef (ser (lmul (c # cs) g)) n =
      c * coef (ser g) n + (if n = 0 then 0 else coef (ser (lmul cs g)) (n - 1))" for n
    by (auto simp: Let_def coef_ser simp del: upt_Suc)
  then show ?case by (intro series_eqI) (simp add: coef_Cons_mult Cons.IH)
qed simp

lemma coef_smult: "coef (ser (map ((*) c) g)) n = c * coef (ser g) n" for c :: "'a::comm_ring_1"
  by (simp add: coef_ser)

lemma ser_lmul_Cons: "ser (lmul (c # cs) g) = ser (map ((*) c) g) + ser (0 # lmul cs g)"
proof (rule series_eqI)
  fix n
  show "coef (ser (lmul (c # cs) g)) n = coef (ser (map ((*) c) g) + ser (0 # lmul cs g)) n"
    by (cases n) (simp_all add: ser_lmul coef_smult coef_Cons_mult del: lmul.simps)
qed

text \<open>Reversing both factors reverses the product.\<close>

lemma coef_mult_rev:
  fixes f g :: "'a::comm_ring_1 list"
  assumes "length f = Suc m" "length g = Suc d" "i \<le> m + d"
  shows "coef (ser (rev f) * ser (rev g)) i = coef (ser f * ser g) (m + d - i)"
proof -
  let ?N = "\<lambda>i. {j. j \<le> i \<and> j \<le> m \<and> i - j \<le> d}"
  have restrict: "coef (ser a * ser b) i = (\<Sum>j\<in>?N i. coef (ser a) j * coef (ser b) (i - j))"
    if "length a = Suc m" "length b = Suc d" for a b :: "'a list" and i
    unfolding coef_mult
    by (rule sum.mono_neutral_right) (use that in \<open>auto simp: coef_ser\<close>)
  have "(\<Sum>j\<in>?N i. coef (ser (rev f)) j * coef (ser (rev g)) (i - j)) =
      (\<Sum>j\<in>?N (m + d - i). coef (ser f) j * coef (ser g) (m + d - i - j))"
    by (rule sum.reindex_bij_witness[where i = "\<lambda>j. m - j" and j = "\<lambda>j. m - j"])
      (use assms in \<open>auto simp: ser_take_drop_rev\<close>)
  then show ?thesis using assms restrict[of f g] restrict[of "rev f" "rev g"] by simp
qed

section \<open>Evaluation depends on the series only\<close>

lemma peval_eq_sum:
  "length cs \<le> N \<Longrightarrow> peval cs x = (\<Sum>n<N. coef (ser cs) n * x ^ n)"
proof (induction cs arbitrary: N)
  case (Cons c cs)
  then obtain M where N: "N = Suc M" and "length cs \<le> M" by (cases N) auto
  then have "peval cs x = (\<Sum>n<M. coef (ser cs) n * x ^ n)" using Cons.IH by simp
  then show ?case
    unfolding N sum.lessThan_Suc_shift by (simp add: sum_distrib_left mult_ac)
qed simp

lemma peval_ser_cong: "ser f = ser g \<Longrightarrow> peval f x = peval g x"
  using peval_eq_sum[of f "max (length f) (length g)" x] peval_eq_sum[of g "max (length f) (length g)" x]
  by simp

lemma peval_ser_add: "ser h = ser f + ser g \<Longrightarrow> peval h x = peval f x + peval g x"
  using peval_eq_sum[of h "length f + length g + length h" x]
    peval_eq_sum[of f "length f + length g + length h" x]
    peval_eq_sum[of g "length f + length g + length h" x]
  by (simp add: sum.distrib distrib_right)

lemma peval_ser_diff: "ser h = ser f - ser g \<Longrightarrow> peval h x = peval f x - peval g x"
  using peval_ser_add[of f h g x] by (simp add: algebra_simps)

lemma peval_lmul: "peval (lmul f g) x = peval f x * peval g x"
proof (induction f)
  case (Cons c cs)
  from peval_ser_add[OF ser_lmul_Cons[of c cs g]] show ?case
    by (simp add: Cons.IH peval_smult algebra_simps del: lmul.simps)
qed simp

lemma peval_ser_mult: "ser h = ser f * ser g \<Longrightarrow> peval h x = peval f x * peval g x"
  using peval_ser_cong[of h "lmul f g" x] by (simp add: ser_lmul peval_lmul)

text \<open>The value of the formal derivative.\<close>

fun dpeval :: "'f::field list \<Rightarrow> 'f \<Rightarrow> 'f" where
  "dpeval [] x = 0"
| "dpeval (c # cs) x = peval cs x + x * dpeval cs x"

lemma dpeval_eq_sum:
  "length cs \<le> N \<Longrightarrow> dpeval cs x = (\<Sum>n<N. of_nat n * coef (ser cs) n * x ^ (n - 1))"
proof (induction cs arbitrary: N)
  case (Cons c cs)
  then obtain M where N: "N = Suc M" and M: "length cs \<le> M" by (cases N) auto
  have power: "x * (of_nat n * coef (ser cs) n * x ^ (n - Suc 0)) = of_nat n * coef (ser cs) n * x ^ n" for n
    by (cases n) (simp_all add: mult_ac)
  have "dpeval (c # cs) x =
      (\<Sum>n<M. coef (ser cs) n * x ^ n) + (\<Sum>n<M. of_nat n * coef (ser cs) n * x ^ n)"
    using Cons.IH[OF M] peval_eq_sum[OF M, of x] by (simp add: sum_distrib_left power)
  also have "\<dots> = (\<Sum>n<M. of_nat (Suc n) * coef (ser (c # cs)) (Suc n) * x ^ n)"
    by (simp add: sum.distrib[symmetric] algebra_simps)
  finally show ?case unfolding N sum.lessThan_Suc_shift by simp
qed simp

lemma dpeval_ser_cong: "ser f = ser g \<Longrightarrow> dpeval f x = dpeval g x"
  using dpeval_eq_sum[of f "max (length f) (length g)" x] dpeval_eq_sum[of g "max (length f) (length g)" x]
  by simp

lemma dpeval_ser_add: "ser h = ser f + ser g \<Longrightarrow> dpeval h x = dpeval f x + dpeval g x"
  using dpeval_eq_sum[of h "length f + length g + length h" x]
    dpeval_eq_sum[of f "length f + length g + length h" x]
    dpeval_eq_sum[of g "length f + length g + length h" x]
  by (simp add: sum.distrib algebra_simps)

lemma dpeval_smult: "dpeval (map ((*) c) g) x = c * dpeval g x"
  by (induction g) (simp_all add: peval_smult distrib_left mult.left_commute)

lemma dpeval_lmul: "dpeval (lmul f g) x = dpeval f x * peval g x + peval f x * dpeval g x"
proof (induction f)
  case (Cons c cs)
  from dpeval_ser_add[OF ser_lmul_Cons[of c cs g]] show ?case
    by (simp add: Cons.IH dpeval_smult peval_lmul algebra_simps del: lmul.simps)
qed simp

lemma dpeval_ser_mult:
  "ser h = ser f * ser g \<Longrightarrow> dpeval h x = dpeval f x * peval g x + peval f x * dpeval g x"
  using dpeval_ser_cong[of h "lmul f g" x] by (simp add: ser_lmul dpeval_lmul)

section \<open>Monic series\<close>

definition monic :: "nat \<Rightarrow> 'a::comm_ring_1 series \<Rightarrow> bool" where
  "monic n s \<longleftrightarrow> coef s n = 1 \<and> (\<forall>k>n. coef s k = 0)"

lemma monic_linear: "monic 1 (ser [- u, 1])"
  by (simp add: monic_def coef_ser)

lemma monic_mult:
  assumes "monic a s" "monic b t"
  shows "monic (a + b) (s * t)"
proof -
  have zero: "coef s i * coef t (n - i) = 0" if "a + b \<le> n" "i \<noteq> a \<or> n \<noteq> a + b" for n i
    using assms that unfolding monic_def by (cases "i \<le> a") auto
  have "coef (s * t) (a + b) = (\<Sum>i\<le>a + b. if i = a then 1 else 0)"
    unfolding coef_mult by (rule sum.cong) (use assms zero in \<open>auto simp: monic_def\<close>)
  moreover have "coef (s * t) k = 0" if "k > a + b" for k
    unfolding coef_mult by (rule sum.neutral) (use that zero in auto)
  ultimately show ?thesis by (simp add: monic_def)
qed

lemma monic_canonical:
  assumes "canonical cs" "monic n (ser cs)"
  shows "length cs = Suc n \<and> last cs = 1"
proof -
  have "length cs \<le> Suc n" using assms by (intro canonical_length) (auto simp: monic_def)
  moreover have "n < length cs" using assms by (auto simp: monic_def coef_ser split: if_splits)
  ultimately have "length cs = Suc n" by simp
  then show ?thesis using assms(2) by (cases cs) (auto simp: monic_def coef_ser last_conv_nth)
qed

end
