(* ===== verification/Dense_Poly.thy ===== *)
theory Dense_Poly
  imports Series Sample
begin

text \<open>
  The arithmetic of \<open>ark_poly\<close>'s \<open>DensePolynomial\<close> as a parameter, like the other operations of
  the arkworks crates.  A polynomial is its coefficient vector; the vector is canonical when it has
  no trailing zero, so the zero polynomial is the empty vector.

  The sources also build vectors that are not canonical (by \<open>resize\<close> and \<open>reverse\<close>) and pass
  them on.  Products are taken of any vectors and come back canonical.  Sums and differences are
  only promised to return when both operands are canonical: \<open>degree\<close>, on which they may rely, is
  only defined for those.  On other operands they may panic (\<open>None\<close>), and have the right
  coefficients when they do not.  A product panics when no evaluation domain is large enough for
  it; the scalar field of the curve has domains up to \<open>2^32\<close> points, and the model takes products
  as total.
\<close>

record 'f dense_poly =
  poly_add :: "'f list \<Rightarrow> 'f list \<Rightarrow> 'f list option"
  poly_sub :: "'f list \<Rightarrow> 'f list \<Rightarrow> 'f list option"
  poly_mul :: "'f list \<Rightarrow> 'f list \<Rightarrow> 'f list"
  poly_degree :: "'f list \<Rightarrow> nat option"
  ark_log2 :: "nat \<Rightarrow> nat"

locale dense_poly_laws =
  fixes D :: "'f::field dense_poly"
  assumes mul_ser: "ser (poly_mul D f g) = ser f * ser g"
    and mul_canonical: "canonical (poly_mul D f g)"
    and add_ser: "poly_add D f g = Some h \<Longrightarrow> ser h = ser f + ser g"
    and add_returns: "canonical f \<Longrightarrow> canonical g \<Longrightarrow> \<exists>h. poly_add D f g = Some h \<and> canonical h"
    and sub_ser: "poly_sub D f g = Some h \<Longrightarrow> ser h = ser f - ser g"
    and sub_returns: "canonical f \<Longrightarrow> canonical g \<Longrightarrow> \<exists>h. poly_sub D f g = Some h \<and> canonical h"
    and degree_canonical: "canonical f \<Longrightarrow> poly_degree D f = Some (length f - 1)"
    and log2_ge: "l \<le> 2 ^ ark_log2 D l"
    and log2_least: "k < ark_log2 D l \<Longrightarrow> 2 ^ k < l"

text \<open>Arithmetic that returns on every pair of vectors, canonical or not.\<close>

definition total_arith :: "'f dense_poly \<Rightarrow> bool" where
  "total_arith D \<longleftrightarrow> (\<forall>f g. poly_add D f g \<noteq> None \<and> poly_sub D f g \<noteq> None)"

section \<open>Two implementations\<close>

text \<open>
  Schoolbook arithmetic over any field, once total and once with the assertion that the leading
  coefficient of an operand is not zero.
\<close>

definition trim :: "'f::zero list \<Rightarrow> 'f list" where
  "trim cs = rev (dropWhile (\<lambda>c. c = 0) (rev cs))"

definition coefwise :: "('f \<Rightarrow> 'f \<Rightarrow> 'f) \<Rightarrow> 'f::zero list \<Rightarrow> 'f list \<Rightarrow> 'f list" where
  "coefwise f xs ys = map (\<lambda>n. f (if n < length xs then xs ! n else 0)
     (if n < length ys then ys ! n else 0)) [0..<max (length xs) (length ys)]"

fun ceil_log2 :: "nat \<Rightarrow> nat" where
  "ceil_log2 n = (if n \<le> 1 then 0 else Suc (ceil_log2 ((n + 1) div 2)))"

declare ceil_log2.simps [simp del]

definition total_poly :: "'f::field dense_poly" where
  "total_poly = \<lparr> poly_add = (\<lambda>f g. Some (trim (coefwise (+) f g))),
     poly_sub = (\<lambda>f g. Some (trim (coefwise (-) f g))),
     poly_mul = (\<lambda>f g. trim (lmul f g)),
     poly_degree = (\<lambda>f. Some (length f - 1)), ark_log2 = ceil_log2 \<rparr>"

definition leading_ok :: "'f::zero list \<Rightarrow> bool" where
  "leading_ok f \<longleftrightarrow> list_all (\<lambda>c. c = 0) f \<or> last f \<noteq> 0"

definition asserting_poly :: "'f::field dense_poly" where
  "asserting_poly = \<lparr>
     poly_add = (\<lambda>f g. if leading_ok f \<and> leading_ok g then Some (trim (coefwise (+) f g)) else None),
     poly_sub = (\<lambda>f g. if leading_ok f \<and> leading_ok g then Some (trim (coefwise (-) f g)) else None),
     poly_mul = (\<lambda>f g. trim (lmul f g)),
     poly_degree = (\<lambda>f. if leading_ok f then Some (length (trim f) - 1) else None),
     ark_log2 = ceil_log2 \<rparr>"

lemma trim_eq: "\<exists>k. cs = trim cs @ replicate k 0"
proof -
  have "takeWhile (\<lambda>c. c = 0) (rev cs) = replicate (length (takeWhile (\<lambda>c. c = 0) (rev cs))) 0"
    by (metis (mono_tags, lifting) replicate_length_same set_takeWhileD)
  then have "cs = trim cs @ replicate (length (takeWhile (\<lambda>c. c = 0) (rev cs))) 0"
    unfolding trim_def by (metis rev_append rev_replicate rev_rev_ident takeWhile_dropWhile_id)
  then show ?thesis ..
qed

lemma ser_pad: "ser (cs @ replicate k 0) = ser cs"
  by (rule series_eqI) (simp add: coef_ser nth_append)

lemma ser_trim [simp]: "ser (trim cs) = ser cs"
  by (metis trim_eq ser_pad)

lemma canonical_trim [simp]: "canonical (trim cs)"
proof (cases "dropWhile (\<lambda>c. c = 0) (rev cs)")
  case (Cons x xs)
  then have "x \<noteq> 0" using hd_dropWhile[of "\<lambda>c. c = 0" "rev cs"] by simp
  with Cons show ?thesis by (simp add: trim_def canonical_def)
qed (simp add: trim_def canonical_def del: dropWhile_eq_Nil_conv)

lemma trim_canonical: "canonical cs \<Longrightarrow> trim cs = cs"
  by (cases cs rule: rev_cases) (simp_all add: trim_def canonical_def)

lemma ser_coefwise:
  "ser (coefwise (+) f g) = ser f + ser g" "ser (coefwise (-) f g) = ser f - ser g"
  for f :: "'f::comm_ring_1 list"
  by (rule series_eqI, auto simp: coef_ser coefwise_def)+

lemma canonical_leading_ok: "canonical f \<Longrightarrow> leading_ok f"
  by (auto simp: canonical_def leading_ok_def)

lemma ceil_log2_ge: "n \<le> 2 ^ ceil_log2 n"
  by (induction n rule: ceil_log2.induct) (subst ceil_log2.simps, auto)

lemma ceil_log2_least: "k < ceil_log2 n \<Longrightarrow> 2 ^ k < n"
proof (induction n arbitrary: k rule: ceil_log2.induct)
  case (1 n)
  from 1(2) have n: "1 < n" "k < Suc (ceil_log2 ((n + 1) div 2))"
    by (subst (asm) ceil_log2.simps, simp split: if_splits)+
  show ?case
  proof (cases k)
    case (Suc j)
    with n have "2 ^ j < (n + 1) div 2" using 1(1)[of j] by simp
    with Suc show ?thesis by simp
  qed (use n in simp)
qed

interpretation total: dense_poly_laws total_poly
  by unfold_locales
    (auto simp: total_poly_def ser_lmul ser_coefwise ceil_log2_ge ceil_log2_least)

interpretation asserting: dense_poly_laws asserting_poly
  by unfold_locales
    (auto simp: asserting_poly_def ser_lmul ser_coefwise ceil_log2_ge ceil_log2_least trim_canonical
      canonical_leading_ok split: if_splits)

lemma total_arith_total: "total_arith total_poly"
  by (simp add: total_arith_def total_poly_def)

end
