(* ===== verification/Subproduct_Tree.thy ===== *)
theory Subproduct_Tree
  imports Dense_Poly Subproduct
begin

text \<open>
  The fast polynomial algorithms of \<open>subproductdomain/src/lib.rs\<close>: inversion modulo \<open>x^l\<close> by
  Newton's iteration, division by a monic polynomial through reversed coefficients, the subproduct
  tree over arbitrary points with multi-point evaluation, linear combination of moduli and
  interpolation.  Polynomial arithmetic is the parameter \<open>D\<close> of \<open>Dense_Poly\<close>.

  \<open>SubproductTree::new\<close> is a recursion that does not end on an empty slice, so it is a partial
  function whose value \<open>None\<close> means that it does not return.  A slice argument that is written
  through (\<open>t\<close> of \<open>evaluate\<close>) is passed in and returned.
\<close>

type_synonym 'a sub_result = "(string, 'a) outcome"

section \<open>Vectors\<close>

definition vec_resize :: "'a list \<Rightarrow> nat \<Rightarrow> 'a \<Rightarrow> 'a list" where
  "vec_resize xs n z = take n xs @ replicate (n - length xs) z"

definition split_at :: "'a list \<Rightarrow> nat \<Rightarrow> ('e, 'a list \<times> 'a list) outcome" where
  "split_at xs n = (if n \<le> length xs then Ok (take n xs, drop n xs) else Panic)"

definition field_inverse :: "'f::field \<Rightarrow> 'f option" where
  "field_inverse x = (if x = 0 then None else Some (inverse x))"

section \<open>Polynomials from scalars, inversion and division\<close>

definition poly_from_scalar :: "'f \<Rightarrow> 'f list" where
  "poly_from_scalar s = [s]"

definition moduli_from_scalar :: "'f::field \<Rightarrow> 'f list" where
  "moduli_from_scalar s = [- s, 1]"

primrec newton_loop ::
  "'f::field dense_poly \<Rightarrow> 'f list \<Rightarrow> nat \<Rightarrow> 'f list \<Rightarrow> nat \<Rightarrow> 'f list sub_result" where
  "newton_loop D func 0 func_inv acc = Ok func_inv"
| "newton_loop D func (Suc k) func_inv acc =
     and_then (expect (poly_add D func_inv func_inv)) (\<lambda>twice.
     and_then (expect (poly_sub D twice (poly_mul D func (poly_mul D func_inv func_inv)))) (\<lambda>next.
     newton_loop D func k (vec_resize next (min (length next) acc) 0) (acc * 2)))"

definition inverse_mod_xl :: "'f::field dense_poly \<Rightarrow> 'f list \<Rightarrow> nat \<Rightarrow> 'f list option sub_result" where
  "inverse_mod_xl D func l =
     (let log = ark_log2 D l in
      and_then (slice_index func 0) (\<lambda>f_0.
      case field_inverse f_0 of
        Some f_0_inv \<Rightarrow> and_then (newton_loop D func log [f_0_inv] 2) (\<lambda>func_inv. Ok (Some func_inv))
      | None \<Rightarrow> Ok None))"

text \<open>On an empty vector \<open>f.coeffs.len() - 1\<close> underflows, so that the assertion does not hold.\<close>

definition poly_rev :: "'f::field list \<Rightarrow> nat \<Rightarrow> 'f list sub_result" where
  "poly_rev f m = and_then (rust_assert (f \<noteq> [] \<and> length f - 1 \<le> m)) (\<lambda>_.
     Ok (rev (f @ replicate (m - (length f - 1)) 0)))"

definition fast_divide_monic ::
  "'f::field dense_poly \<Rightarrow> 'f list \<Rightarrow> 'f list \<Rightarrow> ('f list \<times> 'f list) sub_result" where
  "fast_divide_monic D func divisor =
     (if length func < length divisor then Ok ([0], func)
      else
        let deg_diff = length func - length divisor; rev_f = rev func; rev_g = rev divisor in
        and_then (inverse_mod_xl D rev_g (deg_diff + 1)) (\<lambda>inv.
        and_then (expect inv) (\<lambda>inv.
        and_then (poly_rev (vec_resize (poly_mul D rev_f inv) (deg_diff + 1) 0) deg_diff) (\<lambda>quotient.
        and_then (expect (poly_sub D func (poly_mul D divisor quotient))) (\<lambda>remainder.
        Ok (quotient, remainder))))))"

text \<open>\<open>Vec::with_capacity(f.coeffs().len() - 1)\<close> panics on the empty vector.\<close>

definition derivative :: "'f::field list \<Rightarrow> 'f list sub_result" where
  "derivative f = (if f = [] then Panic
     else Ok (map (\<lambda>(i, c). of_nat i * c) (drop 1 (enumerate 0 f))))"

section \<open>The subproduct tree\<close>

datatype 'f subproduct_tree = SubproductTree
  (tree_left: "'f subproduct_tree option") (tree_right: "'f subproduct_tree option") (tree_m: "'f list")

partial_function (option) tree_new ::
  "'f::field dense_poly \<Rightarrow> 'f list \<Rightarrow> 'f subproduct_tree option" where
  "tree_new D u =
     (if length u = 1 then Some (SubproductTree None None [- (u ! 0), 1])
      else
        let n = length u div 2 in
        Option.bind (tree_new D (take n u)) (\<lambda>left.
        Option.bind (tree_new D (drop n u)) (\<lambda>right.
        Some (SubproductTree (Some left) (Some right) (poly_mul D (tree_m left) (tree_m right))))))"

fun tree_evaluate ::
  "'f::field dense_poly \<Rightarrow> 'f subproduct_tree \<Rightarrow> 'f list \<Rightarrow> 'f list \<Rightarrow> 'f list \<Rightarrow> 'f list sub_result" where
  "tree_evaluate D (SubproductTree l r m) f u t =
     and_then (expect (poly_degree D f)) (\<lambda>degree.
     and_then (rust_assert (degree < length u)) (\<lambda>_.
     if length u = 1 then and_then (slice_index f 0) (\<lambda>c. slice_set t 0 c)
     else case l of None \<Rightarrow> Panic | Some left \<Rightarrow> (case r of None \<Rightarrow> Panic | Some right \<Rightarrow>
       and_then (fast_divide_monic D f (tree_m left)) (\<lambda>(_, r_0).
       and_then (fast_divide_monic D f (tree_m right)) (\<lambda>(_, r_1).
       let n = length u div 2 in
       and_then (split_at t n) (\<lambda>(t_0, t_1).
       and_then (tree_evaluate D left r_0 (take n u) t_0) (\<lambda>t_0'.
       and_then (tree_evaluate D right r_1 (drop n u) t_1) (\<lambda>t_1'.
       Ok (t_0' @ t_1'))))))))) "

definition tree_inverse_lagrange_coefficients ::
  "'f::field dense_poly \<Rightarrow> 'f subproduct_tree \<Rightarrow> 'f list \<Rightarrow> 'f list sub_result" where
  "tree_inverse_lagrange_coefficients D self u =
     (if length u = 1 then Ok [1]
      else and_then (derivative (tree_m self)) (\<lambda>m_prime.
        tree_evaluate D self m_prime u (replicate (length u) 0)))"

fun tree_linear_combine ::
  "'f::field dense_poly \<Rightarrow> 'f subproduct_tree \<Rightarrow> 'f list \<Rightarrow> 'f list \<Rightarrow> 'f list sub_result" where
  "tree_linear_combine D (SubproductTree l r m) u c =
     (if length u = 1 then and_then (slice_index c 0) (\<lambda>c_0. Ok [c_0])
      else
        let n = length u div 2 in
        and_then (split_at c n) (\<lambda>(c_0, c_1).
        case l of None \<Rightarrow> Panic | Some left \<Rightarrow> (case r of None \<Rightarrow> Panic | Some right \<Rightarrow>
          and_then (tree_linear_combine D left (take n u) c_0) (\<lambda>r_0.
          and_then (tree_linear_combine D right (drop n u) c_1) (\<lambda>r_1.
          expect (poly_add D (poly_mul D (tree_m right) r_0) (poly_mul D (tree_m left) r_1)))))))"

text \<open>\<open>iter_mut().zip(v)\<close>: entries beyond the length of \<open>v\<close> stay as they are.\<close>

fun scale_by_inverse :: "'f::field list \<Rightarrow> 'f list \<Rightarrow> 'f list sub_result" where
  "scale_by_inverse (s # ss) (v # vs) =
     and_then (expect (field_inverse s)) (\<lambda>s_inv.
     and_then (scale_by_inverse ss vs) (\<lambda>rest. Ok (s_inv * v # rest)))"
| "scale_by_inverse ss [] = Ok ss"
| "scale_by_inverse [] vs = Ok []"

definition tree_interpolate ::
  "'f::field dense_poly \<Rightarrow> 'f subproduct_tree \<Rightarrow> 'f list \<Rightarrow> 'f list \<Rightarrow> 'f list sub_result" where
  "tree_interpolate D self u v =
     and_then (tree_inverse_lagrange_coefficients D self u) (\<lambda>lagrange_coeff.
     and_then (scale_by_inverse lagrange_coeff v) (\<lambda>lagrange_coeff.
     tree_linear_combine D self u lagrange_coeff))"

section \<open>The subproduct domain\<close>

record 'f subproduct_domain =
  dom_u :: "'f list"
  dom_t :: "'f subproduct_tree"
  dom_prime :: "'f list"

definition subproduct_new :: "'f::field dense_poly \<Rightarrow> 'f list \<Rightarrow> 'f subproduct_domain sub_result option" where
  "subproduct_new D u = Option.bind (tree_new D u) (\<lambda>t.
     Some (and_then (derivative (tree_m t)) (\<lambda>prime.
       Ok \<lparr> dom_u = u, dom_t = t, dom_prime = prime \<rparr>)))"

definition subproduct_evaluate :: "'f::field dense_poly \<Rightarrow> 'f subproduct_domain \<Rightarrow> 'f list \<Rightarrow> 'f list sub_result" where
  "subproduct_evaluate D s f = tree_evaluate D (dom_t s) f (dom_u s) (replicate (length (dom_u s)) 0)"

definition subproduct_interpolate :: "'f::field dense_poly \<Rightarrow> 'f subproduct_domain \<Rightarrow> 'f list \<Rightarrow> 'f list sub_result" where
  "subproduct_interpolate D s v = tree_interpolate D (dom_t s) (dom_u s) v"

definition subproduct_inverse_lagrange_coefficients ::
  "'f::field dense_poly \<Rightarrow> 'f subproduct_domain \<Rightarrow> 'f list sub_result" where
  "subproduct_inverse_lagrange_coefficients D s =
     tree_inverse_lagrange_coefficients D (dom_t s) (dom_u s)"

definition subproduct_linear_combine :: "'f::field dense_poly \<Rightarrow> 'f subproduct_domain \<Rightarrow> 'f list \<Rightarrow> 'f list sub_result" where
  "subproduct_linear_combine D s c = tree_linear_combine D (dom_t s) (dom_u s) c"

section \<open>Inversion\<close>

lemma vec_resize_take: "n \<le> length xs \<Longrightarrow> vec_resize xs n z = take n xs"
  by (simp add: vec_resize_def)

lemma length_vec_resize [simp]: "length (vec_resize xs n z) = n"
  by (simp add: vec_resize_def)

lemma ser_vec_resize: "eq_upto n (ser (vec_resize xs n 0)) (ser xs)"
  by (auto simp: eq_upto_def coef_ser vec_resize_def nth_append)

lemma ser_truncated: "eq_upto k (ser (vec_resize xs (min (length xs) k) 0)) (ser xs)"
proof (cases "length xs \<le> k")
  case False
  then show ?thesis by (simp add: vec_resize_take eq_upto_take)
qed (simp add: vec_resize_take)

context dense_poly_laws begin

lemma newton_loop_correct:
  "newton_loop D func n s acc = Ok h \<Longrightarrow> acc = 2 * k \<Longrightarrow> eq_upto k (ser func * ser s) 1 \<Longrightarrow>
     eq_upto (k * 2 ^ n) (ser func * ser h) 1"
proof (induction n arbitrary: s acc k)
  case (Suc n)
  obtain tw nx where tw: "poly_add D s s = Some tw"
    and nx: "poly_sub D tw (poly_mul D func (poly_mul D s s)) = Some nx"
    and rest: "newton_loop D func n (vec_resize nx (min (length nx) acc) 0) (acc * 2) = Ok h"
    using Suc.prems(1) by (auto simp: outcome_simps)
  let ?s = "vec_resize nx (min (length nx) acc) 0"
  have "ser nx = ser s + ser s - ser func * (ser s * ser s)"
    using sub_ser[OF nx] add_ser[OF tw] by (simp add: mul_ser)
  then have "eq_upto (2 * k) (ser func * ser nx) 1" using newton_step[OF Suc.prems(3)] by simp
  with eq_upto_mult[OF ser_truncated[of acc nx]] have "eq_upto (2 * k) (ser func * ser ?s) 1"
    using Suc.prems(2) eq_upto_trans by blast
  from Suc.IH[OF rest _ this] show ?case using Suc.prems(2) by (simp add: mult_ac)
qed simp

lemma newton_loop_not_Err: "newton_loop D func n s acc \<noteq> Err e"
  by (induction n arbitrary: s acc) (auto simp: outcome_simps)

lemma newton_loop_returns:
  assumes "total_arith D \<or> n \<le> 1 \<and> canonical s"
  shows "newton_loop D func n s acc \<noteq> Panic"
proof (cases "total_arith D")
  case True
  then show ?thesis
    by (induction n arbitrary: s acc) (auto simp: outcome_simps total_arith_def)
next
  case False
  with assms consider "n = 0" | "n = 1" "canonical s" by (cases n) auto
  then show ?thesis
  proof cases
    case 2
    obtain tw where tw: "poly_add D s s = Some tw" "canonical tw" using 2(2) add_returns by blast
    then obtain nx where "poly_sub D tw (poly_mul D func (poly_mul D s s)) = Some nx"
      using sub_returns mul_canonical by blast
    with 2 tw show ?thesis by (simp add: outcome_simps)
  qed simp
qed

lemma inverse_mod_xl_Some:
  assumes "inverse_mod_xl D f l = Ok (Some h)"
  shows "eq_upto l (ser f * ser h) 1"
proof -
  obtain c cs where f: "f = c # cs" "c \<noteq> 0"
    and loop: "newton_loop D f (ark_log2 D l) [inverse c] 2 = Ok h"
    using assms by (cases f)
      (auto simp: inverse_mod_xl_def Let_def outcome_simps field_inverse_def split: if_splits)
  have "eq_upto 1 (ser f * ser [inverse c]) 1"
    using f by (simp add: eq_upto_def coef_mult)
  from newton_loop_correct[OF loop _ this] have "eq_upto (2 ^ ark_log2 D l) (ser f * ser h) 1" by simp
  then show ?thesis using log2_ge by (rule eq_upto_mono)
qed

lemma log2_small: "l \<le> 2 \<Longrightarrow> ark_log2 D l \<le> 1"
  using log2_least[of 1 l] by (cases "ark_log2 D l \<le> 1") auto

lemma inverse_mod_xl_returns:
  assumes "f \<noteq> []" "f ! 0 \<noteq> 0" "total_arith D \<or> l \<le> 2"
  shows "\<exists>h. inverse_mod_xl D f l = Ok (Some h)"
proof -
  have "newton_loop D f (ark_log2 D l) [inverse (f ! 0)] 2 \<noteq> Panic"
    by (rule newton_loop_returns) (use assms log2_small in auto)
  then obtain h where "newton_loop D f (ark_log2 D l) [inverse (f ! 0)] 2 = Ok h"
    using newton_loop_not_Err by (metis outcome.exhaust)
  with assms show ?thesis
    by (simp add: inverse_mod_xl_def Let_def slice_index_if field_inverse_def)
qed

lemma inverse_mod_xl_cases:
  "inverse_mod_xl D f l = Panic \<or> inverse_mod_xl D f l = Ok None \<and> f \<noteq> [] \<and> f ! 0 = 0 \<or>
   f \<noteq> [] \<and> f ! 0 \<noteq> 0 \<and> (\<exists>h. inverse_mod_xl D f l = Ok (Some h))"
  using newton_loop_not_Err[of f "ark_log2 D l" "[inverse (f ! 0)]" 2]
  by (cases "newton_loop D f (ark_log2 D l) [inverse (f ! 0)] 2")
    (auto simp: inverse_mod_xl_def Let_def slice_index_if field_inverse_def)

end

section \<open>Division\<close>

lemma poly_rev_full: "length f = Suc m \<Longrightarrow> poly_rev f m = Ok (rev f)"
  by (cases f) (simp_all add: poly_rev_def)

text \<open>Coefficients of \<open>f - g q\<close> from \<open>x^(n-1)\<close> on vanish when \<open>q\<close> is read off the reversed product,
  \<open>g\<close> having \<open>n\<close> coefficients.\<close>

lemma reversed_quotient:
  fixes f g q h :: "'f::field list"
  assumes len: "length f = Suc (m + d)" "length g = Suc m" "length q = Suc d"
    and inv: "eq_upto (Suc d) (ser (rev g) * h') 1"
    and quo: "eq_upto (Suc d) (ser (rev q)) (ser (rev f) * h')"
    and n: "m \<le> n"
  shows "coef (ser f - ser g * ser q) n = 0"
proof (cases "n \<le> m + d")
  case True
  define i where "i = m + d - n"
  have i: "i \<le> d" "n = m + d - i" using True n by (auto simp: i_def)
  have "eq_upto (Suc d) (ser (rev g) * ser (rev q)) (ser (rev f) * (ser (rev g) * h'))"
    using eq_upto_mult[OF quo, of "ser (rev g)"] by (simp add: mult.left_commute)
  with eq_upto_mult[OF inv, of "ser (rev f)"]
  have "eq_upto (Suc d) (ser (rev g) * ser (rev q)) (ser (rev f))"
    using eq_upto_trans by fastforce
  then have "coef (ser (rev g) * ser (rev q)) i = coef (ser (rev f)) i"
    using i by (simp add: eq_upto_def)
  then have "coef (ser g * ser q) n = coef (ser f) n"
    using coef_mult_rev[OF len(2,3), of i] ser_take_drop_rev[of i f] i len by simp
  then show ?thesis by simp
next
  case False
  have "coef (ser g) i * coef (ser q) (n - i) = 0" for i
    using False len by (cases "i \<le> m") (auto simp: coef_ser)
  then have "coef (ser g * ser q) n = 0" unfolding coef_mult by (intro sum.neutral) blast
  then show ?thesis using False len by (simp add: coef_ser[of f])
qed

context dense_poly_laws begin

lemma fast_divide_long:
  assumes "length g \<le> length f" "canonical f" "g \<noteq> []" "last g = 1"
    and inv: "inverse_mod_xl D (rev g) (length f - length g + 1) = Ok (Some h)"
  shows "\<exists>q r. fast_divide_monic D f g = Ok (q, r) \<and> ser f = ser q * ser g + ser r \<and>
    canonical r \<and> length r < length g \<and> length q = length f - length g + 1"
proof -
  let ?d = "length f - length g"
  define q where "q = rev (vec_resize (poly_mul D (rev f) h) (?d + 1) 0)"
  obtain r where r: "poly_sub D f (poly_mul D g q) = Some r" "canonical r"
    using assms sub_returns mul_canonical by blast
  have res: "fast_divide_monic D f g = Ok (q, r)"
    using assms(1) inv r unfolding q_def
    by (simp add: fast_divide_monic_def poly_rev_full Let_def)
  have ser_r: "ser r = ser f - ser g * ser q" using sub_ser[OF r(1)] by (simp add: mul_ser)
  have "coef (ser r) n = 0" if "length g - 1 \<le> n" for n
    unfolding ser_r
  proof (rule reversed_quotient[where h' = "ser h" and d = ?d and m = "length g - 1"])
    show "eq_upto (Suc ?d) (ser (rev g) * ser h) 1" using inverse_mod_xl_Some[OF inv] by simp
    show "eq_upto (Suc ?d) (ser (rev q)) (ser (rev f) * ser h)"
      using ser_vec_resize[of "Suc ?d" "poly_mul D (rev f) h"] by (simp add: q_def mul_ser)
  qed (use assms that in \<open>cases g; simp add: q_def\<close>)+
  then have "length r \<le> length g - 1" using r(2) by (intro canonical_length) auto
  with assms(3) have "length r < length g" by (cases g) auto
  then show ?thesis using res ser_r r(2) by (simp add: q_def mult.commute)
qed

lemma rev_monic: "g \<noteq> [] \<Longrightarrow> last g = 1 \<Longrightarrow> rev g \<noteq> [] \<and> rev g ! 0 = (1::'f)"
  by (cases g rule: rev_cases) auto

lemma fast_divide_cases:
  assumes "canonical f" "g \<noteq> []" "last g = 1"
  shows "fast_divide_monic D f g = Panic \<or> (\<exists>q r. fast_divide_monic D f g = Ok (q, r) \<and>
    ser f = ser q * ser g + ser r \<and> canonical r \<and> length r < length g)"
proof (cases "length f < length g")
  case True
  have "ser [0::'f] = 0" by (rule series_eqI) (simp add: coef_ser)
  with True assms show ?thesis by (simp add: fast_divide_monic_def)
next
  case False
  consider h where "inverse_mod_xl D (rev g) (length f - length g + 1) = Ok (Some h)"
    | "inverse_mod_xl D (rev g) (length f - length g + 1) = Panic"
    using inverse_mod_xl_cases[of "rev g" "length f - length g + 1"] rev_monic[OF assms(2,3)] by auto
  then show ?thesis
  proof cases
    case 1
    with False assms fast_divide_long[of g f h] show ?thesis by fastforce
  next
    case 2
    with False show ?thesis by (simp add: fast_divide_monic_def)
  qed
qed

lemma fast_divide_not_Panic:
  assumes "canonical f" "g \<noteq> []" "last g = 1"
    and "\<not> (length g \<le> length f \<and> inverse_mod_xl D (rev g) (length f - length g + 1) = Panic)"
  shows "fast_divide_monic D f g \<noteq> Panic"
proof (cases "length f < length g")
  case False
  with assms(4) have "inverse_mod_xl D (rev g) (length f - length g + 1) \<noteq> Panic" by simp
  then obtain h where "inverse_mod_xl D (rev g) (length f - length g + 1) = Ok (Some h)"
    using inverse_mod_xl_cases[of "rev g" "length f - length g + 1"] rev_monic[OF assms(2,3)] by auto
  with False assms fast_divide_long[of g f h] show ?thesis by fastforce
qed (simp add: fast_divide_monic_def)

lemma fast_divide_returns:
  assumes "canonical f" "g \<noteq> []" "last g = 1" "total_arith D \<or> length f \<le> length g + 1"
  shows "fast_divide_monic D f g \<noteq> Panic"
proof (cases "length f < length g")
  case False
  obtain h where "inverse_mod_xl D (rev g) (length f - length g + 1) = Ok (Some h)"
    using inverse_mod_xl_returns[of "rev g" "length f - length g + 1"] rev_monic[OF assms(2,3)]
      assms(4) by (auto simp: le_diff_conv)
  with False assms fast_divide_long[of g f h] show ?thesis by fastforce
qed (simp add: fast_divide_monic_def)

end

end
