(* ===== verification/Multipoint.thy ===== *)
theory Multipoint
  imports Subproduct_Tree
begin

text \<open>
  Properties of the subproduct tree: on which slices its construction returns, the invariant of the
  trees it builds, multi-point evaluation, linear combination of moduli, the values of the
  derivative (inverse Lagrange coefficients) and interpolation.
\<close>

section \<open>Products of moduli and their linear combinations\<close>

abbreviation moduli :: "'f::field list \<Rightarrow> 'f series" where
  "moduli u \<equiv> prod_list (map (\<lambda>x. ser [- x, 1]) u)"

abbreviation diffs :: "'f::field \<Rightarrow> 'f list \<Rightarrow> 'f" where
  "diffs x u \<equiv> prod_list (map (\<lambda>y. x - y) u)"

text \<open>The value at \<open>x\<close> of the sum of \<open>c_i m / (x - u_i)\<close>.\<close>

fun lin_comb :: "'f::field list \<Rightarrow> 'f list \<Rightarrow> 'f \<Rightarrow> 'f" where
  "lin_comb (u # us) (c # cs) x = c * diffs x us + (x - u) * lin_comb us cs x"
| "lin_comb us cs x = 0"

lemma lin_comb_append:
  "length u = length c \<Longrightarrow> lin_comb (u @ u') (c @ c') x =
     lin_comb u c x * diffs x u' + diffs x u * lin_comb u' c' x"
  by (induction u c rule: list_induct2) (simp_all add: algebra_simps)

lemma lin_comb_eq_sum:
  "length u = length c \<Longrightarrow>
     lin_comb u c x = (\<Sum>i<length u. c ! i * (\<Prod>j\<in>{..<length u} - {i}. x - u ! j))"
proof (induction u c rule: list_induct2)
  case (Cons u us c cs)
  let ?n = "length us"
  have all: "diffs x us = (\<Prod>j<?n. x - us ! j)"
    by (simp add: prod.list_conv_set_nth atLeast0LessThan)
  have shift: "(\<Prod>j\<in>Suc ` A. x - (u # us) ! j) = (\<Prod>j\<in>A. x - us ! j)" for A
    by (subst prod.reindex) auto
  have zero: "{..<Suc ?n} - {0} = Suc ` {..<?n}" by (auto simp: image_iff less_Suc_eq_0_disj)
  have suc: "{..<Suc ?n} - {Suc i} = insert 0 (Suc ` ({..<?n} - {i}))" for i
    by (auto simp: image_iff less_Suc_eq_0_disj)
  have head: "(\<Prod>j\<in>{..<Suc ?n} - {Suc i}. x - (u # us) ! j) = (x - u) * (\<Prod>j\<in>{..<?n} - {i}. x - us ! j)" for i
    unfolding suc by (subst prod.insert) (auto simp: shift)
  show ?case
    by (simp add: sum.lessThan_Suc_shift zero shift head all Cons.IH sum_distrib_left mult_ac
      del: prod.lessThan_Suc sum.lessThan_Suc)
qed simp

lemma diffs_zero: "x \<in> set u \<Longrightarrow> diffs x u = 0"
  by (induction u) auto

lemma diffs_nonzero: "x \<notin> set u \<Longrightarrow> diffs x u \<noteq> 0"
  by (induction u) auto

text \<open>At a point of a distinct domain only its own summand is left.\<close>

lemma lin_comb_at:
  "length u = length c \<Longrightarrow> distinct u \<Longrightarrow> i < length u \<Longrightarrow>
     lin_comb u c (u ! i) = c ! i * lin_comb u (replicate (length u) 1) (u ! i)"
proof (induction u c arbitrary: i rule: list_induct2)
  case (Cons u us c cs)
  show ?case
  proof (cases i)
    case (Suc j)
    then have "diffs (us ! j) us = 0" using Cons.prems by (intro diffs_zero) simp
    with Suc Cons show ?thesis by simp
  qed simp
qed simp

lemma lin_comb_ones_nonzero:
  "distinct u \<Longrightarrow> i < length u \<Longrightarrow> lin_comb u (replicate (length u) 1) (u ! i) \<noteq> 0"
proof (induction u arbitrary: i)
  case (Cons u us)
  show ?case
  proof (cases i)
    case 0
    then show ?thesis using Cons.prems diffs_nonzero[of u us] by simp
  next
    case (Suc j)
    then have "diffs (us ! j) us = 0" "us ! j \<noteq> u"
      using Cons.prems by (auto intro!: diffs_zero)
    with Suc Cons show ?thesis by simp
  qed
qed simp

lemma monic_moduli: "monic (length u) (moduli u)"
proof (induction u)
  case (Cons a u)
  from monic_mult[OF monic_linear this] show ?case by simp
qed (simp add: monic_def)

lemma moduli_list: "\<exists>p. ser p = moduli u \<and> (\<forall>x. peval p x = diffs x u) \<and>
    (\<forall>x. dpeval p x = lin_comb u (replicate (length u) 1) x)"
proof (induction u)
  case Nil
  show ?case by (rule exI[of _ "[1]"]) simp
next
  case (Cons a u)
  then obtain p where "ser p = moduli u" "\<forall>x. peval p x = diffs x u"
    "\<forall>x. dpeval p x = lin_comb u (replicate (length u) 1) x" by blast
  then show ?case
    by (intro exI[of _ "lmul [- a, 1] p"])
      (simp add: ser_lmul peval_lmul dpeval_lmul algebra_simps del: lmul.simps)
qed

lemma moduli_eval:
  assumes "ser m = moduli u"
  shows "peval m x = diffs x u" "dpeval m x = lin_comb u (replicate (length u) 1) x"
  using moduli_list[of u] assms peval_ser_cong[of m] dpeval_ser_cong[of m] by metis+

section \<open>Construction of the tree\<close>

text \<open>The tree that the code's documentation describes: \<open>m\<close> is the product of the \<open>x - u_i\<close>, and the
  children are the trees of the two halves of the slice.\<close>

fun tree_of :: "'f::field subproduct_tree \<Rightarrow> 'f list \<Rightarrow> bool" where
  "tree_of (SubproductTree l r m) u \<longleftrightarrow>
     canonical m \<and> ser m = moduli u \<and>
     (if length u = 1 then l = None \<and> r = None
      else 2 \<le> length u \<and>
        (case l of None \<Rightarrow> False | Some left \<Rightarrow> tree_of left (take (length u div 2) u)) \<and>
        (case r of None \<Rightarrow> False | Some right \<Rightarrow> tree_of right (drop (length u div 2) u)))"

lemma tree_of_m:
  assumes "tree_of t u"
  shows "canonical (tree_m t)" "ser (tree_m t) = moduli u" "length (tree_m t) = Suc (length u)"
    "last (tree_m t) = 1" "tree_m t \<noteq> []"
proof -
  show c: "canonical (tree_m t)" and s: "ser (tree_m t) = moduli u" using assms by (cases t; simp)+
  with monic_canonical[OF c, of "length u"] monic_moduli[of u]
  show "length (tree_m t) = Suc (length u)" "last (tree_m t) = 1" "tree_m t \<noteq> []" by auto
qed

lemma tree_of_node:
  assumes "tree_of t u" "length u \<noteq> 1"
  obtains left right m where "t = SubproductTree (Some left) (Some right) m"
    "tree_of left (take (length u div 2) u)" "tree_of right (drop (length u div 2) u)" "2 \<le> length u"
  using assms by (cases t) (auto split: option.splits)

lemma tree_new_empty: "tree_new D [] = None"
proof (rule ccontr)
  assume "tree_new D [] \<noteq> None"
  then obtain t where t: "tree_new D [] = Some t" by auto
  from t have "SubproductTree (Some t) (Some t) (poly_mul D (tree_m t) (tree_m t)) = t"
    by (subst (asm) tree_new.simps) (simp add: t)
  from arg_cong[OF this, of size] show False by simp
qed

context dense_poly_laws begin

lemma tree_new_tree_of: "u \<noteq> [] \<Longrightarrow> \<exists>t. tree_new D u = Some t \<and> tree_of t u"
proof (induction u rule: measure_induct_rule[of length])
  case (less u)
  show ?case
  proof (cases "length u = 1")
    case True
    then obtain a where "u = [a]" by (auto simp: length_Suc_conv)
    then show ?thesis by (subst tree_new.simps) (simp add: canonical_def)
  next
    case False
    let ?n = "length u div 2"
    have n: "0 < ?n" "?n < length u" "length u - ?n < length u"
      using False less.prems by (cases u; auto)+
    obtain l where l: "tree_new D (take ?n u) = Some l" "tree_of l (take ?n u)"
      using less.IH[of "take ?n u"] n less.prems by auto
    obtain r where r: "tree_new D (drop ?n u) = Some r" "tree_of r (drop ?n u)"
      using less.IH[of "drop ?n u"] n by auto
    have "moduli u = moduli (take ?n u) * moduli (drop ?n u)"
      by (metis append_take_drop_id map_append prod_list.append)
    then have "tree_of (SubproductTree (Some l) (Some r) (poly_mul D (tree_m l) (tree_m r))) u"
      using False n l r by (simp add: mul_canonical mul_ser tree_of_m)
    with False l r show ?thesis by (subst tree_new.simps) (simp add: Let_def)
  qed
qed

lemma tree_new_iff: "tree_new D u = Some t \<Longrightarrow> tree_of t u"
  using tree_new_tree_of[of u] tree_new_empty[of D] by (cases "u = []") auto

end

section \<open>Evaluation over the tree\<close>

lemma split_at_Ok: "n \<le> length xs \<Longrightarrow> split_at xs n = Ok (take n xs, drop n xs)"
  by (simp add: split_at_def)

lemma canonical_short:
  assumes "canonical f" "length f \<le> 1"
  shows "f = [] \<and> peval f x = 0 \<or> f = [peval f x] \<and> peval f x \<noteq> 0"
  using assms by (cases f) (auto simp: canonical_def)

context dense_poly_laws begin

lemma divide_same_values:
  fixes f q r :: "'f list"
  assumes "tree_of t u" "ser f = ser q * ser (tree_m t) + ser r" "x \<in> set u"
  shows "peval r x = peval f x"
proof -
  have "ser r = ser f - ser (poly_mul D q (tree_m t))" using assms(2) by (simp add: mul_ser)
  then have "peval r x = peval f x - peval q x * peval (tree_m t) x"
    by (simp add: peval_ser_diff peval_ser_mult[OF mul_ser])
  then show ?thesis
    using moduli_eval(1)[OF tree_of_m(2)[OF assms(1)]] diffs_zero[OF assms(3)] by simp
qed

text \<open>Division by the polynomial of a subtree leaves a remainder with the same values there.\<close>

lemma divide_by_subtree:
  assumes "tree_of t u" "canonical f"
  shows "fast_divide_monic D f (tree_m t) = Panic \<or> (\<exists>q r. fast_divide_monic D f (tree_m t) = Ok (q, r) \<and>
    canonical r \<and> length r \<le> length u \<and> (\<forall>x\<in>set u. peval r x = peval f x))"
  using fast_divide_cases[OF assms(2), of "tree_m t"] tree_of_m[OF assms(1)] divide_same_values[OF assms(1), of f]
  by fastforce

lemma tree_evaluate_leaf:
  assumes "canonical f" "length f \<le> 1" "length u = 1" "length ts = 1"
  shows "tree_evaluate D t f u ts =
    (if 0 \<in> peval f ` set u then Panic else Ok (map (peval f) u))"
proof -
  obtain x y where u: "u = [x]" "ts = [y]" using assms(3,4) by (auto simp: length_Suc_conv)
  consider "f = []" | c where "f = [c]" "c \<noteq> 0" using canonical_short[OF assms(1,2), of x] by blast
  then show ?thesis
    by cases (use u degree_canonical[OF assms(1)] in \<open>cases t; simp add: slice_index_if slice_set_def\<close>)+
qed

lemma tree_evaluate_node:
  assumes "canonical f" "length f \<le> length u" "length ts = length u" "2 \<le> length u"
  shows "tree_evaluate D (SubproductTree (Some l) (Some r) m) f u ts =
    and_then (fast_divide_monic D f (tree_m l)) (\<lambda>(_, r_0).
    and_then (fast_divide_monic D f (tree_m r)) (\<lambda>(_, r_1).
    and_then (tree_evaluate D l r_0 (take (length u div 2) u) (take (length u div 2) ts)) (\<lambda>a.
    and_then (tree_evaluate D r r_1 (drop (length u div 2) u) (drop (length u div 2) ts)) (\<lambda>b.
    Ok (a @ b)))))"
proof -
  have "length f - 1 < length u" "length u \<noteq> 1" "length u div 2 \<le> length ts" using assms by linarith+
  then show ?thesis using assms(1) by (simp add: degree_canonical split_at_Ok Let_def)
qed

lemma tree_evaluate_cases:
  "tree_of t u \<Longrightarrow> canonical f \<Longrightarrow> length f \<le> length u \<Longrightarrow> length ts = length u \<Longrightarrow>
     tree_evaluate D t f u ts = Panic \<and> (0 \<in> peval f ` set u \<or> \<not> total_arith D \<and> 4 < length u) \<or>
     tree_evaluate D t f u ts = Ok (map (peval f) u) \<and> 0 \<notin> peval f ` set u"
proof (induction u arbitrary: t f ts rule: measure_induct_rule[of length])
  case (less u)
  show ?case
  proof (cases "length u = 1")
    case True
    then show ?thesis using less.prems tree_evaluate_leaf[of f u ts t] by auto
  next
    case False
    let ?n = "length u div 2"
    obtain l r m where t: "t = SubproductTree (Some l) (Some r) m"
      and l: "tree_of l (take ?n u)" and r: "tree_of r (drop ?n u)" and u2: "2 \<le> length u"
      using tree_of_node[OF less.prems(1) False] .
    have n: "min (length u) ?n < length u" "length u - ?n < length u" using u2 by auto
    note node = tree_evaluate_node[OF less.prems(2-4) u2, of l r m, folded t]
    consider "tree_evaluate D t f u ts = Panic" "\<not> total_arith D" "4 < length u"
      | q0 r0 q1 r1 where "fast_divide_monic D f (tree_m l) = Ok (q0, r0)"
        "fast_divide_monic D f (tree_m r) = Ok (q1, r1)" "canonical r0" "canonical r1"
        "length r0 \<le> length (take ?n u)" "length r1 \<le> length (drop ?n u)"
        "\<forall>x\<in>set (take ?n u). peval r0 x = peval f x" "\<forall>x\<in>set (drop ?n u). peval r1 x = peval f x"
    proof (cases "fast_divide_monic D f (tree_m l) = Panic \<or> fast_divide_monic D f (tree_m r) = Panic")
      case True
      have "length (tree_m l) = Suc ?n" "length (tree_m r) = Suc (length u - ?n)"
        using tree_of_m(3)[OF l] tree_of_m(3)[OF r] by simp_all
      then have "length f \<le> length (tree_m l) + 1 \<and> length f \<le> length (tree_m r) + 1" if "length u \<le> 4"
        using less.prems(3) that by linarith
      then have "\<not> total_arith D \<and> 4 < length u"
        using True fast_divide_returns[OF less.prems(2)] tree_of_m(4,5)[OF l] tree_of_m(4,5)[OF r]
        by (metis not_le)
      moreover have "tree_evaluate D t f u ts = Panic"
        using True divide_by_subtree[OF l less.prems(2)] unfolding node by auto
      ultimately show ?thesis using that(1) by blast
    next
      case False
      then show ?thesis
        using divide_by_subtree[OF l less.prems(2)] divide_by_subtree[OF r less.prems(2)] that(2) by blast
    qed
    then show ?thesis
    proof cases
      case 2
      have "map (peval r0) (take ?n u) = map (peval f) (take ?n u)"
        "map (peval r1) (drop ?n u) = map (peval f) (drop ?n u)" using 2(7,8) by simp_all
      then have vals: "map (peval f) u = map (peval r0) (take ?n u) @ map (peval r1) (drop ?n u)"
        by (simp only: map_append[symmetric] append_take_drop_id)
      from arg_cong[OF vals, of set]
      have img: "peval f ` set u = peval r0 ` set (take ?n u) \<union> peval r1 ` set (drop ?n u)" by simp
      have lens: "4 < length (take ?n u) \<Longrightarrow> 4 < length u" "4 < length (drop ?n u) \<Longrightarrow> 4 < length u"
        by simp_all
      have eq: "tree_evaluate D t f u ts =
          and_then (tree_evaluate D l r0 (take ?n u) (take ?n ts)) (\<lambda>a.
          and_then (tree_evaluate D r r1 (drop ?n u) (drop ?n ts)) (\<lambda>b. Ok (a @ b)))"
        unfolding node by (simp add: 2(1,2))
      have L: "tree_evaluate D l r0 (take ?n u) (take ?n ts) = Panic \<and>
            (0 \<in> peval r0 ` set (take ?n u) \<or> \<not> total_arith D \<and> 4 < length (take ?n u)) \<or>
          tree_evaluate D l r0 (take ?n u) (take ?n ts) = Ok (map (peval r0) (take ?n u)) \<and>
            0 \<notin> peval r0 ` set (take ?n u)"
        using n less.prems(4) by (intro less.IH[OF _ l 2(3,5)]) simp_all
      have R: "tree_evaluate D r r1 (drop ?n u) (drop ?n ts) = Panic \<and>
            (0 \<in> peval r1 ` set (drop ?n u) \<or> \<not> total_arith D \<and> 4 < length (drop ?n u)) \<or>
          tree_evaluate D r r1 (drop ?n u) (drop ?n ts) = Ok (map (peval r1) (drop ?n u)) \<and>
            0 \<notin> peval r1 ` set (drop ?n u)"
        using n less.prems(4) by (intro less.IH[OF _ r 2(4,6)]) simp_all
      show ?thesis unfolding eq vals img Un_iff using L R lens by fastforce
    qed simp
  qed
qed

end

section \<open>Derivative, linear combination and interpolation\<close>

lemma peval_enumerate:
  "peval (map (\<lambda>(i, c). of_nat i * c) (enumerate k cs)) x = of_nat k * peval cs x + x * dpeval cs x"
  by (induction cs arbitrary: k) (simp_all add: algebra_simps)

lemma derivative_Cons:
  "derivative (c # cs) = Ok (map (\<lambda>(i, c). of_nat i * c) (enumerate 1 cs))"
  by (simp add: derivative_def)

lemma derivative_value:
  "derivative f = Ok d \<Longrightarrow> peval d x = dpeval f x \<and> length d = length f - 1"
  by (cases f) (auto simp: derivative_Cons derivative_def peval_enumerate)

lemma derivative_monic:
  assumes "length f = Suc n" "last f = 1" "of_nat n \<noteq> (0 :: 'f::field)"
  shows "\<exists>d. derivative (f :: 'f list) = Ok d \<and> canonical d \<and> length d = n"
proof -
  obtain c cs where f: "f = c # cs" using assms(1) by (cases f) auto
  let ?d = "map (\<lambda>(i, c). of_nat i * c) (enumerate 1 cs)"
  have n: "length cs = n" "cs \<noteq> []" using assms f by auto
  then have "?d \<noteq> []" by (metis length_0_conv length_enumerate map_is_Nil_conv)
  then have "last ?d = of_nat n * last cs"
    using n by (cases n) (auto simp: last_conv_nth nth_enumerate_eq)
  then have "canonical ?d" using assms n f by (simp add: canonical_def)
  then show ?thesis using f n by (auto simp: derivative_Cons)
qed

lemma coef_mult_beyond:
  fixes s t :: "'f::comm_ring_1 series"
  assumes "\<And>k. a \<le> k \<Longrightarrow> coef s k = 0" "\<And>k. b < k \<Longrightarrow> coef t k = 0" "a + b \<le> k"
  shows "coef (t * s) k = 0"
proof -
  have "coef t i * coef s (k - i) = 0" for i
    using assms by (cases "i \<le> b") auto
  then show ?thesis unfolding coef_mult by (intro sum.neutral) blast
qed

abbreviation lagrange_denominators :: "'f::field list \<Rightarrow> 'f list" where
  "lagrange_denominators u \<equiv> map (lin_comb u (replicate (length u) 1)) u"

lemma scale_by_inverse_eq:
  "length ss = length vs \<Longrightarrow> 0 \<notin> set ss \<Longrightarrow>
     scale_by_inverse ss vs = Ok (map2 (\<lambda>s v. inverse s * v) ss vs)"
  by (induction ss vs rule: list_induct2) (auto simp: field_inverse_def)

context dense_poly_laws begin

lemma linear_combine_correct:
  "tree_of t u \<Longrightarrow> length c = length u \<Longrightarrow>
     \<exists>p. tree_linear_combine D t u c = Ok p \<and> length p \<le> length u \<and> (\<forall>x. peval p x = lin_comb u c x)"
proof (induction u arbitrary: t c rule: measure_induct_rule[of length])
  case (less u)
  show ?case
  proof (cases "length u = 1")
    case True
    then obtain a b where "u = [a]" "c = [b]" using less.prems(2) by (auto simp: length_Suc_conv)
    then show ?thesis by (cases t) (simp add: slice_index_if)
  next
    case False
    let ?n = "length u div 2"
    obtain l r m where t: "t = SubproductTree (Some l) (Some r) m"
      and l: "tree_of l (take ?n u)" and r: "tree_of r (drop ?n u)" and u2: "2 \<le> length u"
      using tree_of_node[OF less.prems(1) False] .
    have n: "?n < length u" "length u - ?n < length u" using u2 by auto
    obtain p0 where p0: "tree_linear_combine D l (take ?n u) (take ?n c) = Ok p0"
      "length p0 \<le> length (take ?n u)" "\<And>x. peval p0 x = lin_comb (take ?n u) (take ?n c) x"
      using less.IH[OF _ l, of "take ?n c"] less.prems(2) n by auto
    obtain p1 where p1: "tree_linear_combine D r (drop ?n u) (drop ?n c) = Ok p1"
      "length p1 \<le> length (drop ?n u)" "\<And>x. peval p1 x = lin_comb (drop ?n u) (drop ?n c) x"
      using less.IH[OF _ r, of "drop ?n c"] less.prems(2) n by auto
    obtain p where p: "poly_add D (poly_mul D (tree_m r) p0) (poly_mul D (tree_m l) p1) = Some p" "canonical p"
      using add_returns mul_canonical by blast
    have ser_p: "ser p = ser (poly_mul D (tree_m r) p0) + ser (poly_mul D (tree_m l) p1)"
      by (rule add_ser[OF p(1)])
    have "coef (ser p) k = 0" if "length u \<le> k" for k
      unfolding ser_p mul_ser using p0(2) p1(2) tree_of_m(3)[OF l] tree_of_m(3)[OF r] that
      by (simp add: coef_mult_beyond[of "length u - ?n" "ser p1" ?n] coef_mult_beyond[of ?n "ser p0" "length u - ?n"] coef_ser)
    then have "length p \<le> length u" using p(2) canonical_length by blast
    moreover have "peval p x = lin_comb u c x" for x
    proof -
      have "peval p x = diffs x (drop ?n u) * lin_comb (take ?n u) (take ?n c) x +
          diffs x (take ?n u) * lin_comb (drop ?n u) (drop ?n c) x"
        unfolding peval_ser_add[OF ser_p] peval_ser_mult[OF mul_ser] p0(3) p1(3)
          moduli_eval(1)[OF tree_of_m(2)[OF l]] moduli_eval(1)[OF tree_of_m(2)[OF r]] ..
      also have "\<dots> = lin_comb (take ?n u @ drop ?n u) (take ?n c @ drop ?n c) x"
        using less.prems(2) by (subst lin_comb_append) (simp_all add: mult.commute)
      finally show ?thesis by simp
    qed
    ultimately show ?thesis
      using t False p p0(1) p1(1) less.prems(2) by (simp add: Let_def split_at_Ok)
  qed
qed

lemma inverse_lagrange_cases:
  assumes t: "tree_of t u" and "distinct u" "of_nat (length u) \<noteq> (0 :: 'f)"
  shows "tree_inverse_lagrange_coefficients D t u = Ok (lagrange_denominators u) \<or>
    tree_inverse_lagrange_coefficients D t u = Panic \<and> \<not> total_arith D \<and> 4 < length u"
proof (cases "length u = 1")
  case True
  then obtain a where "u = [a]" by (auto simp: length_Suc_conv)
  then show ?thesis by (simp add: tree_inverse_lagrange_coefficients_def)
next
  case False
  obtain d where d: "derivative (tree_m t) = Ok d" "canonical d" "length d = length u"
    using derivative_monic[OF tree_of_m(3,4)[OF t] assms(3)] by blast
  have val: "peval d x = lin_comb u (replicate (length u) 1) x" for x
    using derivative_value[OF d(1)] moduli_eval(2)[OF tree_of_m(2)[OF t]] by simp
  have "0 \<notin> peval d ` set u"
    using lin_comb_ones_nonzero[OF assms(2)] by (auto simp: val in_set_conv_nth)
  then show ?thesis
    using tree_evaluate_cases[OF t d(2), of "replicate (length u) 0"] d False
    by (auto simp: tree_inverse_lagrange_coefficients_def val[abs_def])
qed

lemma interpolate_cases:
  assumes t: "tree_of t u" and u: "distinct u" "of_nat (length u) \<noteq> (0 :: 'f)" and v: "length v = length u"
  shows "(\<exists>p. tree_interpolate D t u v = Ok p \<and> length p \<le> length u \<and> map (peval p) u = v) \<or>
    tree_interpolate D t u v = Panic \<and> \<not> total_arith D \<and> 4 < length u"
proof -
  consider "tree_inverse_lagrange_coefficients D t u = Ok (lagrange_denominators u)"
    | "tree_inverse_lagrange_coefficients D t u = Panic" "\<not> total_arith D \<and> 4 < length u"
    using inverse_lagrange_cases[OF t u] by blast
  then show ?thesis
  proof cases
    case 1
    let ?s = "lagrange_denominators u"
    let ?c = "map2 (\<lambda>s v. inverse s * v) ?s v"
    have "0 \<notin> set ?s" using lin_comb_ones_nonzero[OF u(1)] by (auto simp: in_set_conv_nth)
    then have sc: "scale_by_inverse ?s v = Ok ?c" using v by (intro scale_by_inverse_eq) simp_all
    obtain p where p: "tree_linear_combine D t u ?c = Ok p" "length p \<le> length u"
      "\<And>x. peval p x = lin_comb u ?c x"
      using linear_combine_correct[OF t, of ?c] v by auto
    have "peval p (u ! i) = v ! i" if "i < length u" for i
      using that v u lin_comb_ones_nonzero[OF u(1) that] lin_comb_at[of u ?c i] by (simp add: p(3))
    then have "map (peval p) u = v" using v by (intro nth_equalityI) simp_all
    with p 1 sc show ?thesis by (simp add: tree_interpolate_def)
  qed (simp add: tree_interpolate_def)
qed

end

section \<open>Properties of the component\<close>

lemma subproduct_new_tree:
  assumes "dense_poly_laws D" "subproduct_new D u = Some (Ok s)"
  shows "dom_u s = u" "tree_of (dom_t s) u"
  using assms dense_poly_laws.tree_new_iff[OF assms(1)]
  by (auto simp: subproduct_new_def Option.bind_eq_Some_conv outcome_simps)

lemma interpolant_unique:
  assumes "distinct u" "length p \<le> length u" "length q \<le> length u" "map (peval p) u = map (peval q) u"
  shows "ser p = ser q"
proof -
  let ?pad = "\<lambda>f. f @ replicate (length u - length f) 0"
  have "?pad p = ?pad q"
    by (rule peval_unique[where xs = u]) (use assms in \<open>simp_all add: peval_pad\<close>)
  then show ?thesis by (metis ser_pad)
qed

text \<open>
  \<open>inverse_mod_xl\<close> on a polynomial whose constant coefficient is invertible returns a polynomial
  whose product with it is 1 modulo \<open>x^l\<close>; it returns \<open>None\<close> exactly when the constant coefficient is
  0, and panics on a vector without coefficients.  That it returns is promised for \<open>l \<le> 2\<close>, and for
  every \<open>l\<close> when sums and differences accept vectors with trailing zeros: truncation to \<open>x^(2^i)\<close>
  between two steps may leave them.\<close>

lemma inverse_mod_xl_correct:
  assumes "dense_poly_laws D"
  shows "(\<forall>h. inverse_mod_xl D f l = Ok (Some h) \<longrightarrow> eq_upto l (ser f * ser h) 1) \<and>
    (inverse_mod_xl D f l = Ok None \<longleftrightarrow> f \<noteq> [] \<and> f ! 0 = 0) \<and>
    (f = [] \<longrightarrow> inverse_mod_xl D f l = Panic) \<and>
    (f \<noteq> [] \<and> f ! 0 \<noteq> 0 \<and> (total_arith D \<or> l \<le> 2) \<longrightarrow> (\<exists>h. inverse_mod_xl D f l = Ok (Some h)))"
proof (intro conjI allI impI)
  show "inverse_mod_xl D f l = Ok None \<longleftrightarrow> f \<noteq> [] \<and> f ! 0 = 0"
    by (auto simp: inverse_mod_xl_def Let_def slice_index_if field_inverse_def outcome_simps split: if_splits)
  show "f = [] \<Longrightarrow> inverse_mod_xl D f l = Panic"
    by (simp add: inverse_mod_xl_def Let_def slice_index_if)
qed (use dense_poly_laws.inverse_mod_xl_Some[OF assms] dense_poly_laws.inverse_mod_xl_returns[OF assms]
  in blast)+

text \<open>With the assertion on leading coefficients the second step does fail after a truncation.\<close>

lemma newton_asserting_panics: "inverse_mod_xl asserting_poly [1, 0, 0, 1 :: f17] 4 = Panic"
  by code_simp

text \<open>
  C29: \<open>fast_divide_monic\<close> never gives a wrong result.  For a monic divisor it returns \<open>f = q g + r\<close> with
  \<open>r\<close> shorter than \<open>g\<close> and without trailing zeros, unless Newton's iteration panics on the reversed
  divisor; that is excluded when the degrees differ by at most one.\<close>

theorem fast_divide_monic_correct:
  assumes "dense_poly_laws D" "canonical f" "g \<noteq> []" "last g = 1"
  shows "if length g \<le> length f \<and> inverse_mod_xl D (rev g) (length f - length g + 1) = Panic
    then fast_divide_monic D f g = Panic \<and> length g + 1 < length f
    else \<exists>q r. fast_divide_monic D f g = Ok (q, r) \<and> ser f = ser q * ser g + ser r \<and>
      canonical r \<and> length r < length g"
proof (cases "length g \<le> length f \<and> inverse_mod_xl D (rev g) (length f - length g + 1) = Panic")
  case True
  then have panic: "fast_divide_monic D f g = Panic" by (simp add: fast_divide_monic_def)
  then have "\<not> length f \<le> length g + 1" using dense_poly_laws.fast_divide_returns[OF assms] by blast
  with True panic show ?thesis by simp
next
  case False
  then have "fast_divide_monic D f g \<noteq> Panic"
    by (rule dense_poly_laws.fast_divide_not_Panic[OF assms])
  with False show ?thesis using dense_poly_laws.fast_divide_cases[OF assms] by (simp only: if_False) blast
qed

theorem fast_divide_monic_correct_witness:
  "\<exists>q r. fast_divide_monic asserting_poly [3, 0, 2 :: f17] [5, 1] = Ok (q, r) \<and>
    ser [3, 0, 2] = ser q * ser [5, 1] + ser r \<and> canonical r \<and> length r < 2"
proof -
  have "(2 :: f17) \<noteq> 0" by code_simp
  then show ?thesis
    using fast_divide_monic_correct[OF asserting.dense_poly_laws_axioms, of "[3, 0, 2 :: f17]" "[5, 1]"]
    by (simp add: canonical_def numeral_2_eq_2 split: if_splits)
qed

text \<open>
  C30: \<open>SubproductDomain::new\<close> returns exactly on slices that are not empty (on an empty one the
  recursion of \<open>SubproductTree::new\<close> never ends).  Every node of the tree it builds holds the product
  of the \<open>x - u_i\<close> of its part of the slice, and \<open>prime\<close> is the derivative of the root's polynomial.\<close>

theorem subproduct_new_terminates:
  assumes "dense_poly_laws D"
  shows "(subproduct_new D u = None \<longleftrightarrow> u = []) \<and>
    (u \<noteq> [] \<longrightarrow> (\<exists>s. subproduct_new D u = Some (Ok s) \<and> dom_u s = u \<and> tree_of (dom_t s) u \<and>
      (\<forall>x. peval (dom_prime s) x = lin_comb u (replicate (length u) 1) x)))"
proof (cases "u = []")
  case True
  then show ?thesis by (simp add: subproduct_new_def tree_new_empty)
next
  case False
  obtain t where t: "tree_new D u = Some t" "tree_of t u"
    using dense_poly_laws.tree_new_tree_of[OF assms False] by blast
  then obtain c cs where m: "tree_m t = c # cs" using tree_of_m(5) by (metis neq_Nil_conv)
  with derivative_Cons[of c cs] obtain d where d: "derivative (tree_m t) = Ok d" by simp
  have "peval d x = lin_comb u (replicate (length u) 1) x" for x
    using derivative_value[OF d] moduli_eval(2)[OF tree_of_m(2)[OF t(2)]] by simp
  with t d False show ?thesis by (simp add: subproduct_new_def)
qed

theorem subproduct_new_terminates_witness:
  "subproduct_new asserting_poly ([] :: f17 list) = None \<and>
   (\<exists>s. subproduct_new asserting_poly [1, 2, 5 :: f17] = Some (Ok s) \<and> tree_of (dom_t s) [1, 2, 5])"
  using subproduct_new_terminates[OF asserting.dense_poly_laws_axioms, of "[] :: f17 list"]
    subproduct_new_terminates[OF asserting.dense_poly_laws_axioms, of "[1, 2, 5 :: f17]"] by auto

text \<open>
  C31: evaluation over the tree computes the values of the polynomial at the points of the domain, or
  panics; it panics when one of the values is 0, because the remainder at that leaf is the empty
  vector, whose first coefficient the code reads.  On at most four points, or with arithmetic that
  accepts trailing zeros, that is the only reason.\<close>

theorem subproduct_evaluate_outcome:
  assumes "dense_poly_laws D" "subproduct_new D u = Some (Ok s)" "canonical f" "length f \<le> length u"
  shows "subproduct_evaluate D s f = Panic \<and>
      (0 \<in> set (map (peval f) u) \<or> \<not> total_arith D \<and> 4 < length u) \<or>
    subproduct_evaluate D s f = Ok (map (peval f) u) \<and> 0 \<notin> set (map (peval f) u)"
  using dense_poly_laws.tree_evaluate_cases[OF assms(1) subproduct_new_tree(2)[OF assms(1,2)] assms(3,4),
      of "replicate (length u) 0"] subproduct_new_tree(1)[OF assms(1,2)]
  by (simp add: subproduct_evaluate_def)

text \<open>The domain of the examples.\<close>

definition sample_subproduct :: "f17 subproduct_domain" where
  "sample_subproduct = (case subproduct_new asserting_poly [1, 2, 5] of Some (Ok s) \<Rightarrow> s
     | _ \<Rightarrow> \<lparr> dom_u = [], dom_t = SubproductTree None None [], dom_prime = [] \<rparr>)"

lemma sample_subproduct: "subproduct_new asserting_poly [1, 2, 5] = Some (Ok sample_subproduct)"
proof -
  have "[1, 2, 5 :: f17] \<noteq> []" by simp
  from asserting.tree_new_tree_of[OF this] obtain t
    where t: "tree_new asserting_poly [1, 2, 5 :: f17] = Some t" "tree_of t [1, 2, 5]" by blast
  then obtain c cs where "tree_m t = c # cs" using tree_of_m(5) by (metis neq_Nil_conv)
  with t show ?thesis by (simp add: subproduct_new_def sample_subproduct_def derivative_Cons)
qed

theorem subproduct_evaluate_outcome_witness:
  "subproduct_evaluate asserting_poly sample_subproduct [3, 1] = Ok [4, 5, 8] \<and>
   subproduct_evaluate asserting_poly sample_subproduct [15, 1] = Panic"
proof -
  have "map (peval [3, 1]) [1, 2, 5 :: f17] = [4, 5, 8]" "0 \<notin> set [4, 5, 8 :: f17]"
    "0 \<in> set (map (peval [15, 1]) [1, 2, 5 :: f17])" by code_simp+
  then show ?thesis
    using subproduct_evaluate_outcome[OF asserting.dense_poly_laws_axioms sample_subproduct, of "[3, 1]"]
      subproduct_evaluate_outcome[OF asserting.dense_poly_laws_axioms sample_subproduct, of "[15, 1]"]
    by (simp add: canonical_def)
qed

text \<open>
  C32: interpolation over distinct points, whose number is not 0 in the field, never gives a wrong
  result: it returns the polynomial of at most as many coefficients that takes the given values, or
  panics in Newton's iteration, for which there have to be more than four points.  The polynomial is
  the only one, so interpolating the values of a polynomial gives it back.\<close>

theorem subproduct_interpolate_roundtrip:
  fixes u v :: "'f::field list"
  assumes "dense_poly_laws D" "subproduct_new D u = Some (Ok s)" "distinct u"
    and "of_nat (length u) \<noteq> (0 :: 'f)" "length v = length u"
  shows "subproduct_interpolate D s v = Panic \<and> 4 < length u \<or>
    (\<exists>p. subproduct_interpolate D s v = Ok p \<and> length p \<le> length u \<and> map (peval p) u = v \<and>
      (\<forall>q. length q \<le> length u \<and> map (peval q) u = v \<longrightarrow> ser q = ser p))"
proof -
  consider "subproduct_interpolate D s v = Panic" "4 < length u"
    | p where "subproduct_interpolate D s v = Ok p" "length p \<le> length u" "map (peval p) u = v"
    using dense_poly_laws.interpolate_cases[OF assms(1) subproduct_new_tree(2)[OF assms(1,2)] assms(3-5)]
      subproduct_new_tree(1)[OF assms(1,2)] by (auto simp: subproduct_interpolate_def)
  then show ?thesis
  proof cases
    case 2
    have "ser q = ser p" if "length q \<le> length u" "map (peval q) u = v" for q
      using interpolant_unique[OF assms(3) that(1) 2(2)] that 2(3) by simp
    with 2 show ?thesis by blast
  qed blast
qed

theorem subproduct_interpolate_roundtrip_witness:
  "\<exists>p. subproduct_interpolate asserting_poly sample_subproduct [0, 7, 1] = Ok p \<and> length p \<le> 3 \<and>
     map (peval p) [1, 2, 5] = [0, 7, 1]"
proof -
  have "distinct [1, 2, 5 :: f17] \<and> of_nat (length [1, 2, 5 :: f17]) \<noteq> (0 :: f17)" by code_simp
  then show ?thesis
    using subproduct_interpolate_roundtrip[OF asserting.dense_poly_laws_axioms sample_subproduct, of "[0, 7, 1]"]
    by auto
qed

text \<open>
  \<open>linear_combine\<close> always returns the polynomial \<open>sum_i c_i m / (x - u_i)\<close>, of at most as many
  coefficients as there are points; the points may repeat.\<close>

lemma subproduct_linear_combine_correct:
  assumes "dense_poly_laws D" "subproduct_new D u = Some (Ok s)" "length c = length u"
  shows "\<exists>p. subproduct_linear_combine D s c = Ok p \<and> length p \<le> length u \<and>
    (\<forall>x. peval p x = (\<Sum>i<length u. c ! i * (\<Prod>j\<in>{..<length u} - {i}. x - u ! j)))"
  using dense_poly_laws.linear_combine_correct[OF assms(1) subproduct_new_tree(2)[OF assms(1,2)] assms(3)]
    subproduct_new_tree(1)[OF assms(1,2)] lin_comb_eq_sum[of u c] assms(3)
  by (simp add: subproduct_linear_combine_def)

end
