(* ===== verification/Toeplitz.thy ===== *)
theory Toeplitz
  imports Multipoint
begin

text \<open>
  \<open>build_circulant\<close> and \<open>toeplitz_mul\<close> of \<open>subproductdomain/src/lib.rs\<close>: the product of the Toeplitz
  matrix of a polynomial with a vector of group elements, computed by embedding the matrix into a
  circulant one and multiplying transforms pointwise.

  The transforms are those of \<open>ark_poly\<close>'s evaluation domains.  \<open>fft_scalar\<close> is \<open>fft_in_place\<close> on
  scalars (\<open>dom_fft\<close> of \<open>Ark\<close> is the one on points), \<open>ifft_g1\<close> is \<open>ifft_in_place\<close> on points and
  \<open>dom_size\<close> is \<open>size()\<close>.
\<close>

record ('f, 'g1, 'd) ark_fft =
  dom_size :: "'d \<Rightarrow> nat"
  fft_scalar :: "'d \<Rightarrow> 'f list \<Rightarrow> 'f list"
  ifft_g1 :: "'d \<Rightarrow> 'g1 list \<Rightarrow> 'g1 list"

locale fft_laws = domain_laws mul A
  for mul :: "'g1::ab_group_add \<Rightarrow> 'f::field \<Rightarrow> 'g1" and A :: "('f, 'g1, 'd) ark_poly" +
  fixes T :: "('f, 'g1, 'd) ark_fft"
  assumes size_elements: "dom_new A n = Some d \<Longrightarrow> dom_size T d = length (dom_elements A d)"
    and size_even: "dom_new A n = Some d \<Longrightarrow> 2 \<le> n \<Longrightarrow> even (dom_size T d)"
    and size_invertible: "dom_new A n = Some d \<Longrightarrow> of_nat (dom_size T d) \<noteq> (0 :: 'f)"
    and roots_of_unity: "dom_new A n = Some d \<Longrightarrow> x \<in> set (dom_elements A d) \<Longrightarrow> x ^ dom_size T d = 1"
    and fft_scalar_eval: "dom_new A n = Some d \<Longrightarrow> length cs \<le> dom_size T d \<Longrightarrow>
      fft_scalar T d cs = map (peval cs) (dom_elements A d)"
    and ifft_inverse: "dom_new A n = Some d \<Longrightarrow> length Cs = dom_size T d \<Longrightarrow>
      ifft_g1 T d (map (gpeval mul Cs) (dom_elements A d)) = Cs"

section \<open>The code\<close>

definition copy_to_range :: "'a list \<Rightarrow> nat \<Rightarrow> nat \<Rightarrow> 'a list \<Rightarrow> ('e, 'a list) outcome" where
  "copy_to_range xs a b src =
     (if a \<le> b \<and> b \<le> length xs \<and> length src = b - a then Ok (take a xs @ src @ drop b xs) else Panic)"

text \<open>\<open>coeffs.len() - 1\<close> underflows on the empty vector; the slices below would not exist either.\<close>

definition build_circulant :: "'f::field dense_poly \<Rightarrow> 'f list \<Rightarrow> nat \<Rightarrow> 'f list sub_result" where
  "build_circulant D f n =
     and_then (expect (poly_degree D f)) (\<lambda>degree.
     and_then (rust_assert (n \<ge> degree)) (\<lambda>_.
     let circulant = replicate (2 * n) 0 in
     and_then (rust_assert (f \<noteq> [])) (\<lambda>_.
     if n = length f - 1 then
       and_then (slice_set circulant 0 (last f)) (\<lambda>circulant.
       and_then (slice_set circulant n (last f)) (\<lambda>circulant.
       and_then (slice_range f 1 (length f - 1)) (\<lambda>src.
       copy_to_range circulant (n + 1) (n + 1 + length f - 2) src)))
     else
       and_then (slice_range f 1 (length f)) (\<lambda>src.
       copy_to_range circulant (n + 1) (n + 1 + length f - 1) src))))"

text \<open>\<open>iter_mut().zip(..)\<close> with \<open>*i *= *j\<close>.\<close>

definition mul_pointwise :: "('g \<Rightarrow> 'f \<Rightarrow> 'g) \<Rightarrow> 'g list \<Rightarrow> 'f list \<Rightarrow> 'g list" where
  "mul_pointwise mul tmp cs = map2 mul tmp cs @ drop (length cs) tmp"

text \<open>
  On the empty polynomial \<open>len() - 1\<close> wraps to \<open>2^64 - 1\<close>, whose double is \<open>2^64 - 2\<close>.  When
  \<open>toeplitz_size - v.len()\<close> wraps, the loop pushes more points than a vector can hold, which ends in
  a failed allocation.
\<close>

definition toeplitz_mul ::
  "'f::field dense_poly \<Rightarrow> ('f, 'g1::ab_group_add, 'd) ark_poly \<Rightarrow> ('f, 'g1, 'd) ark_fft \<Rightarrow>
   ('g1 \<Rightarrow> 'f \<Rightarrow> 'g1) \<Rightarrow> 'f list \<Rightarrow> 'g1 list \<Rightarrow> nat \<Rightarrow> ('g1 list \<times> 'f) sub_result" where
  "toeplitz_mul D A T mul polynomial v sz =
     (let m = length polynomial - 1; sz = max sz m;
          double_size = (if polynomial = [] then 2 ^ 64 - 2 else 2 * sz) in
     and_then (ok_or (dom_new A double_size) ''toeplitz multiplication on too large a domain'') (\<lambda>domain.
     let circulant_size = dom_size T domain; toeplitz_size = circulant_size div 2 in
     and_then (build_circulant D polynomial toeplitz_size) (\<lambda>circulant.
     and_then (rust_assert (length v \<le> toeplitz_size)) (\<lambda>_.
     let tmp = replicate (toeplitz_size - length v) 0 @ rev v;
         tmp = vec_resize tmp circulant_size 0;
         tmp = dom_fft A domain tmp;
         circulant = fft_scalar T domain circulant;
         tmp = mul_pointwise mul tmp circulant;
         tmp = ifft_g1 T domain tmp in
     and_then (slice_range tmp 0 toeplitz_size) (\<lambda>out.
     and_then (expect (field_inverse (of_nat (dom_size T domain)))) (\<lambda>inv. Ok (out, inv)))))))"

section \<open>The circulant vector\<close>

definition circulant_at :: "'f::zero list \<Rightarrow> nat \<Rightarrow> nat \<Rightarrow> 'f" where
  "circulant_at f n j = (if j = 0 \<or> j = n then coef (ser f) n else if j < n then 0 else coef (ser f) (j - n))"

context dense_poly_laws begin

lemma build_circulant_eq:
  assumes "canonical f" "f \<noteq> []" "0 < n" "length f \<le> n + 1"
  shows "build_circulant D f n = Ok (map (circulant_at f n) [0..<2 * n])"
proof -
  have deg: "poly_degree D f = Some (length f - 1)" "length f - 1 \<le> n"
    using assms by (simp_all add: degree_canonical)
  show ?thesis
  proof (cases "n = length f - 1")
    case True
    then have len: "length f = Suc n" using assms(2) by (cases f) auto
    let ?l = "take (n + 1) ((replicate (2 * n) 0)[0 := last f, n := last f]) @ take (n - 1) (drop 1 f) @
        drop (2 * n) ((replicate (2 * n) 0)[0 := last f, n := last f])"
    have "?l = map (circulant_at f n) [0..<2 * n]"
    proof (rule nth_equalityI)
      show l: "length ?l = length (map (circulant_at f n) [0..<2 * n])" using len assms(3) by simp
      fix i assume "i < length ?l"
      then have "i < 2 * n" unfolding l by simp
      then show "?l ! i = map (circulant_at f n) [0..<2 * n] ! i"
        using len assms(2,3)
        by (auto simp: circulant_at_def nth_append coef_ser last_conv_nth nth_list_update Suc_diff_Suc)
    qed
    then show ?thesis
      using deg len assms(2,3)
      by (simp add: build_circulant_def Let_def slice_set_def slice_range_def copy_to_range_def mult_2)
  next
    case False
    then have len: "length f \<le> n" using deg(2) assms(2) by (cases f) auto
    let ?l = "take (n + 1) (replicate (2 * n) 0) @ drop 1 f @ drop (n + length f) (replicate (2 * n) 0)"
    have "?l = map (circulant_at f n) [0..<2 * n]"
    proof (rule nth_equalityI)
      have "1 \<le> length f" using assms(2) by (cases f) auto
      then show l: "length ?l = length (map (circulant_at f n) [0..<2 * n])"
        using len assms(3) by (simp del: replicate_Suc take_replicate drop_replicate)
      fix i assume "i < length ?l"
      then have i: "i < 2 * n" unfolding l by simp
      then show "?l ! i = map (circulant_at f n) [0..<2 * n] ! i"
        using len assms(2,3)
        by (auto simp: circulant_at_def nth_append coef_ser Suc_diff_Suc
          simp del: replicate_Suc take_replicate drop_replicate)
    qed
    then show ?thesis
      using deg len assms(2,3) False
      by (simp add: build_circulant_def Let_def slice_range_def copy_to_range_def mult_2 Suc_le_eq)
  qed
qed

end

section \<open>Cyclic convolution\<close>

definition cyclic :: "('g::ab_group_add \<Rightarrow> 'f \<Rightarrow> 'g) \<Rightarrow> 'g list \<Rightarrow> 'f list \<Rightarrow> 'g list" where
  "cyclic mul Ts cs =
     map (\<lambda>i. \<Sum>j<length Ts. mul (Ts ! j) (cs ! ((i + length Ts - j) mod length Ts))) [0..<length Ts]"

context scalar_action begin

lemma gpeval_eq_sum: "gpeval mul Cs x = (\<Sum>j<length Cs. mul (Cs ! j) (x ^ j))"
proof (induction Cs)
  case (Cons C Cs)
  have "mul (sum f S) x = (\<Sum>j\<in>S. mul (f j) x)" for f :: "nat \<Rightarrow> 'g" and S
    by (induction S rule: infinite_finite_induct) (simp_all add: mul_add_left)
  with Cons show ?case by (simp add: sum.lessThan_Suc_shift mul_mul mult.commute del: sum.lessThan_Suc)
qed simp

lemma mul_sum_right: "mul P (sum f S) = (\<Sum>j\<in>S. mul P (f j))"
  by (induction S rule: infinite_finite_induct) (simp_all add: mul_add_right)

lemma mul_sum_left: "mul (sum f S) x = (\<Sum>j\<in>S. mul (f j) x)"
  by (induction S rule: infinite_finite_induct) (simp_all add: mul_add_left)

lemma power_mod: "x ^ N = 1 \<Longrightarrow> x ^ (k mod N) = (x::'f) ^ k"
  by (metis div_mult_mod_eq mult.commute mult_1 power_add power_mult power_one)

lemma rotate_sum:
  fixes j N :: nat
  assumes "j < N"
  shows "(\<Sum>i<N. f ((i + N - j) mod N) i) = (\<Sum>k<N. f k ((j + k) mod N))"
proof (rule sum.reindex_bij_witness[where i = "\<lambda>k. (j + k) mod N" and j = "\<lambda>i. (i + N - j) mod N"])
  fix i assume "i \<in> {..<N}"
  moreover have "(j + (i + N - j) mod N) mod N = (j + (i + N - j)) mod N" by (rule mod_add_right_eq)
  ultimately show "(j + (i + N - j) mod N) mod N = i" using assms by simp
next
  fix k assume k: "k \<in> {..<N}"
  show "((j + k) mod N + N - j) mod N = k"
  proof (cases "j + k < N")
    case False
    then have "(j + k) mod N = j + k - N" using assms k by (simp add: mod_if)
    then show ?thesis using False k assms by simp
  qed (use k in simp)
qed (use assms in \<open>auto simp: mod_simps\<close>)

lemma gpeval_cyclic:
  assumes "length Ts = N" "length cs = N" "x ^ N = 1"
  shows "gpeval mul (cyclic mul Ts cs) x = mul (gpeval mul Ts x) (peval cs x)"
proof -
  have "gpeval mul (cyclic mul Ts cs) x =
      (\<Sum>j<N. \<Sum>i<N. mul (Ts ! j) (cs ! ((i + N - j) mod N) * x ^ i))"
    using assms by (subst sum.swap) (simp add: gpeval_eq_sum cyclic_def mul_sum_left mul_mul)
  also have "\<dots> = (\<Sum>j<N. \<Sum>k<N. mul (Ts ! j) (cs ! k * x ^ (j + k)))"
  proof (rule sum.cong[OF refl])
    fix j assume "j \<in> {..<N}"
    then show "(\<Sum>i<N. mul (Ts ! j) (cs ! ((i + N - j) mod N) * x ^ i)) =
        (\<Sum>k<N. mul (Ts ! j) (cs ! k * x ^ (j + k)))"
      using rotate_sum[of j N "\<lambda>k i. mul (Ts ! j) (cs ! k * x ^ i)"] by (simp add: power_mod[OF assms(3)])
  qed
  also have "\<dots> = mul (gpeval mul Ts x) (peval cs x)"
    using assms(1,2)
    by (subst sum.swap) (simp add: gpeval_eq_sum field_action.gpeval_eq_sum mul_sum_left mul_sum_right mul_mul power_add mult_ac)
  finally show ?thesis .
qed

end

section \<open>The Toeplitz product\<close>

text \<open>The Toeplitz product as a sum: row \<open>i\<close> of the result pairs \<open>v_k\<close> with the coefficient of
  \<open>x^(i+k+1)\<close>.\<close>

definition toeplitz_row :: "('g::ab_group_add \<Rightarrow> 'f \<Rightarrow> 'g) \<Rightarrow> 'f::field list \<Rightarrow> 'g list \<Rightarrow> nat \<Rightarrow> 'g" where
  "toeplitz_row mul f v i = (\<Sum>k<length v. mul (v ! k) (coef (ser f) (i + k + 1)))"

lemma circulant_at_shift:
  assumes "length f \<le> n + 1" "i < n" "k < n"
  shows "circulant_at f n ((i + n + 1 + k) mod (2 * n)) = coef (ser f) (i + k + 1)"
proof (cases "i + k + 1 < n")
  case True
  then have "(i + n + 1 + k) mod (2 * n) = n + (i + k + 1)" by simp
  then show ?thesis using assms by (simp add: circulant_at_def)
next
  case False
  then have "(i + n + 1 + k) mod (2 * n) = i + k + 1 - n" using assms by (simp add: mod_if)
  then show ?thesis using assms False by (auto simp: circulant_at_def coef_ser)
qed

abbreviation padded :: "nat \<Rightarrow> 'g::zero list \<Rightarrow> 'g list" where
  "padded n v \<equiv> vec_resize (replicate (n - length v) 0 @ rev v) (2 * n) 0"

lemma padded_nth:
  assumes "length v \<le> n" "j < 2 * n"
  shows "padded n v ! j = (if n - length v \<le> j \<and> j < n then v ! (n - 1 - j) else 0)"
proof -
  consider "j < n - length v" | "n - length v \<le> j" "j < n" | "n \<le> j" by linarith
  then show ?thesis
  proof cases
    case 2
    then have "length v - Suc (j - (n - length v)) = n - 1 - j" using assms by simp
    with 2 assms show ?thesis by (auto simp: vec_resize_def nth_append rev_nth)
  qed (use assms in \<open>auto simp: vec_resize_def nth_append\<close>)
qed

context scalar_action begin

lemma cyclic_toeplitz:
  assumes "length f \<le> n + 1" "length v \<le> n" "i < n"
  shows "cyclic mul (padded n v) (map (circulant_at f n) [0..<2 * n]) ! i = toeplitz_row mul f v i"
proof -
  have idx: "(i + 2 * n - j) mod (2 * n) < 2 * n" for j using assms by simp
  let ?t = "\<lambda>j. mul (padded n v ! j) (circulant_at f n ((i + 2 * n - j) mod (2 * n)))"
  have "cyclic mul (padded n v) (map (circulant_at f n) [0..<2 * n]) ! i = (\<Sum>j<2 * n. ?t j)"
    using assms idx by (simp add: cyclic_def del: upt_Suc)
  also have "\<dots> = (\<Sum>j\<in>{n - length v..<n}. ?t j)"
    by (rule sum.mono_neutral_right) (use assms padded_nth[of v n] in auto)
  also have "\<dots> = toeplitz_row mul f v i"
    unfolding toeplitz_row_def
  proof (rule sum.reindex_bij_witness[where i = "\<lambda>k. n - 1 - k" and j = "\<lambda>j. n - 1 - j"])
    fix j assume j: "j \<in> {n - length v..<n}"
    then have "i + 2 * n - j = i + n + 1 + (n - 1 - j)" by auto
    then show "mul (v ! (n - 1 - j)) (coef (ser f) (i + (n - 1 - j) + 1)) = ?t j"
      using j assms circulant_at_shift[of f n i "n - 1 - j"] padded_nth[of v n j] by simp
  qed (use assms in auto)
  finally show ?thesis .
qed

end

lemma mul_pointwise_map:
  "length xs = length ys \<Longrightarrow> mul_pointwise mul xs ys = map2 mul xs ys"
  by (simp add: mul_pointwise_def)

context fft_laws begin

lemma transform_product:
  assumes d: "dom_new A m = Some d" and "length Ts = dom_size T d" "length cs = dom_size T d"
  shows "ifft_g1 T d (mul_pointwise mul (dom_fft A d Ts) (fft_scalar T d cs)) = cyclic mul Ts cs"
proof -
  have "mul_pointwise mul (dom_fft A d Ts) (fft_scalar T d cs) =
      map (\<lambda>x. mul (gpeval mul Ts x) (peval cs x)) (dom_elements A d)"
    using assms fft_eval[OF d, of Ts] fft_scalar_eval[OF d, of cs] size_elements[OF d]
    by (simp add: mul_pointwise_map map2_map_map)
  also have "\<dots> = map (gpeval mul (cyclic mul Ts cs)) (dom_elements A d)"
    by (rule map_cong[OF refl]) (use gpeval_cyclic[OF assms(2,3)] roots_of_unity[OF d] in simp)
  finally show ?thesis using ifft_inverse[OF d, of "cyclic mul Ts cs"] assms(2) by (simp add: cyclic_def)
qed

lemma toeplitz_mul_Ok:
  assumes "dense_poly_laws D" "canonical f" "2 \<le> length f" and d: "dom_new A (2 * max sz (length f - 1)) = Some d"
    and v: "length v \<le> dom_size T d div 2"
  shows "toeplitz_mul D A T mul f v sz =
    Ok (map (toeplitz_row mul f v) [0..<dom_size T d div 2], inverse (of_nat (dom_size T d)))"
proof -
  let ?n = "dom_size T d div 2"
  have even: "dom_size T d = 2 * ?n" using size_even[OF d] assms(3) by simp
  have "2 * max sz (length f - 1) \<le> dom_size T d" using dom_size[OF d] size_elements[OF d] by simp
  then have n: "length f \<le> ?n + 1" "0 < ?n" using assms(3) by linarith+
  let ?c = "map (circulant_at f ?n) [0..<2 * ?n]"
  have circ: "build_circulant D f ?n = Ok ?c"
    using dense_poly_laws.build_circulant_eq[OF assms(1,2)] assms(3) n by force
  have "length (cyclic mul (padded ?n v) ?c) = 2 * ?n" by (simp add: cyclic_def)
  moreover have "take ?n (cyclic mul (padded ?n v) ?c) = map (toeplitz_row mul f v) [0..<?n]"
    by (rule nth_equalityI) (use calculation cyclic_toeplitz[OF n(1) v] in auto)
  moreover have "f \<noteq> []" using assms(3) by auto
  ultimately show ?thesis
    using d v circ size_invertible[OF d] transform_product[OF d, of "padded ?n v" ?c] even
    by (auto simp: toeplitz_mul_def Let_def slice_range_def field_inverse_def)
qed

end

section \<open>The transforms of the sample field\<close>

text \<open>The inverse transform of the sample domains is interpolation, padded to the size of the domain.\<close>

definition ifft17 :: "f17 list \<Rightarrow> f17 list \<Rightarrow> f17 list" where
  "ifft17 d ys = (case tree_new total_poly d of None \<Rightarrow> []
     | Some t \<Rightarrow> (case tree_interpolate total_poly t d ys of Ok p \<Rightarrow> vec_resize p (length d) 0 | _ \<Rightarrow> []))"

definition T17 :: "(f17, f17, f17 list) ark_fft" where
  "T17 = \<lparr> dom_size = length, fft_scalar = (\<lambda>d cs. map (peval cs) d), ifft_g1 = ifft17 \<rparr>"

lemma dom17_size:
  assumes "dom17_new n = Some d"
  shows "d \<noteq> []" "of_nat (length d) \<noteq> (0 :: f17)" "2 \<le> n \<Longrightarrow> even (length d)"
    "x \<in> set d \<Longrightarrow> x ^ length d = 1"
proof -
  have "\<forall>(k, g) \<in> {(1, 1), (2, 16), (4, 4), (8, 2), (16, 3 :: f17)}.
      0 < k \<and> of_nat k \<noteq> (0 :: f17) \<and> (k = 1 \<or> even k) \<and> (\<forall>x\<in>set (map ((^) g) [0..<k]). x ^ k = 1)"
    by code_simp
  then show "d \<noteq> []" "of_nat (length d) \<noteq> (0 :: f17)" "2 \<le> n \<Longrightarrow> even (length d)"
    "x \<in> set d \<Longrightarrow> x ^ length d = 1"
    using assms by (auto simp: dom17_new_def dom17_gen_def simp del: set_map split: if_splits)
qed

lemma ifft17_inverse:
  assumes d: "dom17_new n = Some d" and "length Cs = length d"
  shows "ifft17 d (map (peval Cs) d) = Cs"
proof -
  obtain t where t: "tree_new total_poly d = Some t" "tree_of t d"
    using total.tree_new_tree_of[of d] dom17_size(1)[OF d] by blast
  obtain p where p: "tree_interpolate total_poly t d (map (peval Cs) d) = Ok p" "length p \<le> length d"
      "map (peval p) d = map (peval Cs) d"
    using total.interpolate_cases[OF t(2) dom17_cases(2)[OF d] dom17_size(2)[OF d], of "map (peval Cs) d"]
      total_arith_total by auto
  have "p @ replicate (length d - length p) 0 = Cs"
    by (rule peval_unique[where xs = d]) (use p assms dom17_cases(2)[OF d] in \<open>simp_all add: peval_pad\<close>)
  then show ?thesis using t p by (simp add: ifft17_def vec_resize_def)
qed

interpretation t17: fft_laws "(*)" A17 T17
  by unfold_locales (auto simp: A17_def T17_def dom17_size ifft17_inverse)

section \<open>Properties of the component\<close>

text \<open>
  C33: for a polynomial that is not constant and a vector that fits, \<open>toeplitz_mul\<close> returns the Toeplitz
  product: entry \<open>i\<close> is the sum over \<open>k\<close> of \<open>v_k\<close> times the coefficient of \<open>x^(i+k+1)\<close>, for every
  \<open>i\<close> below half the size of the domain, together with the inverse of that size; when there is no
  domain of the required size it returns the error of the code.\<close>

theorem toeplitz_mul_correct:
  assumes "dense_poly_laws D" "fft_laws mul A T" "canonical f" "2 \<le> length f"
  shows "case dom_new A (2 * max sz (length f - 1)) of
      None \<Rightarrow> toeplitz_mul D A T mul f v sz = Err ''toeplitz multiplication on too large a domain''
    | Some d \<Rightarrow> length v \<le> dom_size T d div 2 \<longrightarrow> toeplitz_mul D A T mul f v sz =
        Ok (map (\<lambda>i. \<Sum>k<length v. mul (v ! k) (coef (ser f) (i + k + 1))) [0..<dom_size T d div 2],
          inverse (of_nat (dom_size T d)))"
proof (cases "dom_new A (2 * max sz (length f - 1))")
  case None
  moreover have "f \<noteq> []" using assms(4) by auto
  ultimately show ?thesis by (simp add: toeplitz_mul_def Let_def)
next
  case (Some d)
  then show ?thesis
    using fft_laws.toeplitz_mul_Ok[OF assms(2,1,3,4) Some, of v] by (simp add: toeplitz_row_def[abs_def])
qed

theorem toeplitz_mul_correct_witness:
  "toeplitz_mul asserting_poly A17 T17 (*) [1, 2, 3] [5, 7 :: f17] 2 = Ok ([14, 15], inverse 4)"
proof -
  have c: "canonical [1, 2, 3 :: f17]" by code_simp
  have d: "dom_new A17 4 = Some [1, 4, 16, 13]" by code_simp
  have "(31 :: f17) = 14" by code_simp
  then show ?thesis
    using toeplitz_mul_correct[OF asserting.dense_poly_laws_axioms t17.fft_laws_axioms c, where sz = 2 and v = "[5, 7]"] d
    by (simp add: T17_def coef_ser upt_rec)
qed

end
