(* ===== verification/Serialization.thy ===== *)
theory Serialization
  imports Keypair
begin

text \<open>
  \<open>ferveo-common/src/serialization.rs\<close>, the adapters between the arkworks encodings and serde, and
  the error messages of \<open>ferveo-common/src/lib.rs\<close>.  A serde data format is a parameter: how it
  writes and reads a byte string (\<open>serde_with::Bytes\<close>), and the errors its \<open>custom\<close> makes.  \<open>bincode\<close>
  is a parameter too.
\<close>

record ('out, 'se, 'de) serde_format =
  format_serialize_bytes :: "bytes \<Rightarrow> ('se, 'out) outcome"
  format_deserialize_bytes :: "'out \<Rightarrow> ('de, bytes) outcome"
  ser_error_custom :: 'se
  de_error_custom :: 'de

text \<open>A format that holds byte strings gives them back.\<close>

locale serde_laws =
  fixes F :: "('out, 'se, 'de) serde_format"
  assumes holds_bytes: "\<exists>out. format_serialize_bytes F bs = Ok out \<and> format_deserialize_bytes F out = Ok bs"

record ('a, 'e) bincode =
  bincode_serialize :: "'a \<Rightarrow> ('e, bytes) outcome"
  bincode_deserialize :: "bytes \<Rightarrow> ('e, 'a) outcome"

section \<open>Operations\<close>

definition ser_serialize :: "'p codec \<Rightarrow> ('out, 'se, 'de) serde_format \<Rightarrow> 'p \<Rightarrow> ('se, 'out) outcome" where
  "ser_serialize K F val =
     and_then (ok_or (serialize_compressed K val) (ser_error_custom F)) (\<lambda>bytes.
     format_serialize_bytes F bytes)"

definition ser_deserialize :: "'p codec \<Rightarrow> ('out, 'se, 'de) serde_format \<Rightarrow> 'out \<Rightarrow> ('de, 'p) outcome" where
  "ser_deserialize K F deserializer =
     and_then (format_deserialize_bytes F deserializer) (\<lambda>bytes.
     ok_or (deserialize_compressed K bytes) (de_error_custom F))"

definition serde_as_serialize_as :: "'p codec \<Rightarrow> ('out, 'se, 'de) serde_format \<Rightarrow> 'p \<Rightarrow> ('se, 'out) outcome" where
  "serde_as_serialize_as K F val =
     and_then (ok_or (serialize_compressed K val) (ser_error_custom F)) (\<lambda>bytes.
     format_serialize_bytes F bytes)"

definition serde_as_deserialize_as :: "'p codec \<Rightarrow> ('out, 'se, 'de) serde_format \<Rightarrow> 'out \<Rightarrow> ('de, 'p) outcome" where
  "serde_as_deserialize_as K F deserializer =
     and_then (format_deserialize_bytes F deserializer) (\<lambda>bytes.
     ok_or (deserialize_compressed K bytes) (de_error_custom F))"

definition trait_to_bytes :: "('a, 'e) bincode \<Rightarrow> 'a \<Rightarrow> ('e, bytes) outcome" where
  "trait_to_bytes B self = bincode_serialize B self"

definition trait_from_bytes :: "('a, 'e) bincode \<Rightarrow> bytes \<Rightarrow> ('e, 'a) outcome" where
  "trait_from_bytes B bytes = bincode_deserialize B bytes"

section \<open>Error messages\<close>

text \<open>\<open>Display\<close> of a \<open>usize\<close>.\<close>

fun dec_digits :: "nat \<Rightarrow> string" where
  "dec_digits n = (if n < 10 then [char_of (48 + n)] else dec_digits (n div 10) @ [char_of (48 + n mod 10)])"

declare dec_digits.simps [simp del]

text \<open>The message of the wrapped arkworks error is the argument \<open>e\<close>.\<close>

fun common_error_fmt :: "string \<Rightarrow> common_error \<Rightarrow> string" where
  "common_error_fmt e (InvalidByteLength expected actual) =
     ''Invalid byte length: expected '' @ dec_digits expected @ '', actual '' @ dec_digits actual"
| "common_error_fmt e SerializationError = ''Serialization error: '' @ e"
| "common_error_fmt e (InvalidSeedLength len) = ''Invalid seed length: '' @ dec_digits len"
| "common_error_fmt e IdentityEncryptionKey = ''Encryption key is the identity point''"

text \<open>\<open>Display for PublicKey\<close>; the \<open>Debug\<close> text of an optional coordinate is a parameter.\<close>

definition public_key_fmt ::
  "('c option \<Rightarrow> string) \<Rightarrow> ('g2 \<Rightarrow> 'c option) \<Rightarrow> ('g2 \<Rightarrow> 'c option) \<Rightarrow> 'g2 public_key \<Rightarrow> string"
where
  "public_key_fmt debug coord_x coord_y self =
     ''PublicKey('' @ debug (coord_x (encryption_key self)) @ '', '' @
       debug (coord_y (encryption_key self)) @ '')''"

section \<open>Supporting facts\<close>

lemma dec_digits_nonempty: "dec_digits n \<noteq> []"
  by (subst dec_digits.simps) simp

text \<open>The digits read back as the number.\<close>

definition dec_value :: "string \<Rightarrow> nat" where
  "dec_value s = foldl (\<lambda>acc c. 10 * acc + (of_char c - 48)) 0 s"

lemma dec_value_snoc: "dec_value (s @ [c]) = 10 * dec_value s + (of_char c - 48)"
  by (simp add: dec_value_def)

lemma dec_digit_value: "k < 10 \<Longrightarrow> of_char (char_of (48 + k) :: char) - 48 = (k :: nat)"
  by (simp add: of_char_of)

lemma dec_value_digits: "dec_value (dec_digits n) = n"
proof (induction n rule: dec_digits.induct)
  case (1 n)
  show ?case
  proof (cases "n < 10")
    case True
    then show ?thesis by (subst dec_digits.simps) (simp add: dec_value_def of_char_of)
  next
    case False
    then show ?thesis
      using 1 by (subst dec_digits.simps) (simp add: dec_value_snoc dec_digit_value)
  qed
qed

lemma dec_digits_inj: "dec_digits m = dec_digits n \<longleftrightarrow> m = n"
  by (metis dec_value_digits)

text \<open>The two adapters are the same functions.\<close>

lemma serde_adapters_agree:
  "serde_as_serialize_as = ser_serialize" "serde_as_deserialize_as = ser_deserialize"
  by (simp_all add: fun_eq_iff ser_serialize_def ser_deserialize_def serde_as_serialize_as_def
      serde_as_deserialize_as_def)

text \<open>What a format hands to the adapter is decoded or refused; unlike \<open>PublicKey::from_bytes\<close> the adapter
  looks at neither the length nor the point.\<close>

context serde_laws begin

lemma deserialize_written:
  assumes "format_serialize_bytes F bs = Ok out"
  shows "ser_deserialize K F out = ok_or (deserialize_compressed K bs) (de_error_custom F)"
  using holds_bytes[of bs] assms by (auto simp: ser_deserialize_def)

lemma identity_key_accepted:
  assumes "codec_laws K 96"
  shows "\<exists>out bs. ser_serialize K F 0 = Ok out \<and> ser_deserialize K F out = Ok (0 :: 'p::zero) \<and>
    public_key_to_bytes K \<lparr> encryption_key = 0 \<rparr> = Ok bs \<and>
    public_key_from_bytes K bs = Err IdentityEncryptionKey"
proof -
  obtain bs where bs: "serialize_compressed K 0 = Some bs" "length bs = 96" "deserialize_compressed K bs = Some (0 :: 'p)"
    using codec_laws.encodes[OF assms] by blast
  moreover obtain out where "format_serialize_bytes F bs = Ok out" using holds_bytes by blast
  ultimately show ?thesis
    using deserialize_written[of bs out K]
    by (simp add: ser_serialize_def public_key_to_bytes_def public_key_from_bytes_def to_bytes_def from_bytes_def)
qed

end

text \<open>A format whose output is the byte string behind a one-byte type marker.\<close>

definition marked_format :: "(bytes, unit, unit) serde_format" where
  "marked_format = \<lparr> format_serialize_bytes = (\<lambda>bs. Ok (7 # bs)),
     format_deserialize_bytes = (\<lambda>out. if out \<noteq> [] \<and> hd out = 7 then Ok (tl out) else Err ()),
     ser_error_custom = (), de_error_custom = () \<rparr>"

interpretation marked: serde_laws marked_format
  by unfold_locales (simp add: marked_format_def)

end
