(* ===== verification/Secret_Box.thy ===== *)
theory Secret_Box
  imports Prelude
begin

text \<open>
  \<open>ferveo-tdec/src/secret_box.rs\<close>.  What the container promises is about memory: a secret lives in one heap cell,
  which is overwritten before it is given back.  The heap is explicit: \<open>cells\<close> is the content of every
  address that was ever allocated, also after it was freed, and \<open>owned\<close> are the addresses a live box
  points to.  The address of a new box is chosen by the allocator, an argument here, and is not in
  use.  \<open>zeroize\<close> is that of the boxed type.
\<close>

record 'a heap =
  cells :: "nat \<Rightarrow> 'a option"
  owned :: "nat list"

datatype secret_box = SecretBox (box_addr: nat)

section \<open>Operations\<close>

definition secret_box_new :: "nat \<Rightarrow> 'a \<Rightarrow> 'a heap \<Rightarrow> secret_box \<times> 'a heap" where
  "secret_box_new addr val h = (SecretBox addr, h\<lparr> cells := (cells h)(addr \<mapsto> val), owned := addr # owned h \<rparr>)"

definition as_secret :: "secret_box \<Rightarrow> 'a heap \<Rightarrow> 'a option" where
  "as_secret self h = cells h (box_addr self)"

text \<open>A write through the reference that \<open>as_mut_secret\<close> returns.\<close>

definition as_mut_secret :: "secret_box \<Rightarrow> ('a \<Rightarrow> 'a) \<Rightarrow> 'a heap \<Rightarrow> 'a heap" where
  "as_mut_secret self f h = h\<lparr> cells := (cells h)(box_addr self := map_option f (cells h (box_addr self))) \<rparr>"

text \<open>The derived \<open>Clone\<close> copies the box: a new cell with the same content.\<close>

definition secret_box_clone :: "nat \<Rightarrow> secret_box \<Rightarrow> 'a heap \<Rightarrow> (secret_box \<times> 'a heap) option" where
  "secret_box_clone addr self h = map_option (\<lambda>v. secret_box_new addr v h) (as_secret self h)"

definition secret_box_drop :: "('a \<Rightarrow> 'a) \<Rightarrow> secret_box \<Rightarrow> 'a heap \<Rightarrow> 'a heap" where
  "secret_box_drop zeroize self h =
     h\<lparr> cells := (cells h)(box_addr self := map_option zeroize (cells h (box_addr self))),
        owned := remove1 (box_addr self) (owned h) \<rparr>"

definition secret_box_eq :: "secret_box \<Rightarrow> secret_box \<Rightarrow> 'a heap \<Rightarrow> bool" where
  "secret_box_eq self other h \<longleftrightarrow> as_secret self h = as_secret other h"

definition secret_box_fmt :: "secret_box \<Rightarrow> 'a heap \<Rightarrow> string" where
  "secret_box_fmt self h = ''SecretBox<REDACTED>''"

section \<open>Runs\<close>

text \<open>One operation of a program on its boxes.  Rust's ownership lets it use the boxes it owns only,
  and each is dropped once; that is the guard \<open>box_addr b \<in> set (owned h)\<close>.\<close>

inductive box_step :: "('a \<Rightarrow> 'a) \<Rightarrow> 'a heap \<Rightarrow> 'a heap \<Rightarrow> bool" for zeroize where
  new: "addr \<notin> set (owned h) \<Longrightarrow> secret_box_new addr v h = (b, h') \<Longrightarrow> box_step zeroize h h'"
| modify: "box_addr b \<in> set (owned h) \<Longrightarrow> box_step zeroize h (as_mut_secret b f h)"
| clone: "box_addr b \<in> set (owned h) \<Longrightarrow> addr \<notin> set (owned h) \<Longrightarrow>
    secret_box_clone addr b h = Some (b', h') \<Longrightarrow> box_step zeroize h h'"
| drop: "box_addr b \<in> set (owned h) \<Longrightarrow> box_step zeroize h (secret_box_drop zeroize b h)"

inductive_cases box_stepE: "box_step zeroize h h'"

definition empty_heap :: "'a heap" where
  "empty_heap = \<lparr> cells = (\<lambda>_. None), owned = [] \<rparr>"

text \<open>Owned cells hold a value and are owned once; every other cell was never used or is zeroized.\<close>

definition heap_ok :: "('a \<Rightarrow> 'a) \<Rightarrow> 'a heap \<Rightarrow> bool" where
  "heap_ok zeroize h \<longleftrightarrow> distinct (owned h) \<and> (\<forall>a\<in>set (owned h). cells h a \<noteq> None) \<and>
     (\<forall>a v. a \<notin> set (owned h) \<longrightarrow> cells h a = Some v \<longrightarrow> v \<in> range zeroize)"

lemma heap_ok_new:
  assumes "heap_ok z h" "addr \<notin> set (owned h)"
  shows "heap_ok z (snd (secret_box_new addr v h))"
  using assms by (auto simp: heap_ok_def secret_box_new_def split: if_splits)

lemma heap_ok_step: "box_step z h h' \<Longrightarrow> heap_ok z h \<Longrightarrow> heap_ok z h'"
proof (induction rule: box_step.induct)
  case (new addr h v b h')
  then show ?case using heap_ok_new[of z h addr v] by simp
next
  case (modify b h f)
  then show ?case by (auto simp: heap_ok_def as_mut_secret_def split: if_splits)
next
  case (clone b h addr b' h')
  then obtain v where "secret_box_new addr v h = (b', h')" by (auto simp: secret_box_clone_def)
  with clone show ?case using heap_ok_new[of z h addr v] by simp
next
  case (drop b h)
  then show ?case by (auto simp: heap_ok_def secret_box_drop_def split: if_splits)
qed

lemma heap_ok_reachable: "(box_step z)\<^sup>*\<^sup>* empty_heap h \<Longrightarrow> heap_ok z h"
proof (induction rule: rtranclp_induct)
  case base
  show ?case by (simp add: heap_ok_def empty_heap_def)
next
  case (step h h')
  then show ?case by (blast intro: heap_ok_step)
qed

section \<open>Properties\<close>

text \<open>
  C40: in every run of a program that starts without boxes, whatever order of creating, cloning,
  writing and dropping it uses and however the allocator reuses addresses, a cell that no live box
  owns holds no secret: it was never used or it is zeroized.  Dropping a box leaves the content of
  every other box, a clone of it included, as it was.\<close>

theorem secret_boxes_zeroized:
  assumes "(box_step zeroize)\<^sup>*\<^sup>* empty_heap h"
  shows "(\<forall>a v. a \<notin> set (owned h) \<longrightarrow> cells h a = Some v \<longrightarrow> v \<in> range zeroize) \<and>
    (\<forall>b b'. box_addr b \<in> set (owned h) \<and> box_addr b' \<in> set (owned h) \<and> b \<noteq> b' \<longrightarrow>
      (let h' = secret_box_drop zeroize b h in
        box_addr b \<notin> set (owned h') \<and> box_addr b' \<in> set (owned h') \<and>
        as_secret b' h' = as_secret b' h \<and> as_secret b' h \<noteq> None))"
proof (intro conjI allI impI)
  note ok = heap_ok_reachable[OF assms]
  show "v \<in> range zeroize" if "a \<notin> set (owned h)" "cells h a = Some v" for a v
    using ok that by (simp add: heap_ok_def)
  fix b b' assume *: "box_addr b \<in> set (owned h) \<and> box_addr b' \<in> set (owned h) \<and> b \<noteq> b'"
  then have "box_addr b \<noteq> box_addr b'" by (metis secret_box.expand)
  then show "let h' = secret_box_drop zeroize b h in
        box_addr b \<notin> set (owned h') \<and> box_addr b' \<in> set (owned h') \<and>
        as_secret b' h' = as_secret b' h \<and> as_secret b' h \<noteq> None"
    using * ok by (simp add: heap_ok_def secret_box_drop_def as_secret_def Let_def)
qed

text \<open>A run that creates a box, clones it, and drops the first.\<close>

abbreviation clear_bytes :: "bytes \<Rightarrow> bytes" where
  "clear_bytes \<equiv> \<lambda>_. []"

definition sample_heap :: "bytes heap" where
  "sample_heap = secret_box_drop clear_bytes (SecretBox 1)
     (snd (the (secret_box_clone 2 (SecretBox 1) (snd (secret_box_new 1 [42] empty_heap)))))"

lemma sample_heap_reachable: "(box_step clear_bytes)\<^sup>*\<^sup>* empty_heap sample_heap"
proof -
  let ?h1 = "snd (secret_box_new 1 [42 :: u8] empty_heap)"
  let ?h2 = "snd (the (secret_box_clone 2 (SecretBox 1) ?h1))"
  have "box_step clear_bytes empty_heap ?h1"
    by (rule box_step.new[of 1 _ "[42]" "SecretBox 1"]) (simp_all add: secret_box_new_def empty_heap_def)
  moreover have "box_step clear_bytes ?h1 ?h2"
    by (rule box_step.clone[of "SecretBox 1" _ 2 "SecretBox 2"])
      (simp_all add: secret_box_new_def secret_box_clone_def as_secret_def empty_heap_def)
  moreover have "box_step clear_bytes ?h2 sample_heap"
    unfolding sample_heap_def
    by (rule box_step.drop) (simp add: secret_box_new_def secret_box_clone_def as_secret_def empty_heap_def)
  ultimately show ?thesis by (meson converse_rtranclp_into_rtranclp r_into_rtranclp)
qed

theorem secret_boxes_zeroized_witness:
  "\<exists>v. cells sample_heap 1 = Some v \<and> v \<in> range clear_bytes"
proof -
  have "1 \<notin> set (owned sample_heap)" "cells sample_heap 1 \<noteq> None"
    by (simp_all add: sample_heap_def secret_box_drop_def secret_box_clone_def secret_box_new_def
        as_secret_def empty_heap_def)
  then show ?thesis using secret_boxes_zeroized[OF sample_heap_reachable] by blast
qed

end
