(* ===== verification/Fixtures.thy ===== *)
theory Fixtures
  imports Ritual Serialization "HOL-Library.Multiset"
begin

text \<open>
  \<open>ferveo/src/test_common.rs\<close>, the factory functions of the \<open>test-common\<close> feature that set up a
  ritual.  \<open>ark_std::test_rng()\<close>, which returns the same generator every time, is the parameter
  \<open>test_rng\<close>; \<open>shuffle\<close> of the \<open>rand\<close> crate is a parameter.
\<close>

section \<open>Operations\<close>

definition fixture_tau :: u32 where "fixture_tau = 0"
definition fixture_security_threshold :: u32 where "fixture_security_threshold = 3"
definition fixture_shares_num :: u32 where "fixture_shares_num = 4"
definition fixture_validators_num :: u32 where "fixture_validators_num = fixture_shares_num + 2"

primrec keypairs_loop :: "('f, 'r) ark_rand \<Rightarrow> nat \<Rightarrow> 'r \<Rightarrow> 'f keypair list \<times> 'r" where
  "keypairs_loop R 0 rng = ([], rng)"
| "keypairs_loop R (Suc n) rng =
     (let (kp, rng1) = keypair_new R rng; (kps, rng2) = keypairs_loop R n rng1 in (kp # kps, rng2))"

definition gen_keypairs :: "('f, 'r) ark_rand \<Rightarrow> 'r \<Rightarrow> u32 \<Rightarrow> 'f keypair list" where
  "gen_keypairs R test_rng n = fst (keypairs_loop R (unat n) test_rng)"

text \<open>\<open>format!("0x{i:040}")\<close> pads the decimal digits with zeros to 40 characters.\<close>

definition gen_address :: "(bytes \<Rightarrow> bytes option) \<Rightarrow> nat \<Rightarrow> ('e, ethereum_address) outcome" where
  "gen_address hex_decode i =
     (let digits = dec_digits i;
          s = ''0x'' @ replicate (40 - length digits) (CHR ''0'') @ digits
      in unwrap (ethereum_address_from_str hex_decode (map of_char s)))"

definition gen_validators ::
  "('f, 'g1, 'g2, 'gt) pairing \<Rightarrow> (bytes \<Rightarrow> bytes option) \<Rightarrow> 'f keypair list \<Rightarrow> 'g2 validator list result" where
  "gen_validators E hex_decode keypairs =
     try_map (\<lambda>(i, kp). and_then (gen_address hex_decode i) (\<lambda>a.
       Ok \<lparr> v_address = a, v_public_key = keypair_public_key E kp, v_share_index = of_nat i \<rparr>))
       (enumerate 0 keypairs)"

definition setup_dkg_for_n_validators ::
  "('f, 'g1, 'g2::zero, 'gt) pairing \<Rightarrow> ('f, 'g1, 'd) ark_poly \<Rightarrow> ('f, 'r) ark_rand \<Rightarrow>
    (bytes \<Rightarrow> bytes option) \<Rightarrow> 'r \<Rightarrow> u32 \<Rightarrow> u32 \<Rightarrow> nat \<Rightarrow> u32 \<Rightarrow> (('g2, 'd) dkg \<times> 'f keypair list) result"
where
  "setup_dkg_for_n_validators E A R hex_decode test_rng threshold n_shares my_validator_index validators_num =
     (let keypairs = gen_keypairs R test_rng validators_num in
      and_then (gen_validators E hex_decode keypairs) (\<lambda>vs.
      and_then (slice_index vs my_validator_index) (\<lambda>self.
      and_then (unwrap (dkg_params_new fixture_tau threshold n_shares)) (\<lambda>ps.
      and_then (unwrap (dkg_new A vs ps self)) (\<lambda>dkg.
      Ok (dkg, keypairs))))))"

definition setup_dkg ::
  "('f, 'g1, 'g2::zero, 'gt) pairing \<Rightarrow> ('f, 'g1, 'd) ark_poly \<Rightarrow> ('f, 'r) ark_rand \<Rightarrow>
    (bytes \<Rightarrow> bytes option) \<Rightarrow> 'r \<Rightarrow> nat \<Rightarrow> (('g2, 'd) dkg \<times> 'f keypair list) result"
where
  "setup_dkg E A R hex_decode test_rng my_validator_index =
     setup_dkg_for_n_validators E A R hex_decode test_rng fixture_security_threshold fixture_shares_num
       my_validator_index fixture_validators_num"

text \<open>The closure that deals one transcript per dealer, over the dealers' contexts in order; the
  generator is threaded through.\<close>

fun deal_transcripts ::
  "('f, 'g1, 'g2, 'gt) pairing \<Rightarrow> ('f, 'g1, 'd) ark_poly \<Rightarrow> ('f, 'r) ark_rand \<Rightarrow>
    (nat \<Rightarrow> (('g2, 'd) dkg \<times> 'f keypair list) result) \<Rightarrow> nat list \<Rightarrow> 'r \<Rightarrow>
    ('g1, 'g2) validator_message list result \<times> 'r"
where
  "deal_transcripts E A R dealer [] rng = (Ok [], rng)"
| "deal_transcripts E A R dealer (i # is) rng =
     (case dealer i of
        Ok (dkg, _) \<Rightarrow>
          (let (res, rng1) = generate_transcript E A R dkg rng in
           case unwrap res of
             Ok transcript \<Rightarrow>
               (let (rest, rng2) = deal_transcripts E A R dealer is rng1
                in (and_then rest (\<lambda>ms. Ok ((me dkg, transcript) # ms)), rng2))
           | Err e \<Rightarrow> (Err e, rng1) | Panic \<Rightarrow> (Panic, rng1))
      | Err e \<Rightarrow> (Err e, rng) | Panic \<Rightarrow> (Panic, rng))"

definition make_messages ::
  "('f, 'g1, 'g2::zero, 'gt) pairing \<Rightarrow> ('f, 'g1, 'd) ark_poly \<Rightarrow> ('f, 'r) ark_rand \<Rightarrow>
    (bytes \<Rightarrow> bytes option) \<Rightarrow> 'r \<Rightarrow>
    (('g1, 'g2) validator_message list \<Rightarrow> 'r \<Rightarrow> ('g1, 'g2) validator_message list \<times> 'r) \<Rightarrow>
    'r \<Rightarrow> ('g2, 'd) dkg \<Rightarrow> ('g1, 'g2) validator_message list result \<times> 'r"
where
  "make_messages E A R hex_decode test_rng shuffle rng dkg =
     (let (res, rng1) = deal_transcripts E A R (setup_dkg E A R hex_decode test_rng)
        [0..<unat (shares_num (params dkg))] rng in
      case res of Ok ms \<Rightarrow> (let (ms', rng2) = shuffle ms rng1 in (Ok ms', rng2))
      | Err e \<Rightarrow> (Err e, rng1) | Panic \<Rightarrow> (Panic, rng1))"

definition setup_dealt_dkg_with_n_transcript_dealt ::
  "('f, 'g1, 'g2::zero, 'gt) pairing \<Rightarrow> ('f, 'g1, 'd) ark_poly \<Rightarrow> ('f, 'r) ark_rand \<Rightarrow>
    (bytes \<Rightarrow> bytes option) \<Rightarrow> 'r \<Rightarrow>
    (('g1, 'g2) validator_message list \<Rightarrow> 'r \<Rightarrow> ('g1, 'g2) validator_message list \<times> 'r) \<Rightarrow>
    u32 \<Rightarrow> u32 \<Rightarrow> u32 \<Rightarrow> u32 \<Rightarrow>
    (('g2, 'd) dkg \<times> 'f keypair list \<times> ('g1, 'g2) validator_message list) result"
where
  "setup_dealt_dkg_with_n_transcript_dealt E A R hex_decode test_rng shuffle threshold n_shares
       validators_num transcripts_to_use =
     (let dealer = (\<lambda>i. setup_dkg_for_n_validators E A R hex_decode test_rng threshold n_shares i validators_num);
          (res, rng1) = deal_transcripts E A R dealer [0..<unat transcripts_to_use] test_rng in
      and_then res (\<lambda>transcripts.
      and_then (dealer 0) (\<lambda>(dkg, keypairs).
      Ok (dkg, keypairs, fst (shuffle transcripts rng1)))))"

definition setup_dealt_dkg_with_n_validators ::
  "('f, 'g1, 'g2::zero, 'gt) pairing \<Rightarrow> ('f, 'g1, 'd) ark_poly \<Rightarrow> ('f, 'r) ark_rand \<Rightarrow>
    (bytes \<Rightarrow> bytes option) \<Rightarrow> 'r \<Rightarrow>
    (('g1, 'g2) validator_message list \<Rightarrow> 'r \<Rightarrow> ('g1, 'g2) validator_message list \<times> 'r) \<Rightarrow>
    u32 \<Rightarrow> u32 \<Rightarrow> u32 \<Rightarrow> (('g2, 'd) dkg \<times> 'f keypair list \<times> ('g1, 'g2) validator_message list) result"
where
  "setup_dealt_dkg_with_n_validators E A R hex_decode test_rng shuffle threshold n_shares validators_num =
     setup_dealt_dkg_with_n_transcript_dealt E A R hex_decode test_rng shuffle threshold n_shares
       validators_num threshold"

definition setup_dealt_dkg_with ::
  "('f, 'g1, 'g2::zero, 'gt) pairing \<Rightarrow> ('f, 'g1, 'd) ark_poly \<Rightarrow> ('f, 'r) ark_rand \<Rightarrow>
    (bytes \<Rightarrow> bytes option) \<Rightarrow> 'r \<Rightarrow>
    (('g1, 'g2) validator_message list \<Rightarrow> 'r \<Rightarrow> ('g1, 'g2) validator_message list \<times> 'r) \<Rightarrow>
    u32 \<Rightarrow> u32 \<Rightarrow> (('g2, 'd) dkg \<times> 'f keypair list \<times> ('g1, 'g2) validator_message list) result"
where
  "setup_dealt_dkg_with E A R hex_decode test_rng shuffle threshold n_shares =
     setup_dealt_dkg_with_n_validators E A R hex_decode test_rng shuffle threshold n_shares n_shares"

definition setup_dealt_dkg ::
  "('f, 'g1, 'g2::zero, 'gt) pairing \<Rightarrow> ('f, 'g1, 'd) ark_poly \<Rightarrow> ('f, 'r) ark_rand \<Rightarrow>
    (bytes \<Rightarrow> bytes option) \<Rightarrow> 'r \<Rightarrow>
    (('g1, 'g2) validator_message list \<Rightarrow> 'r \<Rightarrow> ('g1, 'g2) validator_message list \<times> 'r) \<Rightarrow>
    (('g2, 'd) dkg \<times> 'f keypair list \<times> ('g1, 'g2) validator_message list) result"
where
  "setup_dealt_dkg E A R hex_decode test_rng shuffle =
     setup_dealt_dkg_with E A R hex_decode test_rng shuffle fixture_security_threshold fixture_shares_num"

section \<open>Addresses\<close>

lemma length_dec_digits: "n < 10 ^ k \<Longrightarrow> 0 < k \<Longrightarrow> length (dec_digits n) \<le> k"
proof (induction k arbitrary: n)
  case (Suc k)
  show ?case
  proof (cases "n < 10")
    case False
    with Suc.prems have "n div 10 < 10 ^ k" "0 < k" by (auto simp: div_less_iff_less_mult intro: ccontr)
    with Suc.IH have "length (dec_digits (n div 10)) \<le> k" by blast
    with False show ?thesis by (subst dec_digits.simps) simp
  qed (subst dec_digits.simps, simp)
qed simp

lemma digit_char: "k < 10 \<Longrightarrow> char_of (48 + k) \<in> set ''0123456789''" for k :: nat
proof -
  assume "k < 10"
  then have "k \<in> set [0..<10]" by simp
  moreover have "\<forall>k\<in>set [0..<10]. char_of (48 + k :: nat) \<in> set ''0123456789''" by code_simp
  ultimately show ?thesis by blast
qed

lemma set_dec_digits: "set (dec_digits n) \<subseteq> set ''0123456789''"
proof (induction n rule: dec_digits.induct)
  case (1 n)
  then show ?case
    using digit_char[of n] digit_char[of "n mod 10"] by (subst dec_digits.simps) auto
qed

lemma digit_hex: "c \<in> set ''0123456789'' \<Longrightarrow> is_hex_digit (of_char c)"
proof -
  have "\<forall>c\<in>set ''0123456789''. is_hex_digit (of_char c)" by code_simp
  then show "c \<in> set ''0123456789'' \<Longrightarrow> is_hex_digit (of_char c)" by blast
qed

lemma hex_digit_ascii: "is_hex_digit b \<Longrightarrow> \<not> (128 \<le> b \<and> b < 192)"
  by (auto simp: is_hex_digit_def word_le_nat_alt word_less_nat_alt)

lemma from_str_hex:
  assumes "hex_laws hex_decode" "length xs = 40" "\<forall>b\<in>set xs. is_hex_digit b"
  shows "ethereum_address_from_str hex_decode (x # y # xs) = Ok (EthereumAddress (x # y # xs))"
proof -
  have "xs ! 0 \<in> set xs" using assms(2) by (intro nth_mem) simp
  then have "\<not> (128 \<le> (x # y # xs) ! 2 \<and> (x # y # xs) ! 2 < 192)"
    using assms(3) hex_digit_ascii by (auto simp: numeral_2_eq_2)
  then show ?thesis using hex_laws.from_str_cases[OF assms(1), of "x # y # xs"] assms(2,3) by simp
qed

lemma gen_address_Ok:
  assumes "hex_laws hex_decode" "i < 10 ^ 40"
  shows "\<exists>a. gen_address hex_decode i = Ok a"
proof -
  define d where "d = replicate (40 - length (dec_digits i)) (CHR ''0'') @ dec_digits i"
  have "length (dec_digits i) \<le> 40" using length_dec_digits[of i 40] assms(2) by simp
  then have "length d = 40" by (simp add: d_def)
  moreover have "set d \<subseteq> set ''0123456789''" using set_dec_digits[of i] by (auto simp: d_def)
  then have "\<forall>b\<in>set (map of_char d). is_hex_digit b" using digit_hex by auto
  ultimately have "ethereum_address_from_str hex_decode (map of_char (''0x'' @ d)) =
      Ok (EthereumAddress (map of_char (''0x'' @ d)))"
    using from_str_hex[OF assms(1), of "map of_char d" "of_char (CHR ''0'')" "of_char (CHR ''x'')"]
    by (simp only: map_append list.map append_Cons append_Nil length_map)
  then show ?thesis unfolding gen_address_def Let_def d_def[symmetric] by (simp only: unwrap.simps) blast
qed

section \<open>Contexts\<close>

lemma length_keypairs_loop [simp]: "length (fst (keypairs_loop R n rng)) = n"
  by (induction n arbitrary: rng) (simp_all add: case_prod_unfold Let_def)

lemma keypairs_nonzero:
  assumes "\<And>r. fst (scalar_rand R r) \<noteq> 0"
  shows "\<forall>kp\<in>set (fst (keypairs_loop R n rng)). decryption_key kp \<noteq> 0"
  by (induction n arbitrary: rng) (simp_all add: case_prod_unfold Let_def keypair_new_def assms)

lemma gen_validators_Ok:
  assumes "hex_laws hex_decode" "length kps \<le> 2 ^ 32"
  shows "\<exists>vs. gen_validators E hex_decode kps = Ok vs \<and> length vs = length kps \<and>
    (\<forall>i<length kps. v_public_key (vs ! i) = keypair_public_key E (kps ! i) \<and> v_share_index (vs ! i) = of_nat i)"
proof -
  have "\<forall>i. \<exists>a. i < length kps \<longrightarrow> gen_address hex_decode i = (Ok a :: ethereum_address result)"
  proof
    fix i
    show "\<exists>a. i < length kps \<longrightarrow> gen_address hex_decode i = (Ok a :: ethereum_address result)"
    proof (cases "i < length kps")
      case True
      then have "i < 10 ^ 40" using assms(2) by simp
      from gen_address_Ok[OF assms(1) this] show ?thesis by blast
    qed simp
  qed
  then obtain addr where addr:
    "\<And>i. i < length kps \<Longrightarrow> gen_address hex_decode i = (Ok (addr i) :: ethereum_address result)" by metis
  define v where "v = (\<lambda>(i, kp). \<lparr> v_address = addr i,
    v_public_key = keypair_public_key E kp, v_share_index = of_nat i :: u32 \<rparr>)"
  have "gen_validators E hex_decode kps = Ok (map v (enumerate 0 kps))"
    unfolding gen_validators_def
    by (rule try_map_Ok_map) (auto simp: v_def in_set_enumerate_eq addr)
  then show ?thesis by (simp add: v_def nth_enumerate_eq)
qed

lemma u32_bound: "unat (w :: u32) < 2 ^ 32"
proof -
  have "unat w < 2 ^ LENGTH(32)" by (rule unsigned_less)
  then show ?thesis by simp
qed

lemma of_nat_u32_inj: "inj_on (of_nat :: nat \<Rightarrow> u32) {..<2 ^ 32}"
  by (rule inj_onI) (metis lessThan_iff unat_of_nat_u32)

context pairing_laws begin

lemma setup_dkg_Ok:
  assumes hex: "hex_laws hex_decode" and R: "\<And>r. fst (scalar_rand R r) \<noteq> 0"
    and t: "0 < t" "t \<le> n" and idx: "idx < unat vn" and dm: "dom_new A (unat vn) = Some dm"
  shows "\<exists>vs self. setup_dkg_for_n_validators E A R hex_decode test_rng t n idx vn =
      Ok (\<lparr> params = \<lparr> tau = fixture_tau, security_threshold = t, shares_num = n \<rparr>,
        validators = validators_by_index vs, domain = dm, me = self \<rparr>, gen_keypairs R test_rng vn) \<and>
    gen_validators E hex_decode (gen_keypairs R test_rng vn) = Ok vs \<and> self = vs ! idx \<and>
    dkg_new A vs \<lparr> tau = fixture_tau, security_threshold = t, shares_num = n \<rparr> self =
      Ok \<lparr> params = \<lparr> tau = fixture_tau, security_threshold = t, shares_num = n \<rparr>,
        validators = validators_by_index vs, domain = dm, me = self \<rparr>"
proof -
  let ?kps = "gen_keypairs R test_rng vn"
  have vn: "unat vn < 2 ^ 32" by (rule u32_bound)
  have len: "length ?kps = unat vn" by (simp add: gen_keypairs_def)
  obtain vs where vs: "gen_validators E hex_decode ?kps = Ok vs" "length vs = unat vn"
      "\<forall>i<unat vn. v_public_key (vs ! i) = keypair_public_key E (?kps ! i) \<and> v_share_index (vs ! i) = of_nat i"
    using gen_validators_Ok[OF hex, of ?kps E] vn len by auto
  let ?ps = "\<lparr> tau = fixture_tau, security_threshold = t, shares_num = n \<rparr>"
  have idxs: "map v_share_index vs = map of_nat [0..<unat vn]"
    by (rule nth_equalityI) (use vs in auto)
  have dist: "distinct (map v_share_index vs)"
    unfolding idxs distinct_map using vn by (auto intro: inj_on_subset[OF of_nat_u32_inj])
  have good: "unat (v_share_index v) < length vs \<and> encryption_key (v_public_key v) \<noteq> 0" if v: "v \<in> set vs" for v
  proof -
    obtain i where i: "i < unat vn" "v = vs ! i" using v vs(2) by (auto simp: in_set_conv_nth)
    have "decryption_key (?kps ! i) \<noteq> 0"
      using keypairs_nonzero[of R "unat vn" test_rng] R i(1) len by (simp add: gen_keypairs_def)
    then show ?thesis using i vs(2,3) vn by (simp add: unat_of_nat_u32 keypair_public_key_def)
  qed
  have "map_of (validators_by_index vs) (v_share_index (vs ! idx)) = Some (vs ! idx)"
    using validators_by_index_set(1)[OF dist] btree.collect_distinct idx vs(2)
    by (intro map_of_is_SomeI) (auto simp: validators_by_index_def)
  then have new: "dkg_new A vs ?ps (vs ! idx) =
      Ok \<lparr> params = ?ps, validators = validators_by_index vs, domain = dm, me = vs ! idx \<rparr>"
  proof -
    have "assert_no_share_duplicates vs = Ok ()" using dist by (simp add: outcome_simps)
    moreover have "check_validators (length vs) vs = Ok ()" using good by (simp add: check_validators_Ok)
    ultimately show ?thesis
      using t dm vs(2) \<open>map_of (validators_by_index vs) (v_share_index (vs ! idx)) = Some (vs ! idx)\<close>
      by (simp add: dkg_new_branches)
  qed
  moreover have "dkg_params_new fixture_tau t n = Ok ?ps"
    using t by (simp add: dkg_params_new_def Let_def outcome_simps)
  ultimately show ?thesis
    using vs idx by (simp add: setup_dkg_for_n_validators_def Let_def slice_index_if)
qed

end

section \<open>Dealt transcripts\<close>

context session begin

lemma generated_transcript_dealt:
  assumes "rand_laws R" "\<And>r. fst (scalar_rand R r) \<noteq> 0"
  shows "\<exists>cs rng'. generate_transcript E A R d rng = (Ok (dealt E A d cs), rng') \<and>
    length cs = unat (security_threshold (params d)) \<and> hd cs \<noteq> 0 \<and> last cs \<noteq> 0"
proof -
  obtain s rng1 where s: "scalar_rand R rng = (s, rng1)" by fastforce
  with assms(2)[of rng] have nz: "s \<noteq> 0" by simp
  obtain phi rng2 where phi: "poly_rand R (unat (security_threshold (params d)) - 1) rng1 = (phi, rng2)"
    by fastforce
  have new: "pvss_new E A R s d rng1 = (Ok (dealt E A d (phi[0 := s])), rng2)"
    by (rule pvss_new_dealt[OF assms(1) phi])
  with assms(1) show ?thesis
  proof (rule pvss_new_polynomial)
    fix cs assume "length cs = unat (security_threshold (params d))" "hd cs = s"
      "s \<noteq> 0 \<Longrightarrow> last cs \<noteq> 0" "dealt E A d (phi[0 := s]) = dealt E A d cs"
    then show ?thesis using s new nz by (auto simp: generate_transcript_def)
  qed
qed

end

definition honest_message ::
  "('f::field, 'g1::ab_group_add, 'g2::ab_group_add, 'gt::comm_monoid_mult) pairing \<Rightarrow> ('f, 'g1, 'd) ark_poly \<Rightarrow>
    ('g2, 'd) dkg \<Rightarrow> ('g1, 'g2) validator_message \<Rightarrow> bool" where
  "honest_message E A d m \<longleftrightarrow> fst m \<in> snd ` set (validators d) \<and>
     (\<exists>cs. length cs = unat (security_threshold (params d)) \<and> hd cs \<noteq> 0 \<and> last cs \<noteq> 0 \<and>
       snd m = dealt E A d cs)"

lemma dealt_me: "dealt E A (d\<lparr> me := m \<rparr>) cs = dealt E A d cs"
  by (simp add: dealt_def dealt_shares_def domain_points_def)

lemma deal_transcripts_Ok:
  assumes "rand_laws R" "\<And>r. fst (scalar_rand R r) \<noteq> 0"
    and "\<And>i. i \<in> set js \<Longrightarrow> \<exists>m kps. dealer i = Ok (d\<lparr> me := m \<rparr>, kps) \<and> session E A (d\<lparr> me := m \<rparr>) \<and>
      m \<in> snd ` set (validators d)"
  shows "\<exists>ms rng'. deal_transcripts E A R dealer js rng = (Ok ms, rng') \<and> length ms = length js \<and>
    list_all (honest_message E A d) ms"
  using assms(3)
proof (induction js arbitrary: rng)
  case (Cons i js)
  obtain m kps where i: "dealer i = Ok (d\<lparr> me := m \<rparr>, kps)" "session E A (d\<lparr> me := m \<rparr>)"
      "m \<in> snd ` set (validators d)"
    using Cons.prems[of i] by auto
  obtain cs rng1 where cs: "generate_transcript E A R (d\<lparr> me := m \<rparr>) rng = (Ok (dealt E A (d\<lparr> me := m \<rparr>) cs), rng1)"
      "length cs = unat (security_threshold (params (d\<lparr> me := m \<rparr>)))" "hd cs \<noteq> 0" "last cs \<noteq> 0"
    using session.generated_transcript_dealt[OF i(2) assms(1,2)] by blast
  obtain ms rng2 where "deal_transcripts E A R dealer js rng1 = (Ok ms, rng2)"
      "length ms = length js" "list_all (honest_message E A d) ms"
    using Cons.IH[of rng1] Cons.prems by auto
  moreover have "honest_message E A d (m, dealt E A (d\<lparr> me := m \<rparr>) cs)"
    using cs(2-4) i(3) by (auto simp: honest_message_def dealt_me)
  ultimately show ?case using i(1) cs(1) by simp
qed simp

section \<open>What the fixtures set up\<close>

lemma validators_in_order:
  assumes "dkg_wf A d" "snd ` set (validators d) = set vs" "length (validators d) = length vs"
    and "\<And>i. i < length vs \<Longrightarrow> v_share_index (vs ! i) = of_nat i" "i < length vs"
  shows "snd (validators d ! i) = vs ! i"
proof -
  have "snd (validators d ! i) \<in> set vs" using assms(3,5) by (simp flip: assms(2))
  then obtain j where j: "j < length vs" "snd (validators d ! i) = vs ! j" by (auto simp: in_set_conv_nth)
  note w = dkg_wf_nth(2,3)[OF assms(1)]
  have "of_nat j = (of_nat i :: u32)" using assms(3-5) j w(1)[of i] by simp
  then have "j = i" using assms(3,5) j(1) w[of i] w[of j] by simp
  with j show ?thesis by simp
qed

text \<open>The validators' contexts differ only in whose they are, and hold the generated keys in order.\<close>

lemma fixture_contexts:
  assumes "pairing_laws E" "\<forall>r. fst (scalar_rand R r) \<noteq> 0" "hex_laws hex_decode"
    and "0 < t" "t \<le> n" "0 < vn" "dom_new A (unat vn) = Some dm"
  obtains vs d where "gen_validators E hex_decode (gen_keypairs R test_rng vn) = Ok vs" "length vs = unat vn"
    "\<And>i. i < unat vn \<Longrightarrow> setup_dkg_for_n_validators E A R hex_decode test_rng t n i vn =
      Ok (d\<lparr> me := vs ! i \<rparr>, gen_keypairs R test_rng vn)"
    "\<And>i. i < unat vn \<Longrightarrow> dkg_new A vs \<lparr> tau = fixture_tau, security_threshold = t, shares_num = n \<rparr> (vs ! i) =
      Ok (d\<lparr> me := vs ! i \<rparr>)"
    "\<And>i. i < unat vn \<Longrightarrow> dkg_wf A (d\<lparr> me := vs ! i \<rparr>)"
    "d\<lparr> me := vs ! 0 \<rparr> = d" "security_threshold (params d) = t" "domain d = dm" "map snd (validators d) = vs"
    "\<And>i. i < unat vn \<Longrightarrow> v_public_key (vs ! i) = keypair_public_key E (gen_keypairs R test_rng vn ! i)"
proof -
  let ?ps = "\<lparr> tau = fixture_tau, security_threshold = t, shares_num = n \<rparr>"
  let ?kps = "gen_keypairs R test_rng vn"
  have vn: "0 < unat vn" using assms(6) by (simp add: unat_gt_0 word_gt_0)
  note dkgs = pairing_laws.setup_dkg_Ok[OF assms(1,3) assms(2)[rule_format] assms(4,5) _ assms(7), where test_rng = test_rng]
  obtain vs where vs: "gen_validators E hex_decode ?kps = Ok vs" using dkgs[OF vn] by blast
  define d where "d = \<lparr> params = ?ps, validators = validators_by_index vs, domain = dm, me = vs ! 0 \<rparr>"
  have d0: "d\<lparr> me := vs ! 0 \<rparr> = d" by (simp add: d_def)
  have deal: "setup_dkg_for_n_validators E A R hex_decode test_rng t n i vn = Ok (d\<lparr> me := vs ! i \<rparr>, ?kps)"
      "dkg_new A vs ?ps (vs ! i) = Ok (d\<lparr> me := vs ! i \<rparr>)"
    if "i < unat vn" for i
    using dkgs[OF that] vs by (auto simp: d_def)
  note wf = dkg_new_invariant(1,2)[OF deal(2)[OF vn], unfolded d0]
  have vset: "snd ` set (validators d) = set vs"
    using dkg_new_Ok(3)[OF deal(2)[OF vn]] by (simp add: d_def validators_by_index_set image_image)
  have len: "length vs = unat vn" and keys: "\<And>i. i < unat vn \<Longrightarrow>
      v_public_key (vs ! i) = keypair_public_key E (?kps ! i) \<and> v_share_index (vs ! i) = of_nat i"
    using gen_validators_Ok[OF assms(3), of ?kps E] vs less_imp_le[OF u32_bound[of vn]]
    by (auto simp: gen_keypairs_def)
  have "snd (validators d ! i) = vs ! i" if "i < unat vn" for i
    by (rule validators_in_order[OF wf(1) vset]) (use wf(2) len keys that in auto)
  then have "map snd (validators d) = vs" using wf(2) len by (intro nth_equalityI) auto
  then show ?thesis
    using that[OF vs len deal dkg_new_invariant(1)[OF deal(2)] d0] keys by (simp add: d_def)
qed

text \<open>
  With valid parameters, at least one validator, a domain for them, no more dealers than
  validators, and a generator that does not sample 0, \<open>setup_dealt_dkg_with_n_transcript_dealt\<close>
  returns: a context that satisfies the session invariant, the keypairs of its validators in the
  order of their share indices, and the requested number of messages, each from a registered
  validator and with the transcript of a polynomial with nonzero constant and leading terms.\<close>

lemma dealt_fixture:
  assumes "pairing_laws E" "domain_laws (g1_mul E) A" "rand_laws R" "\<forall>r. fst (scalar_rand R r) \<noteq> 0"
    and "hex_laws hex_decode" "\<forall>xs r. mset (fst (shuffle xs r)) = mset xs"
    and "0 < t" "t \<le> n" "0 < vn" "k \<le> vn" "dom_new A (unat vn) = Some dm"
  shows "\<exists>d ms.
    setup_dealt_dkg_with_n_transcript_dealt E A R hex_decode test_rng shuffle t n vn k =
      Ok (d, gen_keypairs R test_rng vn, ms) \<and>
    dkg_wf A d \<and> security_threshold (params d) = t \<and> domain d = dm \<and> length (validators d) = unat vn \<and>
    (\<forall>i<unat vn. v_public_key (snd (validators d ! i)) = keypair_public_key E (gen_keypairs R test_rng vn ! i)) \<and>
    length ms = unat k \<and> list_all (honest_message E A d) ms"
proof (rule fixture_contexts[OF assms(1,4,5,7-9,11), where test_rng = test_rng])
  fix vs d
  let ?kps = "gen_keypairs R test_rng vn"
  let ?dealer = "\<lambda>i. setup_dkg_for_n_validators E A R hex_decode test_rng t n i vn"
  assume len: "length vs = unat vn" and dealer: "\<And>i. i < unat vn \<Longrightarrow> ?dealer i = Ok (d\<lparr> me := vs ! i \<rparr>, ?kps)"
    and wf: "\<And>i. i < unat vn \<Longrightarrow> dkg_wf A (d\<lparr> me := vs ! i \<rparr>)"
    and d: "d\<lparr> me := vs ! 0 \<rparr> = d" "security_threshold (params d) = t" "domain d = dm" "map snd (validators d) = vs"
    and keys: "\<And>i. i < unat vn \<Longrightarrow> v_public_key (vs ! i) = keypair_public_key E (?kps ! i)"
  have vn: "0 < unat vn" "unat k \<le> unat vn" using assms(9,10) by (simp_all add: word_le_nat_alt unat_gt_0 word_gt_0)
  have vset: "snd ` set (validators d) = set vs" by (simp flip: d(4))
  have "\<exists>m kps. ?dealer i = Ok (d\<lparr> me := m \<rparr>, kps) \<and> session E A (d\<lparr> me := m \<rparr>) \<and> m \<in> snd ` set (validators d)"
    if "i \<in> set [0..<unat k]" for i
  proof -
    have i: "i < unat vn" using that vn(2) by simp
    have "session E A (d\<lparr> me := vs ! i \<rparr>)" by (intro session.intro session_axioms.intro assms(1,2) wf[OF i])
    then show ?thesis using dealer[OF i] i len by (auto simp: vset)
  qed
  note dealers = this
  obtain ms rng' where ms: "deal_transcripts E A R ?dealer [0..<unat k] test_rng = (Ok ms, rng')"
      "length ms = unat k" "list_all (honest_message E A d) ms"
    using deal_transcripts_Ok[where dealer = ?dealer and js = "[0..<unat k]" and E = E and A = A and rng = test_rng,
        OF assms(3) assms(4)[rule_format] dealers] by auto
  let ?out = "fst (shuffle ms rng')"
  have perm: "mset ?out = mset ms" using assms(6) by blast
  have "setup_dealt_dkg_with_n_transcript_dealt E A R hex_decode test_rng shuffle t n vn k = Ok (d, ?kps, ?out)"
    using ms(1) dealer[OF vn(1)] d(1) by (simp add: setup_dealt_dkg_with_n_transcript_dealt_def Let_def)
  moreover have "length ?out = unat k" using ms(2) mset_eq_length[OF perm] by simp
  moreover have "list_all (honest_message E A d) ?out"
    using ms(3) mset_eq_setD[OF perm] by (simp add: list_all_iff)
  moreover have "length (validators d) = unat vn" using arg_cong[OF d(4), of length] len by simp
  moreover from this have "snd (validators d ! i) = vs ! i" if "i < unat vn" for i using that d(4) by (metis nth_map)
  ultimately show ?thesis
    using wf[OF vn(1)] d keys by (intro exI[of _ d] exI[of _ ?out]) simp
qed

text \<open>An honest message passes optimistic and full verification.\<close>

lemma honest_message_verifies:
  assumes "session E A d" "unat (security_threshold (params d)) \<le> length (dom_elements A (domain d))"
    and "honest_message E A d (v, p)"
  shows "verify_optimistic E p \<and> verify_full E A p d = Ok True"
  using session.dealt_verifies[OF assms(1,2)] assms(3) by (auto simp: honest_message_def)

end
