(* ===== verification/Scenarios.thy ===== *)
theory Scenarios
  imports Fixtures Dealers
begin

text \<open>
  The end-to-end scenarios of \<open>ferveo/src/lib.rs\<close> (module \<open>test_dkg_full\<close>), run on the fixtures: from
  the generation of the validators' keys to the decrypted message.  A scenario returns \<open>Ok ()\<close> when
  every \<open>unwrap\<close> and every assertion in it succeeds.  The constants \<open>MSG\<close> and \<open>AAD\<close> are arguments;
  \<open>shuffle\<close> and \<open>choose_multiple\<close> of the \<open>rand\<close> crate and the iteration order of a \<open>HashMap\<close> are parameters.
\<close>

section \<open>Operations\<close>

definition create_shared_secret_simple_tdec ::
  "('g1, 'g2, 'gt, 'fp, 'fp2, 'ecp2) crypto \<Rightarrow> ('f::field, 'g1::ab_group_add, 'g2::ab_group_add, 'gt::comm_monoid_mult) pairing \<Rightarrow>
    ('f, 'g1, 'd) ark_poly \<Rightarrow> ('g2, 'd) dkg \<Rightarrow> bytes \<Rightarrow> ('g1, 'g2) ciphertext_header \<Rightarrow> 'f keypair list \<Rightarrow>
    ('g1, 'g2) pvss list \<Rightarrow>
    (('g1, 'g2) aggregated_transcript \<times> ('g1, 'gt) decryption_share_simple list \<times> 'gt shared_secret) result"
where
  "create_shared_secret_simple_tdec C E A dkg aad header validator_keypairs transcripts =
     and_then (unwrap (from_transcripts transcripts)) (\<lambda>server_aggregate.
     and_then (unwrap (verify_aggregation E A (aggregate_pvss server_aggregate) dkg transcripts)) (\<lambda>ok.
     and_then (rust_assert ok) (\<lambda>_.
     and_then (try_map (\<lambda>kp.
       and_then (expect (get_validator dkg (keypair_public_key E kp))) (\<lambda>validator.
       unwrap (create_decryption_share_simple C E (aggregate_pvss server_aggregate) header aad kp
         (v_share_index validator))))
       (take (unat (security_threshold (params dkg))) validator_keypairs)) (\<lambda>decryption_shares.
     and_then (slice_range (domain_points A dkg) 0 (length decryption_shares)) (\<lambda>points.
     and_then (rust_assert (length points = length decryption_shares)) (\<lambda>_.
     Ok (server_aggregate, decryption_shares,
       share_combine_simple E decryption_shares (prepare_combine_simple points))))))))"

text \<open>The first half of every scenario: the dealt transcripts are aggregated and the aggregate verified.\<close>

definition dealt_ritual ::
  "('f::field, 'g1::ab_group_add, 'g2::ab_group_add, 'gt::comm_monoid_mult) pairing \<Rightarrow> ('f, 'g1, 'd) ark_poly \<Rightarrow>
    u32 \<Rightarrow> (('g2, 'd) dkg \<times> 'f keypair list \<times> ('g1, 'g2) validator_message list) result \<Rightarrow>
    (('g2, 'd) dkg \<times> 'f keypair list \<times> ('g1, 'g2) pvss list \<times> ('g1, 'g2) aggregated_transcript) result"
where
  "dealt_ritual E A n fixture =
     and_then fixture (\<lambda>(dkg, validator_keypairs, messages).
     let transcripts = map snd (take (unat n) messages) in
     and_then (unwrap (from_transcripts transcripts)) (\<lambda>local_aggregate.
     and_then (unwrap (verify_aggregation E A (aggregate_pvss local_aggregate) dkg transcripts)) (\<lambda>ok.
     and_then (rust_assert ok) (\<lambda>_.
     Ok (dkg, validator_keypairs, transcripts, local_aggregate)))))"

definition test_dkg_simple_tdec ::
  "('g1, 'g2, 'gt, 'fp, 'fp2, 'ecp2) crypto \<Rightarrow> ('f::field, 'g1::ab_group_add, 'g2::ab_group_add, 'gt::comm_monoid_mult) pairing \<Rightarrow>
    ('f, 'g1, 'd) ark_poly \<Rightarrow> ('f, 'r) ark_rand \<Rightarrow> (bytes \<Rightarrow> bytes option) \<Rightarrow> 'r \<Rightarrow>
    (('g1, 'g2) validator_message list \<Rightarrow> 'r \<Rightarrow> ('g1, 'g2) validator_message list \<times> 'r) \<Rightarrow>
    bytes \<Rightarrow> bytes \<Rightarrow> u32 \<Rightarrow> u32 \<Rightarrow> unit result"
where
  "test_dkg_simple_tdec C E A R hex_decode test_rng shuffle msg aad n t =
     and_then (dealt_ritual E A n
       (setup_dealt_dkg_with_n_validators E A R hex_decode test_rng shuffle t n n)) (\<lambda>(dkg, kps, transcripts, agg).
     and_then (unwrap (fst (encrypt C E R msg aad (agg_public_key agg) test_rng))) (\<lambda>ciphertext.
     and_then (unwrap (ct_header C ciphertext)) (\<lambda>header.
     and_then (create_shared_secret_simple_tdec C E A dkg aad header kps transcripts) (\<lambda>(_, _, shared_secret).
     and_then (unwrap (decrypt_with_shared_secret C E ciphertext aad shared_secret)) (\<lambda>plaintext.
     rust_assert (plaintext = msg))))))"

definition test_dkg_simple_tdec_precomputed ::
  "('g1, 'g2, 'gt, 'fp, 'fp2, 'ecp2) crypto \<Rightarrow> ('f::field, 'g1::ab_group_add, 'g2::ab_group_add, 'gt::comm_monoid_mult) pairing \<Rightarrow>
    ('f, 'g1, 'd) ark_poly \<Rightarrow> ('f, 'r) ark_rand \<Rightarrow> (bytes \<Rightarrow> bytes option) \<Rightarrow> 'r \<Rightarrow>
    (('g1, 'g2) validator_message list \<Rightarrow> 'r \<Rightarrow> ('g1, 'g2) validator_message list \<times> 'r) \<Rightarrow>
    ('f keypair list \<Rightarrow> nat \<Rightarrow> 'r \<Rightarrow> 'f keypair list \<times> 'r) \<Rightarrow>
    ((u32, 'f) hash_map \<Rightarrow> (u32, 'f) hash_map) \<Rightarrow>
    (('g1, 'gt) decryption_share_precomputed list \<Rightarrow> 'r \<Rightarrow> ('g1, 'gt) decryption_share_precomputed list \<times> 'r) \<Rightarrow>
    bytes \<Rightarrow> bytes \<Rightarrow> u32 \<Rightarrow> u32 \<Rightarrow> unit result"
where
  "test_dkg_simple_tdec_precomputed C E A R hex_decode test_rng shuffle choose_multiple hash_order
       shuffle_shares msg aad n t =
     and_then (dealt_ritual E A n
       (setup_dealt_dkg_with_n_transcript_dealt E A R hex_decode test_rng shuffle t n n n)) (\<lambda>(dkg, kps, _, agg).
     let (res, rng1) = encrypt C E R msg aad (agg_public_key agg) test_rng in
     and_then (unwrap res) (\<lambda>ciphertext.
     let (selected_keypairs, rng2) = choose_multiple kps (unat t) rng1 in
     and_then (try_map (\<lambda>kp. expect (get_validator dkg (keypair_public_key E kp))) selected_keypairs) (\<lambda>selected_validators.
     let selected_domain_points = hash_order (hm_collect (List.map_filter (\<lambda>v.
       case get_domain_point A dkg (v_share_index v) of
         Ok domain_point \<Rightarrow> Some (v_share_index v, domain_point) | _ \<Rightarrow> None) selected_validators)) in
     and_then (try_map (\<lambda>kp.
       and_then (expect (get_validator dkg (keypair_public_key E kp))) (\<lambda>validator.
       and_then (unwrap (ct_header C ciphertext)) (\<lambda>header.
       unwrap (create_decryption_share_precomputed C E (aggregate_pvss agg) header aad kp
         (v_share_index validator) selected_domain_points)))) selected_keypairs) (\<lambda>decryption_shares.
     and_then (unwrap (decrypt_with_shared_secret C E ciphertext aad
       (share_combine_precomputed (fst (shuffle_shares decryption_shares rng2))))) (\<lambda>plaintext.
     rust_assert (plaintext = msg))))))"

section \<open>Supporting facts\<close>

lemma take_eq_map_nth: "n \<le> length xs \<Longrightarrow> take n xs = map ((!) xs) [0..<n]"
  by (rule nth_equalityI) simp_all

lemma try_map_perm:
  assumes "try_map f xs = Ok zs" "mset xs = mset ys"
  obtains zs' where "try_map f ys = Ok zs'" "mset zs' = mset zs"
proof -
  define g where "g x = (case f x of Ok y \<Rightarrow> y)" for x
  have "\<forall>x\<in>set xs. f x = Ok (g x)" and zs: "zs = map g xs"
    using assms(1) by (auto simp: try_map_Ok list_all2_conv_all_nth in_set_conv_nth g_def intro!: nth_equalityI)
  then have "\<And>y. y \<in> set ys \<Longrightarrow> f y = Ok (g y)" using mset_eq_setD[OF assms(2)] by blast
  then have "try_map f ys = Ok (map g ys)" by (rule try_map_Ok_map)
  moreover have "mset (map g ys) = mset zs" by (simp add: zs assms(2))
  ultimately show ?thesis by (rule that)
qed

lemma try_map_mono:
  assumes "try_map f xs = Ok ys" "\<And>x y. x \<in> set xs \<Longrightarrow> f x = Ok y \<Longrightarrow> g x = Ok y"
  shows "try_map g xs = Ok ys"
  using assms unfolding try_map_Ok by (auto elim: list.rel_mono_strong)

lemma share_combine_precomputed_perm:
  assumes "mset xs = mset ys"
  shows "share_combine_precomputed xs = share_combine_precomputed ys"
proof -
  have "mset (map precomputed_decryption_share xs) = mset (map precomputed_decryption_share ys)"
    by (simp add: assms)
  then have "prod_list (map precomputed_decryption_share xs) = prod_list (map precomputed_decryption_share ys)"
    by (metis prod_mset_prod_list)
  then show ?thesis by (simp only: share_combine_precomputed_prod)
qed

lemma encrypt_rng: "encrypt C E R msg aad pk rng = (Ok ct, rng') \<Longrightarrow> rng' = snd (scalar_rand R rng)"
  by (auto simp: encrypt_def Let_def split: if_splits prod.splits)

text \<open>Encryption to a nonzero key returns when the AEAD does.\<close>

context tdec_scheme begin

lemma encrypt_Ok:
  assumes "dkg_pk_point pk \<noteq> 0" "fst (scalar_rand R rng) \<noteq> 0"
    and "\<And>key nonce. chacha_encrypt C key nonce msg aad \<noteq> None" "\<And>m. htp_bls12381_g2 (curve_lib C) m \<noteq> Ok 0"
  obtains ct rng' where "encrypt C E R msg aad pk rng = (Ok ct, rng')" "ct_commitment ct \<noteq> 0" "ct_auth_tag ct \<noteq> 0"
proof -
  obtain r rng' where r: "scalar_rand R rng = (r, rng')" "r \<noteq> 0" using assms(2) by (cases "scalar_rand R rng") auto
  let ?U = "g1_mul E (g1_generator E) r"
  obtain nonce where nonce: "nonce_from_commitment C ?U = Ok nonce" using nonce_Ok by blast
  obtain key where key: "shared_secret_to_chacha C
       (SharedSecret (pair E (g1_mul E (dkg_pk_point pk) r) (g2_generator E))) = Ok key" using chacha_key_Ok by blast
  obtain ctxt where ctxt: "chacha_encrypt C key nonce msg aad = Some ctxt" using assms(3)[of key nonce] by blast
  obtain T where T: "construct_tag_hash C ?U (sha256 C ctxt) aad = Ok T" using construct_tag_hash_Ok by blast
  have "T \<noteq> 0" using T assms(4) by (auto simp: construct_tag_hash_def hash_to_g2_Ok outcome_simps)
  have "encrypt C E R msg aad pk rng = (Ok \<lparr> ct_commitment = ?U, ct_auth_tag = g2_mul E T r, ct_ciphertext = ctxt \<rparr>, rng')"
    using assms(1) r nonce key ctxt T by (simp add: encrypt_def Let_def)
  then show ?thesis using that r(2) \<open>T \<noteq> 0\<close> by auto
qed

text \<open>What a scenario needs of a ciphertext: it exists, its header checks, and the secret opens it.\<close>

lemma encrypted_round:
  assumes "pk = DkgPublicKey (g1_mul E (g1_generator E) s)" "s \<noteq> 0" "\<forall>r. fst (scalar_rand R r) \<noteq> 0"
    and "\<forall>key nonce. chacha_encrypt C key nonce msg aad \<noteq> None" "\<forall>m. htp_bls12381_g2 (curve_lib C) m \<noteq> Ok 0"
  obtains ct rng' h where "encrypt C E R msg aad pk rng = (Ok ct, rng')" "ct_header C ct = Ok h"
    "header_check C E h aad = Ok True" "decrypt_with_shared_secret C E ct aad
      (SharedSecret (pair E (hdr_commitment h) (g2_mul E (g2_generator E) s))) = Ok msg"
proof -
  have pk: "dkg_pk_point pk \<noteq> 0" using assms(1,2) by simp
  from assms(3) have r: "fst (scalar_rand R rng) \<noteq> 0" by blast
  obtain ct rng' where ct: "encrypt C E R msg aad pk rng = (Ok ct, rng')" "ct_commitment ct \<noteq> 0" "ct_auth_tag ct \<noteq> 0"
    by (rule encrypt_Ok[OF pk r]) (use assms(4,5) in auto)
  show ?thesis
    using that[OF ct(1)] encrypt_check[OF ct] encrypt_secret[OF ct[unfolded assms(1)]]
    by (simp add: ciphertext_check_header ct_header_def)
qed

end

text \<open>The share of the \<open>i\<close>-th slot of a polynomial.\<close>

definition slot_share ::
  "('f::field, 'g1, 'g2, 'gt) pairing \<Rightarrow> ('f, 'g1, 'd) ark_poly \<Rightarrow> ('g2, 'd) dkg \<Rightarrow> 'f list \<Rightarrow> 'g1 \<Rightarrow> 'f keypair list \<Rightarrow> nat \<Rightarrow>
    ('g1, 'gt) decryption_share_simple"
where
  "slot_share E A d cs U kps i = \<lparr>
     simple_decryption_share = pair E U (g2_mul E (g2_generator E) (peval cs (domain_points A d ! i))),
     simple_validator_checksum = \<lparr> checksum = g1_mul E U (inverse (decryption_key (kps ! i))) \<rparr> \<rparr>"

context session begin

text \<open>The holder of the \<open>i\<close>-th keypair is found under its public key.\<close>

lemma get_validator_nth:
  assumes "distinct kps" "length kps = length (validators d)" "i < length (validators d)"
    and "\<And>i. i < length (validators d) \<Longrightarrow> v_public_key (snd (validators d ! i)) = keypair_public_key E (kps ! i)"
  shows "get_validator d (keypair_public_key E (kps ! i)) = Some (snd (validators d ! i))"
proof -
  have "keypair_public_key E (kps ! j) \<noteq> keypair_public_key E (kps ! i)" if "j < i" for j
  proof
    assume "keypair_public_key E (kps ! j) = keypair_public_key E (kps ! i)"
    then have "kps ! j = kps ! i" by (simp add: keypair_public_key_def keypair.equality)
    with that assms(1-3) show False by (simp add: nth_eq_iff_index_eq)
  qed
  then show ?thesis
    using assms(3,4) by (auto simp: get_validator_def find_Some_iff intro!: exI[of _ i])
qed

text \<open>The first validators are found under their keys, and the shares they create combine.\<close>

lemma first_shares_combine:
  assumes "shares p = dealt_shares E A d cs" "length cs \<le> length (validators d)"
    and "distinct kps" "length kps = length (validators d)"
    and "\<And>i. i < length (validators d) \<Longrightarrow> v_public_key (snd (validators d ! i)) = keypair_public_key E (kps ! i)"
    and "header_check C E h aad = Ok True"
  defines "ss \<equiv> map (slot_share E A d cs (hdr_commitment h) kps) [0..<length cs]"
  shows "try_map (\<lambda>kp. and_then (expect (get_validator d (keypair_public_key E kp)))
      (\<lambda>validator. unwrap (create_decryption_share_simple C E p h aad kp (v_share_index validator))) :: _ result)
      (take (length cs) kps) = Ok ss"
    "share_combine_simple E ss (prepare_combine_simple (take (length cs) (domain_points A d))) =
      SharedSecret (pair E (hdr_commitment h) (g2_mul E (g2_generator E) (peval cs 0)))"
proof -
  let ?t = "length cs" and ?s = "slot_share E A d cs (hdr_commitment h) kps"
  let ?f = "\<lambda>kp. and_then (expect (get_validator d (keypair_public_key E kp)))
      (\<lambda>validator. unwrap (create_decryption_share_simple C E p h aad kp (v_share_index validator))) :: _ result"
  have f: "?f (kps ! i) = Ok (?s i)" if i: "i < length (validators d)" for i
  proof -
    note v = dkg_wf_nth(2,3)[OF wf i]
    have "create_decryption_share_simple C E p h aad (kps ! i) (of_nat i) = Ok (?s i)"
      using share_from_verified[of p cs "of_nat i" "kps ! i"] assms(1,5,6) i v
      by (simp add: unat_of_nat_u32 slot_share_def)
    then show ?thesis using get_validator_nth[OF assms(3,4) i assms(5)] v(1) by simp
  qed
  have "try_map ?f (map ((!) kps) [0..<?t]) = Ok (map ?s [0..<?t])"
    unfolding try_map_map by (rule try_map_Ok_map, rule f) (use assms(2) in simp)
  then show "try_map ?f (take ?t kps) = Ok ss" using assms(2,4) by (simp add: take_eq_map_nth ss_def)
  have pts: "take ?t (domain_points A d) = map ((!) (domain_points A d)) [0..<?t]"
    using assms(2) by (simp add: take_eq_map_nth)
  have "distinct (take ?t (domain_points A d))" by (simp add: distinct_take)
  then show "share_combine_simple E ss (prepare_combine_simple (take ?t (domain_points A d))) =
      SharedSecret (pair E (hdr_commitment h) (g2_mul E (g2_generator E) (peval cs 0)))"
    by (rule combine_simple_secret) (use assms(2) in \<open>simp_all add: pts ss_def slot_share_def\<close>)
qed

text \<open>The helper returns the aggregate and the secret that its shares combine to.\<close>

lemma create_shared_secret_Ok:
  assumes "from_transcripts ts = Ok agg" "verify_aggregation E A (aggregate_pvss agg) d ts = Ok True"
    and "shares (aggregate_pvss agg) = dealt_shares E A d cs"
    and "length cs = unat (security_threshold (params d))" "length cs \<le> length (validators d)"
    and "distinct kps" "length kps = length (validators d)"
    and "\<And>i. i < length (validators d) \<Longrightarrow> v_public_key (snd (validators d ! i)) = keypair_public_key E (kps ! i)"
    and "header_check C E h aad = Ok True"
  shows "create_shared_secret_simple_tdec C E A d aad h kps ts =
    Ok (agg, map (slot_share E A d cs (hdr_commitment h) kps) [0..<length cs],
      SharedSecret (pair E (hdr_commitment h) (g2_mul E (g2_generator E) (peval cs 0))))"
  using first_shares_combine[OF assms(3,5-9)] assms(1,2,4,5)
  by (simp add: create_shared_secret_simple_tdec_def slice_range_def)

text \<open>Keypairs drawn from those of the validators are those of distinct share indices.\<close>

lemma drawn_keypairs:
  assumes "distinct kps" "length kps = length (validators d)" "mset sel \<subseteq># mset kps"
  obtains js :: "u32 list" where "sel = map (\<lambda>i. kps ! unat i) js" "distinct js"
    "list_all (\<lambda>i. unat i < length (validators d)) js"
proof -
  have sub: "set sel \<subseteq> set kps" by (rule set_mset_mono[OF assms(3), simplified])
  have ex: "\<exists>i :: u32. unat i < length (validators d) \<and> kps ! unat i = kp" if kp: "kp \<in> set sel" for kp
  proof -
    have "kp \<in> set kps" using kp sub by blast
    then obtain i where i: "i < length (validators d)" "kps ! i = kp" using assms(2) by (auto simp: in_set_conv_nth)
    then show ?thesis using dkg_wf_nth(2,3)[OF wf i(1)] by (intro exI[of _ "of_nat i"]) simp
  qed
  define ix where "ix kp = (SOME i :: u32. unat i < length (validators d) \<and> kps ! unat i = kp)" for kp
  have ix: "unat (ix kp) < length (validators d)" "kps ! unat (ix kp) = kp" if "kp \<in> set sel" for kp
    using someI_ex[OF ex[OF that]] by (simp_all add: ix_def)
  obtain rest where "mset rest = mset kps - mset sel" using ex_mset by blast
  then have "mset (sel @ rest) = mset kps" using assms(3) by simp
  from mset_eq_imp_distinct_iff[OF this] assms(1) have "distinct sel" by simp
  moreover have "inj_on ix (set sel)" by (rule inj_onI) (metis ix(2))
  ultimately have "distinct (map ix sel)" by (simp add: distinct_map)
  moreover have "sel = map (\<lambda>i. kps ! unat i) (map ix sel)" by (simp add: ix(2) map_idI)
  moreover have "list_all (\<lambda>i. unat i < length (validators d)) (map ix sel)" by (simp add: list_all_iff ix(1))
  ultimately show ?thesis using that by blast
qed

text \<open>Precomputed shares of drawn validators combine, in any order of the shares and of the map.\<close>

lemma drawn_shares_combine:
  assumes "shares p = dealt_shares E A d cs" "length cs \<le> length js"
    and "distinct kps" "length kps = length (validators d)"
    and "\<And>i. i < length (validators d) \<Longrightarrow> v_public_key (snd (validators d ! i)) = keypair_public_key E (kps ! i)"
    and "distinct js" "list_all (\<lambda>i :: u32. unat i < length (validators d)) js"
    and "mset m = mset (map (\<lambda>i. (i, domain_points A d ! unat i)) js)"
    and "header_check C E h aad = Ok True"
  obtains ss where "try_map (\<lambda>i. create_decryption_share_precomputed C E p h aad (kps ! unat i) i m) js = Ok ss"
    "share_combine_precomputed ss = SharedSecret (pair E (hdr_commitment h) (g2_mul E (g2_generator E) (peval cs 0)))"
proof -
  let ?e = "\<lambda>i. (i, domain_points A d ! unat i)"
  let ?f = "\<lambda>i. create_decryption_share_precomputed C E p h aad (kps ! unat i) i m"
  have fst: "mset (map fst m) = mset js" using arg_cong[OF assms(8), of "image_mset fst"] by (simp add: multiset.map_comp o_def)
  have set: "set m = ?e ` set js" using mset_eq_setD[OF assms(8)] by simp
  have "distinct (map fst m)" using assms(6) mset_eq_imp_distinct_iff[OF fst] by simp
  moreover have "length cs \<le> length m" using assms(2) mset_eq_length[OF assms(8)] by simp
  moreover have "list_all (\<lambda>(i, x). unat i < length (validators d) \<and> x = domain_points A d ! unat i) m"
    using assms(7) set by (auto simp: list_all_iff)
  moreover have "list_all (\<lambda>i. keypair_public_key E (kps ! unat i) = v_public_key (snd (validators d ! unat i))) (map fst m)"
    using assms(5,7) set by (auto simp: list_all_iff)
  moreover have "take (length (validators d)) (shares p) = dealt_shares E A d cs" using assms(1) by simp
  ultimately obtain ss where ss: "try_map ?f (map fst m) = Ok ss"
      "share_combine_precomputed ss = SharedSecret (pair E (hdr_commitment h) (g2_mul E (g2_generator E) (peval cs 0)))"
    using combine_verified_precomputed[of p cs m "\<lambda>i. kps ! unat i"] assms(9) by blast
  from ss(1) fst obtain ss' where "try_map ?f js = Ok ss'" "mset ss' = mset ss" by (rule try_map_perm)
  then show ?thesis using that ss(2) share_combine_precomputed_perm by metis
qed

text \<open>The lookups of the precomputed scenario: every drawn keypair's validator and domain point is found.\<close>

lemma drawn_lookups:
  assumes "distinct kps" "length kps = length (validators d)"
    and "\<And>i. i < length (validators d) \<Longrightarrow> v_public_key (snd (validators d ! i)) = keypair_public_key E (kps ! i)"
    and "distinct js" "list_all (\<lambda>i :: u32. unat i < length (validators d)) js"
  shows "\<And>i. i \<in> set js \<Longrightarrow> get_validator d (keypair_public_key E (kps ! unat i)) = Some (snd (validators d ! unat i)) \<and>
      v_share_index (snd (validators d ! unat i)) = i"
    and "mset (hm_collect (List.map_filter (\<lambda>v. case get_domain_point A d (v_share_index v) of
       Ok x \<Rightarrow> Some (v_share_index v, x) | _ \<Rightarrow> None) (map (\<lambda>i. snd (validators d ! unat i)) js))) =
     mset (map (\<lambda>i. (i, domain_points A d ! unat i)) js)"
proof -
  have in_range: "unat i < length (validators d)" if "i \<in> set js" for i using assms(5) that by (auto simp: list_all_iff)
  show v: "get_validator d (keypair_public_key E (kps ! unat i)) = Some (snd (validators d ! unat i)) \<and>
      v_share_index (snd (validators d ! unat i)) = i" if "i \<in> set js" for i
    using get_validator_nth[OF assms(1,2) in_range[OF that] assms(3)] dkg_wf_nth(2)[OF wf in_range[OF that]]
    by (simp add: of_nat_unat_u32)
  let ?e = "\<lambda>i. (i, domain_points A d ! unat i)"
  have "List.map_filter (\<lambda>v. case get_domain_point A d (v_share_index v) of
       Ok x \<Rightarrow> Some (v_share_index v, x) | _ \<Rightarrow> None) (map (\<lambda>i. snd (validators d ! unat i)) js) = map ?e js"
    using v in_range by (auto simp: map_filter_def get_domain_point_eq o_def)
  moreover have "distinct (map fst (map ?e js))" using assms(4) by (simp add: o_def)
  then have "set (hm_collect (map ?e js)) = set (map ?e js)" "distinct (map ?e js)" "distinct (hm_collect (map ?e js))"
    using hash_map.collect_set[of "map ?e js"] hash_map.collect_distinct[of "map ?e js"] unfolding distinct_map
    by blast+
  then have "mset (hm_collect (map ?e js)) = mset (map ?e js)" using set_eq_iff_mset_eq_distinct by blast
  ultimately show "mset (hm_collect (List.map_filter (\<lambda>v. case get_domain_point A d (v_share_index v) of
       Ok x \<Rightarrow> Some (v_share_index v, x) | _ \<Rightarrow> None) (map (\<lambda>i. snd (validators d ! unat i)) js))) = mset (map ?e js)"
    by simp
qed

lemma drawn_round:
  assumes "shares p = dealt_shares E A d cs" "length cs \<le> length sel" "mset sel \<subseteq># mset kps"
    and "distinct kps" "length kps = length (validators d)"
    and "\<And>i. i < length (validators d) \<Longrightarrow> v_public_key (snd (validators d ! i)) = keypair_public_key E (kps ! i)"
    and "\<forall>m. mset (hash_order m) = mset m" "ct_header C ct = Ok h" "header_check C E h aad = Ok True"
  obtains vs ss where
    "try_map (\<lambda>kp. expect (get_validator d (keypair_public_key E kp)) :: _ result) sel = Ok vs"
    "try_map (\<lambda>kp. and_then (expect (get_validator d (keypair_public_key E kp))) (\<lambda>v.
        and_then (unwrap (ct_header C ct)) (\<lambda>header.
        unwrap (create_decryption_share_precomputed C E p header aad kp (v_share_index v)
          (hash_order (hm_collect (List.map_filter (\<lambda>v. case get_domain_point A d (v_share_index v) of
            Ok x \<Rightarrow> Some (v_share_index v, x) | _ \<Rightarrow> None) vs)))))) :: _ result) sel = Ok ss"
    "share_combine_precomputed ss = SharedSecret (pair E (hdr_commitment h) (g2_mul E (g2_generator E) (peval cs 0)))"
proof -
  obtain js :: "u32 list" where js: "sel = map (\<lambda>i. kps ! unat i) js" "distinct js"
      "list_all (\<lambda>i. unat i < length (validators d)) js"
    by (rule drawn_keypairs[OF assms(4,5,3)])
  note found = drawn_lookups[OF assms(4-6) js(2,3)]
  let ?vs = "map (\<lambda>i. snd (validators d ! unat i)) js"
  let ?m = "hash_order (hm_collect (List.map_filter (\<lambda>v. case get_domain_point A d (v_share_index v) of
    Ok x \<Rightarrow> Some (v_share_index v, x) | _ \<Rightarrow> None) ?vs))"
  have m: "mset ?m = mset (map (\<lambda>i. (i, domain_points A d ! unat i)) js)" using found(2) assms(7) by simp
  have len: "length cs \<le> length js" using assms(2) js(1) by simp
  obtain ss where ss: "try_map (\<lambda>i. create_decryption_share_precomputed C E p h aad (kps ! unat i) i ?m) js = Ok ss"
    "share_combine_precomputed ss = SharedSecret (pair E (hdr_commitment h) (g2_mul E (g2_generator E) (peval cs 0)))"
    by (rule drawn_shares_combine[OF assms(1) len assms(4-6) js(2,3) m assms(9)])
  show ?thesis
  proof (rule that[OF _ _ ss(2)])
    show "try_map (\<lambda>kp. expect (get_validator d (keypair_public_key E kp)) :: _ result) sel = Ok ?vs"
      unfolding js(1) try_map_map by (rule try_map_Ok_map) (simp add: found(1))
    show "try_map (\<lambda>kp. and_then (expect (get_validator d (keypair_public_key E kp))) (\<lambda>v.
        and_then (unwrap (ct_header C ct)) (\<lambda>header.
        unwrap (create_decryption_share_precomputed C E p header aad kp (v_share_index v) ?m))) :: _ result) sel = Ok ss"
      unfolding js(1) try_map_map using ss(1) by (rule try_map_mono) (simp add: found(1) assms(8))
  qed
qed

text \<open>Honest messages aggregate, and unless the polynomials cancel the aggregate verifies.\<close>

lemma honest_messages_aggregate:
  assumes "unat (security_threshold (params d)) \<le> length (dom_elements A (domain d))"
    and "list_all (honest_message E A d) ms" "ms \<noteq> []"
  obtains cs agg where "length cs = unat (security_threshold (params d))"
    "from_transcripts (map snd ms) = Ok agg" "aggregate_pvss agg = dealt E A d cs"
    "agg_public_key agg = DkgPublicKey (g1_mul E (g1_generator E) (peval cs 0))"
    "hd (coeffs (aggregate_pvss agg)) \<noteq> 0 \<Longrightarrow> last (coeffs (aggregate_pvss agg)) \<noteq> 0 \<Longrightarrow>
      verify_aggregation E A (aggregate_pvss agg) d (map snd ms) = Ok True"
proof -
  define P where "P = (\<lambda>ds :: 'f list. length ds = unat (security_threshold (params d)) \<and> hd ds \<noteq> 0 \<and> last ds \<noteq> 0)"
  have "\<exists>dss. map snd ms = map (dealt E A d) dss \<and> list_all P dss"
    using assms(2)
  proof (induction ms)
    case (Cons m ms)
    then obtain dss where "map snd ms = map (dealt E A d) dss" "list_all P dss" by auto
    moreover obtain ds where "snd m = dealt E A d ds" "P ds"
      using Cons.prems unfolding honest_message_def P_def by auto
    ultimately show ?case by (intro exI[of _ "ds # dss"]) simp
  qed simp
  then obtain cs css where ms: "map snd ms = map (dealt E A d) (cs # css)" "list_all P (cs # css)"
    using assms(3) by (cases ms) auto
  then have len: "list_all (\<lambda>ds. length ds = length cs) css" by (auto simp: list_all_iff P_def)
  let ?q = "sum_polys cs css"
  have lq: "length ?q = unat (security_threshold (params d))" using ms(2) len by (simp add: P_def)
  then have ne: "?q \<noteq> []" using threshold_pos by auto
  let ?agg = "\<lparr> aggregate_pvss = dealt E A d ?q, agg_public_key = DkgPublicKey (g1_mul E (g1_generator E) (peval ?q 0)) \<rparr>"
  have "coeffs (dealt E A d ?q) = g1_mul E (g1_generator E) (peval ?q 0) # tl (coeffs (dealt E A d ?q))"
    using ne by (cases ?q) (simp_all add: peval_zero_point)
  then have "from_transcripts (map snd ms) = Ok ?agg"
    unfolding from_transcripts_Ok ms(1) using aggregate_dealt[OF len] by auto
  moreover have "verify_aggregation E A (dealt E A d ?q) d (map snd ms) = Ok True"
    if "hd (coeffs (dealt E A d ?q)) \<noteq> 0" "last (coeffs (dealt E A d ?q)) \<noteq> 0"
    unfolding ms(1) using that ne ms(2)
    by (intro honest_aggregate(2)[OF assms(1)]) (auto simp: P_def hd_map last_map)
  ultimately show ?thesis using that[OF lq, of ?agg] by simp
qed

end

text \<open>The one way in which honest dealers fail, with negligible probability: their constant or their
  leading terms add up to zero.\<close>

definition terms_do_not_cancel ::
  "(('g2, 'd) dkg \<times> 'f keypair list \<times> ('g1::ab_group_add, 'g2::ab_group_add) validator_message list) result \<Rightarrow> bool" where
  "terms_do_not_cancel fixture \<longleftrightarrow> (case fixture of
     Ok (_, _, ms) \<Rightarrow> (case from_transcripts (map snd ms) of
       Ok agg \<Rightarrow> hd (coeffs (aggregate_pvss agg)) \<noteq> 0 \<and> last (coeffs (aggregate_pvss agg)) \<noteq> 0 | _ \<Rightarrow> True)
   | _ \<Rightarrow> True)"

lemma dealt_ritual_Ok:
  assumes "pairing_laws E" "domain_laws (g1_mul E) A" "rand_laws R" "\<forall>r. fst (scalar_rand R r) \<noteq> 0"
    and "hex_laws hex_decode" "\<forall>xs r. mset (fst (shuffle xs r)) = mset xs"
    and "0 < t" "t \<le> n" "0 < k" "k \<le> n" "dom_new A (unat n) = Some dm"
    and "terms_do_not_cancel (setup_dealt_dkg_with_n_transcript_dealt E A R hex_decode test_rng shuffle t n n k)"
  obtains d ts agg cs where
    "dealt_ritual E A n (setup_dealt_dkg_with_n_transcript_dealt E A R hex_decode test_rng shuffle t n n k) =
      Ok (d, gen_keypairs R test_rng n, ts, agg)"
    "session E A d" "security_threshold (params d) = t" "length (validators d) = unat n"
    "\<And>i. i < length (validators d) \<Longrightarrow>
      v_public_key (snd (validators d ! i)) = keypair_public_key E (gen_keypairs R test_rng n ! i)"
    "from_transcripts ts = Ok agg" "verify_aggregation E A (aggregate_pvss agg) d ts = Ok True"
    "length cs = unat t" "aggregate_pvss agg = dealt E A d cs" "peval cs 0 \<noteq> 0"
    "agg_public_key agg = DkgPublicKey (g1_mul E (g1_generator E) (peval cs 0))"
proof -
  let ?fix = "setup_dealt_dkg_with_n_transcript_dealt E A R hex_decode test_rng shuffle t n n k"
  let ?kps = "gen_keypairs R test_rng n"
  have n: "0 < n" using assms(7,8) by simp
  obtain d ms where ok: "?fix = Ok (d, ?kps, ms)" and wf: "dkg_wf A d"
    and d: "security_threshold (params d) = t" "domain d = dm" "length (validators d) = unat n"
      "\<forall>i<unat n. v_public_key (snd (validators d ! i)) = keypair_public_key E (?kps ! i)"
    and ms: "length ms = unat k" "list_all (honest_message E A d) ms"
    using dealt_fixture[OF assms(1-8) n assms(10,11)] by blast
  have S: "session E A d" by (intro session.intro session_axioms.intro assms(1,2) wf)
  have "unat n \<le> length (dom_elements A dm)" by (rule domain_laws.dom_size[OF assms(2,11)])
  then have t: "unat (security_threshold (params d)) \<le> length (dom_elements A (domain d))"
    using assms(8) d(1,2) by (simp add: word_le_nat_alt)
  have "0 < unat k" using assms(9) by (simp add: unat_gt_0 word_gt_0)
  then have "ms \<noteq> []" using ms(1) by auto
  with S t ms(2) show ?thesis
  proof (rule session.honest_messages_aggregate)
    fix cs agg assume cs: "length cs = unat (security_threshold (params d))"
      and agg: "from_transcripts (map snd ms) = Ok agg" "aggregate_pvss agg = dealt E A d cs"
        "agg_public_key agg = DkgPublicKey (g1_mul E (g1_generator E) (peval cs 0))"
      and verifies: "hd (coeffs (aggregate_pvss agg)) \<noteq> 0 \<Longrightarrow> last (coeffs (aggregate_pvss agg)) \<noteq> 0 \<Longrightarrow>
        verify_aggregation E A (aggregate_pvss agg) d (map snd ms) = Ok True"
    have nz: "hd (coeffs (aggregate_pvss agg)) \<noteq> 0" "last (coeffs (aggregate_pvss agg)) \<noteq> 0"
      using assms(12) by (simp_all add: terms_do_not_cancel_def ok agg(1))
    have "cs \<noteq> []" using cs session.threshold_pos[OF S] by auto
    have act: "scalar_action (g1_mul E)" using assms(1) by (simp add: pairing_laws_def cyclic_action_def)
    have "peval cs 0 \<noteq> 0"
      using nz(1) \<open>cs \<noteq> []\<close> scalar_action.mul_zero[OF act] by (cases cs) (auto simp: agg(2) peval_zero_point)
    moreover have "dealt_ritual E A n ?fix = Ok (d, ?kps, map snd ms, agg)"
      using ms(1) assms(10) verifies[OF nz] agg(1)
      by (simp add: dealt_ritual_def ok word_le_nat_alt)
    ultimately show ?thesis using that[of d "map snd ms" agg cs] S d cs agg verifies[OF nz] by simp
  qed
qed

definition slot_share_nonzero ::
  "(('g2, 'd) dkg \<times> 'f keypair list \<times> ('g1, 'g2::zero) pvss list \<times> ('g1, 'g2) aggregated_transcript) result \<Rightarrow> u32 \<Rightarrow> bool" where
  "slot_share_nonzero ritual slot \<longleftrightarrow> (case ritual of
     Ok (_, _, _, agg) \<Rightarrow> shares (aggregate_pvss agg) ! unat slot \<noteq> 0 | _ \<Rightarrow> True)"

text \<open>Every scenario on \<open>t\<close> dealers starts in this way: the message is encrypted, and the secret that
  opens it is shared.\<close>

lemma shared_secret_Ok:
  assumes "pairing_laws E" "domain_laws (g1_mul E) A" "rand_laws R" "\<forall>r. fst (scalar_rand R r) \<noteq> 0"
    and "hex_laws hex_decode" "\<forall>xs r. mset (fst (shuffle xs r)) = mset xs"
    and "crypto_laws C" "\<forall>key nonce. chacha_encrypt C key nonce msg aad \<noteq> None" "\<forall>m. htp_bls12381_g2 (curve_lib C) m \<noteq> Ok 0"
    and "0 < t" "t \<le> n" "dom_new A (unat n) = Some dm" "distinct (gen_keypairs R test_rng n)"
    and "terms_do_not_cancel (setup_dealt_dkg_with_n_transcript_dealt E A R hex_decode test_rng shuffle t n n t)"
  obtains d ts agg cs ct h where
    "dealt_ritual E A n (setup_dealt_dkg_with_n_transcript_dealt E A R hex_decode test_rng shuffle t n n t) =
      Ok (d, gen_keypairs R test_rng n, ts, agg)"
    "session E A d" "security_threshold (params d) = t" "length (validators d) = unat n"
    "\<And>i. i < length (validators d) \<Longrightarrow>
      v_public_key (snd (validators d ! i)) = keypair_public_key E (gen_keypairs R test_rng n ! i)"
    "length (gen_keypairs R test_rng n) = length (validators d)"
    "length cs = unat t" "length cs \<le> length (validators d)" "aggregate_pvss agg = dealt E A d cs"
    "agg_public_key agg = DkgPublicKey (g1_mul E (g1_generator E) (peval cs 0))"
    "encrypt C E R msg aad (agg_public_key agg) test_rng = (Ok ct, snd (scalar_rand R test_rng))"
    "ct_header C ct = Ok h" "header_check C E h aad = Ok True"
    "decrypt_with_shared_secret C E ct aad
      (SharedSecret (pair E (hdr_commitment h) (g2_mul E (g2_generator E) (peval cs 0)))) = Ok msg"
    "create_shared_secret_simple_tdec C E A d aad h (gen_keypairs R test_rng n) ts =
      Ok (agg, map (slot_share E A d cs (hdr_commitment h) (gen_keypairs R test_rng n)) [0..<length cs], SharedSecret (pair E (hdr_commitment h) (g2_mul E (g2_generator E) (peval cs 0))))"
  using assms(1-6,10,11,10-12,14)
proof (rule dealt_ritual_Ok)
  fix d ts agg cs
  let ?kps = "gen_keypairs R test_rng n"
  assume ritual: "dealt_ritual E A n (setup_dealt_dkg_with_n_transcript_dealt E A R hex_decode test_rng shuffle t n n t) =
      Ok (d, ?kps, ts, agg)"
    and S: "session E A d" and d: "security_threshold (params d) = t" "length (validators d) = unat n"
    and keys: "\<And>i. i < length (validators d) \<Longrightarrow> v_public_key (snd (validators d ! i)) = keypair_public_key E (?kps ! i)"
    and agg: "from_transcripts ts = Ok agg" "verify_aggregation E A (aggregate_pvss agg) d ts = Ok True"
    and cs: "length cs = unat t" "aggregate_pvss agg = dealt E A d cs" "peval cs 0 \<noteq> 0"
    and pk: "agg_public_key agg = DkgPublicKey (g1_mul E (g1_generator E) (peval cs 0))"
  have shares: "shares (aggregate_pvss agg) = dealt_shares E A d cs" by (simp add: cs(2))
  have scheme: "tdec_scheme C E" by (rule tdec_scheme.intro[OF assms(7,1)])
  obtain ct rng' h where ct: "encrypt C E R msg aad (agg_public_key agg) test_rng = (Ok ct, rng')" "ct_header C ct = Ok h"
      and h: "header_check C E h aad = Ok True"
      and opens: "decrypt_with_shared_secret C E ct aad
        (SharedSecret (pair E (hdr_commitment h) (g2_mul E (g2_generator E) (peval cs 0)))) = Ok msg"
    by (rule tdec_scheme.encrypted_round[OF scheme pk cs(3) assms(4,8,9)])
  have sizes: "length cs = unat (security_threshold (params d))" "length cs \<le> length (validators d)"
      "length ?kps = length (validators d)"
    using cs(1) d assms(11) by (simp_all add: word_le_nat_alt gen_keypairs_def)
  note old = session.create_shared_secret_Ok[OF S agg shares sizes(1,2) assms(13) sizes(3) keys h]
  from that[OF ritual S d keys sizes(3) cs(1) sizes(2) cs(2) pk ct(1)[unfolded encrypt_rng[OF ct(1)]] ct(2) h opens old]
  show ?thesis .
qed

section \<open>The scenarios of \<open>lib.rs\<close>\<close>

text \<open>
  The simple scenario from key generation to plaintext, for all parameters.  For every threshold
  \<open>0 < t \<le> n\<close>, every message and every associated data, when the validators' keypairs are distinct
  and the dealers' terms do not cancel, the whole run succeeds: contexts are set up, \<open>t\<close> dealers deal,
  the shuffled transcripts aggregate and verify, the message is encrypted to the aggregate's key,
  the first \<open>t\<close> validators are found under their keys and create their shares, and what the
  combined secret decrypts is the message.
\<close>

lemma simple_tdec_scenario_succeeds:
  assumes "pairing_laws E" "domain_laws (g1_mul E) A" "rand_laws R" "\<forall>r. fst (scalar_rand R r) \<noteq> 0"
    and "hex_laws hex_decode" "\<forall>xs r. mset (fst (shuffle xs r)) = mset xs"
    and "crypto_laws C" "\<forall>key nonce. chacha_encrypt C key nonce msg aad \<noteq> None" "\<forall>m. htp_bls12381_g2 (curve_lib C) m \<noteq> Ok 0"
    and "0 < t" "t \<le> n" "dom_new A (unat n) = Some dm" "distinct (gen_keypairs R test_rng n)"
    and "terms_do_not_cancel (setup_dealt_dkg_with_n_validators E A R hex_decode test_rng shuffle t n n)"
  shows "test_dkg_simple_tdec C E A R hex_decode test_rng shuffle msg aad n t = Ok ()"
  using assms(1-13) assms(14)[unfolded setup_dealt_dkg_with_n_validators_def]
  by (rule shared_secret_Ok) (simp add: test_dkg_simple_tdec_def setup_dealt_dkg_with_n_validators_def)

lemma sample_dealers:
  "dom_new A17 (unat (4 :: u32)) = Some (domain sample_dkg)" "distinct (gen_keypairs R17 0 4)"
  "terms_do_not_cancel (setup_dealt_dkg_with_n_validators E17 A17 R17 hex_pairs 0 (\<lambda>xs r. (rev xs, r)) 3 4 4)"
  by code_simp+

lemma sample_domain: "domain_laws (g1_mul E17) A17"
  using a17.domain_laws_axioms by (simp add: dlog_pairing_def)

lemma sample_generator: "\<forall>r. fst (scalar_rand R17 r) \<noteq> 0"
  by (simp add: R17_def next17_nonzero)

lemma sample_primitives:
  "\<forall>key nonce. chacha_encrypt C17 key nonce msg aad \<noteq> None" "\<forall>m. htp_bls12381_g2 (curve_lib C17) m \<noteq> Ok 0"
  by (simp_all add: C17_def htp_M17_nonzero)

text \<open>
  The precomputed scenario from key generation to plaintext, for all parameters: when all \<open>n\<close>
  validators deal and \<open>t\<close> of them are drawn at random, the map of their domain points, iterated in any
  order, lets each of them create its share, and the product of the shares, in any order, opens the
  ciphertext.
\<close>

lemma precomputed_scenario_succeeds:
  assumes "pairing_laws E" "domain_laws (g1_mul E) A" "rand_laws R" "\<forall>r. fst (scalar_rand R r) \<noteq> 0"
    and "hex_laws hex_decode" "\<forall>xs r. mset (fst (shuffle xs r)) = mset xs"
    and "crypto_laws C" "\<forall>key nonce. chacha_encrypt C key nonce msg aad \<noteq> None" "\<forall>m. htp_bls12381_g2 (curve_lib C) m \<noteq> Ok 0"
    and "0 < t" "t \<le> n" "dom_new A (unat n) = Some dm" "distinct (gen_keypairs R test_rng n)"
    and "terms_do_not_cancel (setup_dealt_dkg_with_n_transcript_dealt E A R hex_decode test_rng shuffle t n n n)"
    and "\<forall>xs k r. mset (fst (choose_multiple xs k r)) \<subseteq># mset xs \<and> length (fst (choose_multiple xs k r)) = min k (length xs)"
    and "\<forall>m. mset (hash_order m) = mset m" "\<forall>xs r. mset (fst (shuffle_shares xs r)) = mset xs"
  shows "test_dkg_simple_tdec_precomputed C E A R hex_decode test_rng shuffle choose_multiple hash_order
    shuffle_shares msg aad n t = Ok ()"
proof -
  have n: "0 < n" using assms(10,11) by simp
  show ?thesis
    using assms(1-6,10,11) n order.refl assms(12,14)
  proof (rule dealt_ritual_Ok)
    fix d ts agg cs
    let ?kps = "gen_keypairs R test_rng n"
    assume ritual: "dealt_ritual E A n (setup_dealt_dkg_with_n_transcript_dealt E A R hex_decode test_rng shuffle t n n n) =
        Ok (d, ?kps, ts, agg)"
      and S: "session E A d" and d: "length (validators d) = unat n"
      and keys: "\<And>i. i < length (validators d) \<Longrightarrow> v_public_key (snd (validators d ! i)) = keypair_public_key E (?kps ! i)"
      and cs: "length cs = unat t" "aggregate_pvss agg = dealt E A d cs" "peval cs 0 \<noteq> 0"
      and pk: "agg_public_key agg = DkgPublicKey (g1_mul E (g1_generator E) (peval cs 0))"
    have shares: "shares (aggregate_pvss agg) = dealt_shares E A d cs" by (simp add: cs(2))
    have scheme: "tdec_scheme C E" by (rule tdec_scheme.intro[OF assms(7,1)])
    obtain ct rng' h where ct: "encrypt C E R msg aad (agg_public_key agg) test_rng = (Ok ct, rng')" "ct_header C ct = Ok h"
        and h: "header_check C E h aad = Ok True"
        and opens: "decrypt_with_shared_secret C E ct aad
          (SharedSecret (pair E (hdr_commitment h) (g2_mul E (g2_generator E) (peval cs 0)))) = Ok msg"
      by (rule tdec_scheme.encrypted_round[OF scheme pk cs(3) assms(4,8,9)])
    have lk: "length ?kps = length (validators d)" by (simp add: d gen_keypairs_def)
    obtain sel rng2 where sel: "choose_multiple ?kps (unat t) rng' = (sel, rng2)" by fastforce
    have sub: "mset sel \<subseteq># mset ?kps" "length cs \<le> length sel"
      using assms(15)[rule_format, of ?kps "unat t" rng'] assms(11) sel cs(1)
      by (simp_all add: gen_keypairs_def word_le_nat_alt)
    from S shares sub(2,1) assms(13) lk keys assms(16) ct(2) h show ?thesis
    proof (rule session.drawn_round)
      fix vs ss
      assume "share_combine_precomputed ss = SharedSecret (pair E (hdr_commitment h) (g2_mul E (g2_generator E) (peval cs 0)))"
        and run: "try_map (\<lambda>kp. expect (get_validator d (keypair_public_key E kp)) :: _ result) sel = Ok vs"
          "try_map (\<lambda>kp. and_then (expect (get_validator d (keypair_public_key E kp))) (\<lambda>v.
            and_then (unwrap (ct_header C ct)) (\<lambda>header.
            unwrap (create_decryption_share_precomputed C E (aggregate_pvss agg) header aad kp (v_share_index v)
              (hash_order (hm_collect (List.map_filter (\<lambda>v. case get_domain_point A d (v_share_index v) of
                Ok x \<Rightarrow> Some (v_share_index v, x) | _ \<Rightarrow> None) vs)))))) :: _ result) sel = Ok ss"
      then have "decrypt_with_shared_secret C E ct aad (share_combine_precomputed (fst (shuffle_shares ss rng2))) = Ok msg"
        using share_combine_precomputed_perm[of "fst (shuffle_shares ss rng2)" ss] assms(17) opens by simp
      with run show ?thesis
        using ritual ct(1) sel by (simp add: test_dkg_simple_tdec_precomputed_def Let_def)
    qed
  qed
qed

end
