(* ===== verification/Shortfall.thy ===== *)
theory Shortfall
  imports Lifecycle
begin

text \<open>
  What a list of decryption shares combines to (\<open>combine_shares_simple\<close> of \<open>ferveo/src/api.rs\<close>) depends
  only on the points and on how many there are: from \<open>t\<close> shares on it is the secret, and with one share
  fewer it never is.
\<close>

section \<open>Interpolation with too few points\<close>

text \<open>The order of the shares is irrelevant, and a part of them are shares.\<close>

lemma evaluations_perm: "evaluations E U cs ss \<Longrightarrow> mset ss' = mset ss \<Longrightarrow> evaluations E U cs ss'"
  using distinct_map_perm[of ss' ss api_domain_point] list_all_perm[of ss' ss] by (simp add: evaluations_def)

lemma evaluations_take: "evaluations E U cs ss \<Longrightarrow> evaluations E U cs (take n ss)"
  by (auto simp: evaluations_def list_all_iff take_map[symmetric] dest: in_set_takeD)

lemma truncated_interpolant:
  fixes cs :: "'f::field list"
  assumes "distinct xs" "0 \<notin> set xs" "length cs = Suc (length xs)" "last cs \<noteq> 0"
  obtains q where "length q = length xs" "\<forall>x\<in>set xs. peval q x = peval cs x" "peval q 0 \<noteq> peval cs 0"
proof -
  obtain q where q: "length q = length xs" "\<forall>x\<in>set xs. peval q x = peval cs x"
    using interpolating_polynomial[OF assms(1) order.refl, of "peval cs"] by blast
  have "peval q 0 \<noteq> peval cs 0"
  proof
    assume "peval q 0 = peval cs 0"
    then have agree: "\<forall>x\<in>set (0 # xs). peval (q @ [0]) x = peval cs x"
      using q(2) peval_pad[of q 1] by simp
    have "q @ [0] = cs"
      by (rule peval_unique[where xs = "0 # xs"]) (use assms q(1) agree in auto)
    with assms(4) show False by auto
  qed
  with q that show ?thesis by blast
qed

context pairing_laws begin

lemma combine_one_short:
  assumes "evaluations E U cs ss" "length cs = Suc (length ss)" "last cs \<noteq> 0"
    and "0 \<notin> set (map api_domain_point ss)" "U \<noteq> 0"
  shows "combine_shares_simple E ss \<noteq> SharedSecret (pair E U (g2_mul E (g2_generator E) (peval cs 0)))"
proof -
  let ?xs = "map api_domain_point ss"
  have "distinct ?xs" "length cs = Suc (length ?xs)" using assms(1,2) by (simp_all add: evaluations_def)
  then obtain q where q: "length q = length ?xs" "\<forall>x\<in>set ?xs. peval q x = peval cs x" "peval q 0 \<noteq> peval cs 0"
    using truncated_interpolant[OF _ assms(4) _ assms(3)] by blast
  have "evaluations E U q ss" using assms(1) q(2) by (auto simp: evaluations_def list_all_iff)
  then have "combine_shares_simple E ss = SharedSecret (pair E U (g2_mul E (g2_generator E) (peval q 0)))"
    by (rule combine_evaluations) (use q(1) in simp)
  then show ?thesis using q(3) assms(5) by (simp add: pair_left_cancel)
qed

end

context session begin

lemma points_nonzero:
  "list_all (\<lambda>i :: u32. unat i < length (validators d)) is \<Longrightarrow> 0 \<notin> set (map (\<lambda>i. domain_points A d ! unat i) is)"
  using domain_points_nonzero by (force simp: list_all_iff)

end

section \<open>Properties\<close>

text \<open>
  C7: one share short of the threshold, decryption fails for certain.  Against a fully verified
  aggregate, \<open>t - 1\<close> distinct validators create their shares of a valid ciphertext without error, but
  what these combine to is never the secret \<open>e(U, [s]H)\<close> of the aggregate's public key \<open>[s]G\<close>,
  whatever the polynomial and whichever the validators: full verification requires a nonzero
  leading coefficient, so the polynomial through \<open>t - 1\<close> of its values misses its constant term.
\<close>

theorem one_share_short_never_combines:
  assumes "session E A d"
    and "unat (security_threshold (params d)) \<le> length (dom_elements A (domain d))"
    and "verify_full E A (aggregate_pvss agg) d = Ok True"
    and "distinct is" "list_all (\<lambda>i :: u32. unat i < length (validators d)) is"
    and "Suc (length is) = unat (security_threshold (params d))"
    and "list_all (\<lambda>i. keypair_public_key E (kps i) = v_public_key (snd (validators d ! unat i))) is"
    and "header_check C E h aad = Ok True"
  shows "\<exists>ss s. try_map (\<lambda>i. api_create_decryption_share_simple C E A agg
      (d\<lparr> me := snd (validators d ! unat i) \<rparr>) h aad (kps i)) is = Ok ss \<and>
    hd (coeffs (aggregate_pvss agg)) = g1_mul E (g1_generator E) s \<and>
    combine_shares_simple E ss \<noteq> SharedSecret (pair E (hdr_commitment h) (g2_mul E (g2_generator E) s))"
  using assms(1-3)
proof (rule session.verified_polynomial)
  fix cs assume cs: "length cs = unat (security_threshold (params d))" "last cs \<noteq> 0"
    and shares: "take (length (validators d)) (shares (aggregate_pvss agg)) = dealt_shares E A d cs"
    and pk: "hd (coeffs (aggregate_pvss agg)) = g1_mul E (g1_generator E) (peval cs 0)"
  obtain ss where ss: "try_map (\<lambda>i. api_create_decryption_share_simple C E A agg
      (d\<lparr> me := snd (validators d ! unat i) \<rparr>) h aad (kps i)) is = Ok ss"
    "evaluations E (hdr_commitment h) cs ss" "map api_domain_point ss = map (\<lambda>i. domain_points A d ! unat i) is"
    by (rule session.created_evaluations[OF assms(1) shares assms(4,5,7,8)])
  have "length cs = Suc (length ss)" using cs(1) assms(6) arg_cong[OF ss(3), of length] by simp
  moreover have "0 \<notin> set (map api_domain_point ss)"
    unfolding ss(3) by (rule session.points_nonzero[OF assms(1,5)])
  moreover have "hdr_commitment h \<noteq> 0"
    using assms(8) by (auto simp: header_check_def outcome_simps split: if_splits)
  moreover have "pairing_laws E" using assms(1) by (simp add: session_def)
  ultimately show ?thesis using pairing_laws.combine_one_short[OF _ ss(2) _ cs(2)] ss(1) pk by blast
qed

theorem one_share_short_never_combines_witness:
  "\<exists>ss s. try_map (\<lambda>i. api_create_decryption_share_simple C17 E17 A17 sample_agg
      (sample_dkg\<lparr> me := snd (validators sample_dkg ! unat i) \<rparr>) sample_header [1] (sample_keys i)) [3, 0] = Ok ss \<and>
    hd (coeffs (aggregate_pvss sample_agg)) = g1_mul E17 (g1_generator E17) s \<and>
    combine_shares_simple E17 ss \<noteq> SharedSecret (pair E17 (hdr_commitment sample_header) (g2_mul E17 (g2_generator E17) s))"
proof (rule one_share_short_never_combines[OF session17.session_axioms sample_threshold])
  show "verify_full E17 A17 (aggregate_pvss sample_agg) sample_dkg = Ok True"
    using sample_pvss_verifies by (simp add: sample_agg_def)
  show "header_check C17 E17 sample_header [1] = Ok True" by (rule sample_header_ok)
qed code_simp+

end
