(* ===== verification/Api_Scenarios.thy ===== *)
theory Api_Scenarios
  imports Scenarios Shortfall
begin

text \<open>
  The end-to-end scenarios of \<open>ferveo/src/api.rs\<close> (module \<open>test_ferveo_api\<close>): every validator deals,
  aggregates and verifies through the interface, with a context of its own.  A scenario returns
  \<open>Ok ()\<close> when every \<open>unwrap\<close> and every assertion in it succeeds.  \<open>seed_rng\<close> is the generator
  \<open>StdRng::seed_from_u64(0)\<close> of a scenario, \<open>thread_rng\<close> the one \<open>encrypt\<close> takes.
\<close>

section \<open>Operations\<close>

text \<open>Each sender constructs its context and deals; the generator is threaded through.\<close>

fun deal_messages ::
  "('f, 'g1, 'g2, 'gt) pairing \<Rightarrow> ('f, 'g1, 'd) ark_poly \<Rightarrow> ('f, 'r) ark_rand \<Rightarrow>
    ('g2 validator \<Rightarrow> ('g2, 'd) dkg result) \<Rightarrow> 'g2 validator list \<Rightarrow> 'r \<Rightarrow>
    ('g1, 'g2) validator_message list result \<times> 'r"
where
  "deal_messages E A R new_dkg [] rng = (Ok [], rng)"
| "deal_messages E A R new_dkg (sender # senders) rng =
     (case unwrap (new_dkg sender) of
        Ok dkg \<Rightarrow>
          (let (res, rng1) = generate_transcript E A R dkg rng in
           case unwrap res of
             Ok transcript \<Rightarrow>
               (let (rest, rng2) = deal_messages E A R new_dkg senders rng1
                in (and_then rest (\<lambda>ms. Ok ((sender, transcript) # ms)), rng2))
           | Err e \<Rightarrow> (Err e, rng1) | Panic \<Rightarrow> (Panic, rng1))
      | Err e \<Rightarrow> (Err e, rng) | Panic \<Rightarrow> (Panic, rng))"

definition make_test_inputs ::
  "('f, 'g1, 'g2::zero, 'gt) pairing \<Rightarrow> ('f, 'g1, 'd) ark_poly \<Rightarrow> ('f, 'r) ark_rand \<Rightarrow>
    (bytes \<Rightarrow> bytes option) \<Rightarrow> 'r \<Rightarrow>
    (('g1, 'g2) validator_message list \<Rightarrow> 'r \<Rightarrow> ('g1, 'g2) validator_message list \<times> 'r) \<Rightarrow>
    'r \<Rightarrow> u32 \<Rightarrow> u32 \<Rightarrow> u32 \<Rightarrow> u32 \<Rightarrow>
    (('g1, 'g2) validator_message list \<times> 'g2 validator list \<times> 'f keypair list) result \<times> 'r"
where
  "make_test_inputs E A R hex_decode test_rng shuffle rng ritual threshold num_shares validators_num =
     (let validator_keypairs = gen_keypairs R test_rng validators_num in
      case gen_validators E hex_decode validator_keypairs of
        Ok vs \<Rightarrow>
          (let (res, rng1) = deal_messages E A R (\<lambda>sender. api_dkg_new A ritual num_shares threshold vs sender)
             vs rng in
           case res of
             Ok messages \<Rightarrow> (let (shuffled, rng2) = shuffle messages rng1 in (Ok (shuffled, vs, validator_keypairs), rng2))
           | Err e \<Rightarrow> (Err e, rng1) | Panic \<Rightarrow> (Panic, rng1))
      | Err e \<Rightarrow> (Err e, rng) | Panic \<Rightarrow> (Panic, rng))"

text \<open>What each validator does: construct its context, aggregate the messages and verify the aggregate.\<close>

definition server_aggregate ::
  "('f::field, 'g1::ab_group_add, 'g2::ab_group_add, 'gt) pairing \<Rightarrow> ('f, 'g1, 'd) ark_poly \<Rightarrow> u32 \<Rightarrow> u32 \<Rightarrow>
    'g2 validator list \<Rightarrow> ('g1, 'g2) validator_message list \<Rightarrow> 'g2 validator \<Rightarrow>
    (('g2, 'd) dkg \<times> ('g1, 'g2) aggregated_transcript) result"
where
  "server_aggregate E A n t vs messages validator =
     and_then (unwrap (api_dkg_new A fixture_tau n t vs validator)) (\<lambda>dkg.
     and_then (unwrap (api_aggregate_transcripts E dkg messages)) (\<lambda>agg.
     and_then (unwrap (api_aggregated_transcript_verify E A agg n t messages)) (\<lambda>valid.
     and_then (rust_assert valid) (\<lambda>_. Ok (dkg, agg)))))"

text \<open>\<open>assert!(result.is_err())\<close>\<close>

fun assert_err :: "('e, 'a) outcome \<Rightarrow> ('d, unit) outcome" where
  "assert_err (Ok _) = Panic"
| "assert_err (Err _) = Ok ()"
| "assert_err Panic = Panic"

definition test_server_api_tdec_simple ::
  "('g1, 'g2, 'gt, 'fp, 'fp2, 'ecp2) crypto \<Rightarrow> ('f::field, 'g1::ab_group_add, 'g2::ab_group_add, 'gt::comm_monoid_mult) pairing \<Rightarrow>
    ('f, 'g1, 'd) ark_poly \<Rightarrow> ('f, 'r) ark_rand \<Rightarrow> (bytes \<Rightarrow> bytes option) \<Rightarrow> 'r \<Rightarrow>
    (('g1, 'g2) validator_message list \<Rightarrow> 'r \<Rightarrow> ('g1, 'g2) validator_message list \<times> 'r) \<Rightarrow>
    (('f, 'g1, 'gt) api_decryption_share_simple list \<Rightarrow> 'r \<Rightarrow> ('f, 'g1, 'gt) api_decryption_share_simple list \<times> 'r) \<Rightarrow>
    'r \<Rightarrow> 'r \<Rightarrow> bytes \<Rightarrow> bytes \<Rightarrow> u32 \<Rightarrow> u32 \<Rightarrow> unit result"
where
  "test_server_api_tdec_simple C E A R hex_decode test_rng shuffle shuffle_shares seed_rng thread_rng msg aad n t =
     (let (res, rng) = make_test_inputs E A R hex_decode test_rng shuffle seed_rng fixture_tau t n n in
      and_then res (\<lambda>(all_messages, vs, kps).
      and_then (slice_range all_messages 0 (unat n)) (\<lambda>messages.
      and_then (unwrap (api_aggregated_transcript_new messages)) (\<lambda>local_aggregate.
      and_then (unwrap (api_aggregated_transcript_verify E A local_aggregate n t messages)) (\<lambda>valid.
      and_then (rust_assert valid) (\<lambda>_.
      and_then (unwrap (api_encrypt C E R thread_rng msg aad (api_public_key local_aggregate))) (\<lambda>ciphertext.
      and_then (try_map (\<lambda>(v, kp).
        and_then (server_aggregate E A n t vs messages v) (\<lambda>(dkg, agg).
        and_then (unwrap (api_ciphertext_header C ciphertext)) (\<lambda>header.
        unwrap (api_create_decryption_share_simple C E A agg dkg header aad kp))))
        (take (unat t) (zip vs kps))) (\<lambda>decryption_shares.
      and_then (slice_range (fst (shuffle_shares decryption_shares rng)) 0 (unat t)) (\<lambda>decryption_shares.
      and_then (unwrap (api_decrypt_with_shared_secret C E ciphertext aad
        (combine_shares_simple E decryption_shares))) (\<lambda>plaintext.
      and_then (rust_assert (plaintext = msg)) (\<lambda>_.
      and_then (slice_range decryption_shares 0 (unat t - 1)) (\<lambda>decryption_shares.
      assert_err (api_decrypt_with_shared_secret C E ciphertext aad
        (combine_shares_simple E decryption_shares))))))))))))))"

section \<open>Addresses are distinct\<close>

lemma dec_value_zeros: "dec_value (replicate k (CHR ''0'') @ s) = dec_value s"
  by (induction k) (simp_all add: dec_value_def)

lemma of_char_u8_inj: "inj (of_char :: char \<Rightarrow> u8)"
proof (rule injI)
  fix c c' :: char assume "of_char c = (of_char c' :: u8)"
  then have "unat (of_nat (of_char c) :: u8) = unat (of_nat (of_char c') :: u8)" by (simp only: of_nat_of_char)
  then have "of_char c mod 256 = (of_char c' mod 256 :: nat)" by (simp only: unat_of_nat take_bit_eq_mod) simp
  then have "of_char c = (of_char c' :: nat)" by simp
  then show "c = c'" by simp
qed

lemma gen_address_eq:
  assumes "gen_address hex_decode i = Ok a"
  shows "\<exists>k. a = EthereumAddress (map of_char (''0x'' @ replicate k (CHR ''0'') @ dec_digits i))"
  using assms by (auto simp: gen_address_def ethereum_address_from_str_def Let_def outcome_simps split: if_splits)

lemma gen_address_inj:
  assumes "gen_address hex_decode i = Ok a" "gen_address hex_decode j = Ok a"
  shows "i = j"
proof -
  obtain k l where "map of_char (''0x'' @ replicate k (CHR ''0'') @ dec_digits i) =
      (map of_char (''0x'' @ replicate l (CHR ''0'') @ dec_digits j) :: bytes)"
    using gen_address_eq[OF assms(1)] gen_address_eq[OF assms(2)] by auto
  then have "replicate k (CHR ''0'') @ dec_digits i = replicate l (CHR ''0'') @ dec_digits j"
    unfolding inj_map_eq_map[OF of_char_u8_inj] by simp
  from arg_cong[OF this, of dec_value] show ?thesis by (simp add: dec_value_zeros dec_value_digits)
qed

lemma gen_validators_addresses:
  assumes "gen_validators E hex_decode kps = Ok vs"
  shows "distinct (map v_address vs)"
proof -
  have ok: "length vs = length kps" "\<And>i. i < length kps \<Longrightarrow> gen_address hex_decode i = (Ok (v_address (vs ! i)) :: _ result)"
    using assms by (simp_all add: gen_validators_def try_map_Ok list_all2_conv_all_nth nth_enumerate_eq outcome_simps)
      (metis validator.select_convs(1))
  then show ?thesis unfolding distinct_conv_nth using gen_address_inj by (metis length_map nth_map)
qed

section \<open>The inputs\<close>

lemma deal_messages_Ok:
  assumes "rand_laws R" "\<And>r. fst (scalar_rand R r) \<noteq> 0"
    and "\<And>v. v \<in> set vs \<Longrightarrow> new_dkg v = Ok (d\<lparr> me := v \<rparr>) \<and> session E A (d\<lparr> me := v \<rparr>) \<and> v \<in> snd ` set (validators d)"
  shows "\<exists>ms rng'. deal_messages E A R new_dkg vs rng = (Ok ms, rng') \<and> map fst ms = vs \<and>
    list_all (honest_message E A d) ms"
  using assms(3)
proof (induction vs arbitrary: rng)
  case (Cons v vs)
  have v: "new_dkg v = Ok (d\<lparr> me := v \<rparr>)" "session E A (d\<lparr> me := v \<rparr>)" "v \<in> snd ` set (validators d)"
    using Cons.prems[of v] by auto
  obtain cs rng1 where cs: "generate_transcript E A R (d\<lparr> me := v \<rparr>) rng = (Ok (dealt E A (d\<lparr> me := v \<rparr>) cs), rng1)"
      "length cs = unat (security_threshold (params (d\<lparr> me := v \<rparr>)))" "hd cs \<noteq> 0" "last cs \<noteq> 0"
    using session.generated_transcript_dealt[OF v(2) assms(1,2)] by blast
  obtain ms rng2 where "deal_messages E A R new_dkg vs rng1 = (Ok ms, rng2)" "map fst ms = vs"
      "list_all (honest_message E A d) ms"
    using Cons.IH[of rng1] Cons.prems by auto
  moreover have "honest_message E A d (v, dealt E A (d\<lparr> me := v \<rparr>) cs)"
    using cs(2-4) v(3) by (auto simp: honest_message_def dealt_me)
  ultimately show ?case using v(1) cs(1) by simp
qed simp

lemma test_inputs:
  assumes "pairing_laws E" "domain_laws (g1_mul E) A" "rand_laws R" "\<forall>r. fst (scalar_rand R r) \<noteq> 0"
    and "hex_laws hex_decode" "\<forall>xs r. mset (fst (shuffle xs r)) = mset xs"
    and "0 < t" "t \<le> n" "dom_new A (unat n) = Some dm"
  obtains d ms vs rng' where
    "make_test_inputs E A R hex_decode test_rng shuffle rng fixture_tau t n n =
      (Ok (ms, vs, gen_keypairs R test_rng n), rng')"
    "session E A d" "security_threshold (params d) = t" "domain d = dm" "map snd (validators d) = vs" "length vs = unat n"
    "\<And>v. v \<in> set vs \<Longrightarrow> api_dkg_new A fixture_tau n t vs v = Ok (d\<lparr> me := v \<rparr>)"
    "\<And>i. i < unat n \<Longrightarrow> v_public_key (vs ! i) = keypair_public_key E (gen_keypairs R test_rng n ! i)"
    "mset (map fst ms) = mset vs" "list_all (honest_message E A d) ms" "distinct (map v_address vs)"
proof -
  have n: "0 < n" using assms(7,8) by simp
  then have n': "0 < unat n" by (simp add: unat_gt_0 word_gt_0)
  let ?kps = "gen_keypairs R test_rng n"
  show ?thesis
  proof (rule fixture_contexts[OF assms(1,4,5,7,8) n assms(9), where test_rng = test_rng])
    fix vs d
    assume vs: "gen_validators E hex_decode ?kps = Ok vs" "length vs = unat n"
      and new: "\<And>i. i < unat n \<Longrightarrow> dkg_new A vs \<lparr> tau = fixture_tau, security_threshold = t, shares_num = n \<rparr> (vs ! i) =
        Ok (d\<lparr> me := vs ! i \<rparr>)"
      and wf: "\<And>i. i < unat n \<Longrightarrow> dkg_wf A (d\<lparr> me := vs ! i \<rparr>)"
      and d: "d\<lparr> me := vs ! 0 \<rparr> = d" "security_threshold (params d) = t" "domain d = dm" "map snd (validators d) = vs"
      and keys: "\<And>i. i < unat n \<Longrightarrow> v_public_key (vs ! i) = keypair_public_key E (?kps ! i)"
    have ps: "dkg_params_new fixture_tau t n = Ok \<lparr> tau = fixture_tau, security_threshold = t, shares_num = n \<rparr>"
      using assms(7,8) by (simp add: dkg_params_new_def Let_def outcome_simps)
    have api: "api_dkg_new A fixture_tau n t vs v = Ok (d\<lparr> me := v \<rparr>)" and S: "session E A (d\<lparr> me := v \<rparr>)"
      if v: "v \<in> set vs" for v
    proof -
      obtain i where i: "i < unat n" "v = vs ! i" using v vs(2) by (auto simp: in_set_conv_nth)
      show "api_dkg_new A fixture_tau n t vs v = Ok (d\<lparr> me := v \<rparr>)" using new[OF i(1)] i(2) ps by (simp add: api_dkg_new_def)
      show "session E A (d\<lparr> me := v \<rparr>)"
        unfolding i(2) by (intro session.intro session_axioms.intro assms(1,2) wf[OF i(1)])
    qed
    have vset: "snd ` set (validators d) = set vs" by (simp flip: d(4))
    obtain ms rng1 where ms: "deal_messages E A R (\<lambda>sender. api_dkg_new A fixture_tau n t vs sender) vs rng = (Ok ms, rng1)"
        "map fst ms = vs" "list_all (honest_message E A d) ms"
      using deal_messages_Ok[OF assms(3) assms(4)[rule_format], of vs "api_dkg_new A fixture_tau n t vs" d E A rng]
        api S vset by auto
    obtain out rng2 where out: "shuffle ms rng1 = (out, rng2)" by fastforce
    then have perm: "mset out = mset ms" using assms(6) by (metis fst_conv)
    have S0: "session E A d" using S[of "vs ! 0"] d(1) vs(2) n' by simp
    have "make_test_inputs E A R hex_decode test_rng shuffle rng fixture_tau t n n = (Ok (out, vs, ?kps), rng2)"
      using vs(1) ms(1) out by (simp add: make_test_inputs_def)
    moreover have "mset (map fst out) = mset vs" using arg_cong[OF perm, of "image_mset fst"] ms(2) by (metis mset_map)
    moreover have "list_all (honest_message E A d) out" using ms(3) mset_eq_setD[OF perm] by (simp add: list_all_iff)
    ultimately show ?thesis
      using that S0 d(2-4) vs(2) api keys gen_validators_addresses[OF vs(1)] by blast
  qed
qed

section \<open>Aggregation through the interface\<close>

text \<open>What honest dealers achieve with overwhelming probability: no two transcripts are equal, and
  neither their constant nor their leading terms add up to zero.\<close>

definition generic_inputs ::
  "(('g1::ab_group_add, 'g2::ab_group_add) validator_message list \<times> 'g2 validator list \<times> 'f keypair list) result \<Rightarrow> bool" where
  "generic_inputs inputs \<longleftrightarrow> (case inputs of
     Ok (ms, _, _) \<Rightarrow> distinct (map snd ms) \<and> (case from_transcripts (map snd ms) of
       Ok agg \<Rightarrow> hd (coeffs (aggregate_pvss agg)) \<noteq> 0 \<and> last (coeffs (aggregate_pvss agg)) \<noteq> 0 | _ \<Rightarrow> True)
   | _ \<Rightarrow> True)"

lemma do_verify_full_perm:
  assumes "0 < unat t" "mset vs = mset vs'"
  shows "do_verify_full E A Fs Ys vs dm t = Ok True \<longleftrightarrow> do_verify_full E A Fs Ys vs' dm t = Ok True"
proof -
  have "vs = [] \<longleftrightarrow> vs' = []" using assms(2) by auto
  then show ?thesis
    unfolding do_verify_full_True[OF assms(1)] verify_validator_shares_True
    by (simp only: distinct_map_perm[OF assms(2)] mset_eq_setD[OF assms(2)])
qed

context session begin

lemma honest_verify_transcripts:
  assumes "unat (security_threshold (params d)) \<le> length (dom_elements A (domain d))"
    and "list_all (honest_message E A d) ms" "distinct (map (v_address \<circ> fst) ms)" "distinct (map snd ms)"
    and "length ms \<le> length (validators d)"
  shows "verify_transcripts E (d\<lparr> me := m \<rparr>) ms = Ok ()"
proof -
  have "map_of (validators d) (v_share_index v) \<noteq> None \<and> verify_optimistic E p" if "(v, p) \<in> set ms" for v p
  proof -
    have vp: "honest_message E A d (v, p)" using that assms(2) by (auto simp: list_all_iff)
    then obtain i where i: "i < length (validators d)" "v = snd (validators d ! i)"
      by (auto simp: honest_message_def in_set_conv_nth)
    have "map_of (validators d) (v_share_index v) \<noteq> None"
      using dkg_wf_lookup[OF wf, of "v_share_index v"] dkg_wf_nth(3)[OF wf i(1)] i by simp
    then show ?thesis using honest_message_verifies[OF session_axioms assms(1) vp] by blast
  qed
  then show ?thesis using assms(3-5) by (auto simp: verify_transcripts_Ok list_all_iff)
qed

lemma honest_aggregate_verifies:
  assumes "unat (security_threshold (params d)) \<le> length (dom_elements A (domain d))"
    and "list_all (honest_message E A d) ms" "mset (map fst ms) = mset (map snd (validators d))"
    and "from_transcripts (map snd ms) = Ok agg" "verify_aggregation E A (aggregate_pvss agg) d (map snd ms) = Ok True"
    and "aggregate_pvss agg = dealt E A d cs" "peval cs 0 \<noteq> 0"
    and "agg_public_key agg = DkgPublicKey (g1_mul E (g1_generator E) (peval cs 0))"
    and "length (validators d) = unat n"
  shows "api_aggregated_transcript_verify E A agg n (security_threshold (params d)) ms = Ok True"
proof -
  note ok = assms(5)[unfolded verify_aggregation_Ok]
  have "length cs = unat (security_threshold (params d))"
    using ok assms(6) by (simp add: verify_full_def do_verify_full_True[OF threshold_pos])
  then have hd: "hd (coeffs (aggregate_pvss agg)) = g1_mul E (g1_generator E) (peval cs 0)"
    using threshold_pos by (cases cs) (auto simp: assms(6) peval_zero_point)
  then have "verify_optimistic E (aggregate_pvss agg)"
    unfolding verify_optimistic_iff using assms(6,7) \<open>length cs = _\<close> threshold_pos
    by (intro exI[of _ "peval cs 0"] exI[of _ "tl (coeffs (aggregate_pvss agg))"]) (cases cs; simp)
  moreover have "length ms = unat n" using mset_eq_length[OF assms(3)] assms(9) by simp
  then have "ms \<noteq> []" "of_nat (length ms) \<le> n"
    using assms(9) validators_nonempty by (auto simp: of_nat_unat_u32)
  moreover have "dom_new A (unat n) = Some (domain d)" using dkg_wf_domain[OF wf] assms(9) by simp
  moreover have "do_verify_full E A (coeffs (aggregate_pvss agg)) (shares (aggregate_pvss agg)) (map fst ms) (domain d)
      (security_threshold (params d)) = Ok True"
    unfolding do_verify_full_perm[OF threshold_pos assms(3)] using ok by (simp only: verify_full_def)
  ultimately show ?thesis
    unfolding api_verify_Ok[OF threshold_pos] using ok assms(8) hd by simp
qed

end

lemma api_ritual_Ok:
  assumes "pairing_laws E" "domain_laws (g1_mul E) A" "rand_laws R" "\<forall>r. fst (scalar_rand R r) \<noteq> 0"
    and "hex_laws hex_decode" "\<forall>xs r. mset (fst (shuffle xs r)) = mset xs"
    and "0 < t" "t \<le> n" "dom_new A (unat n) = Some dm"
    and "generic_inputs (fst (make_test_inputs E A R hex_decode test_rng shuffle rng fixture_tau t n n))"
  obtains d ms vs rng' agg cs where
    "make_test_inputs E A R hex_decode test_rng shuffle rng fixture_tau t n n =
      (Ok (ms, vs, gen_keypairs R test_rng n), rng')"
    "session E A d" "security_threshold (params d) = t" "map snd (validators d) = vs" "length vs = unat n" "length ms = unat n"
    "\<And>i. i < unat n \<Longrightarrow> v_public_key (vs ! i) = keypair_public_key E (gen_keypairs R test_rng n ! i)"
    "from_transcripts (map snd ms) = Ok agg" "verify_aggregation E A (aggregate_pvss agg) d (map snd ms) = Ok True"
    "api_aggregated_transcript_verify E A agg n t ms = Ok True"
    "\<And>v. v \<in> set vs \<Longrightarrow> server_aggregate E A n t vs ms v = Ok (d\<lparr> me := v \<rparr>, agg)"
    "\<And>v. v \<in> set vs \<Longrightarrow> api_dkg_new A fixture_tau n t vs v = Ok (d\<lparr> me := v \<rparr>)"
    "unat t \<le> length (dom_elements A (domain d))"
    "length cs = unat t" "aggregate_pvss agg = dealt E A d cs" "peval cs 0 \<noteq> 0" "last cs \<noteq> 0"
    "agg_public_key agg = DkgPublicKey (g1_mul E (g1_generator E) (peval cs 0))"
    "list_all (honest_message E A d) ms" "mset (map fst ms) = mset vs"
    "distinct (map (v_address \<circ> fst) ms)" "distinct (map snd ms)"
  using assms(1-9)
proof (rule test_inputs)
  fix d ms vs rng'
  let ?kps = "gen_keypairs R test_rng n"
  assume inputs: "make_test_inputs E A R hex_decode test_rng shuffle rng fixture_tau t n n = (Ok (ms, vs, ?kps), rng')"
    and S: "session E A d" and d: "security_threshold (params d) = t" "domain d = dm" "map snd (validators d) = vs"
      "length vs = unat n"
    and new: "\<And>v. v \<in> set vs \<Longrightarrow> api_dkg_new A fixture_tau n t vs v = Ok (d\<lparr> me := v \<rparr>)"
    and keys: "\<And>i. i < unat n \<Longrightarrow> v_public_key (vs ! i) = keypair_public_key E (?kps ! i)"
    and ms: "mset (map fst ms) = mset vs" "list_all (honest_message E A d) ms" and addr: "distinct (map v_address vs)"
  have tdm: "unat t \<le> length (dom_elements A (domain d))"
    using domain_laws.dom_size[OF assms(2,9)] assms(8) d(2) by (simp add: word_le_nat_alt)
  have lenv: "length (validators d) = unat n" using arg_cong[OF d(3), of length] d(4) by simp
  have lenm: "length ms = unat n" using mset_eq_length[OF ms(1)] d(4) by simp
  then have ne: "ms \<noteq> []" using lenv session.validators_nonempty[OF S] by auto
  from S tdm[folded d(1)] ms(2) ne show ?thesis
  proof (rule session.honest_messages_aggregate)
    fix cs agg assume cs: "length cs = unat (security_threshold (params d))"
      and agg: "from_transcripts (map snd ms) = Ok agg" "aggregate_pvss agg = dealt E A d cs"
        "agg_public_key agg = DkgPublicKey (g1_mul E (g1_generator E) (peval cs 0))"
      and verifies: "hd (coeffs (aggregate_pvss agg)) \<noteq> 0 \<Longrightarrow> last (coeffs (aggregate_pvss agg)) \<noteq> 0 \<Longrightarrow>
        verify_aggregation E A (aggregate_pvss agg) d (map snd ms) = Ok True"
    have nz: "hd (coeffs (aggregate_pvss agg)) \<noteq> 0" "last (coeffs (aggregate_pvss agg)) \<noteq> 0" "distinct (map snd ms)"
      using assms(10) by (simp_all add: generic_inputs_def inputs agg(1))
    have "cs \<noteq> []" using cs session.threshold_pos[OF S] by auto
    moreover have act: "scalar_action (g1_mul E)" using assms(1) by (simp add: pairing_laws_def cyclic_action_def)
    ultimately have cs0: "peval cs 0 \<noteq> 0" "last cs \<noteq> 0"
      using nz(1,2) scalar_action.mul_zero[OF act] by (cases cs; auto simp: agg(2) peval_zero_point last_map)+
    have verified: "api_aggregated_transcript_verify E A agg n t ms = Ok True"
      using session.honest_aggregate_verifies[OF S tdm[folded d(1)] ms(2) _ agg(1) verifies[OF nz(1,2)] agg(2) cs0(1) agg(3) lenv]
        ms(1) d(1,3) by simp
    have addrs: "distinct (map (v_address \<circ> fst) ms)"
      using addr distinct_map_perm[OF ms(1), of v_address] by simp
    have "server_aggregate E A n t vs ms v = Ok (d\<lparr> me := v \<rparr>, agg)" if "v \<in> set vs" for v
      using new[OF that] verified agg(1) session.honest_verify_transcripts[OF S tdm[folded d(1)] ms(2) addrs nz(3)] lenm lenv
      by (simp add: server_aggregate_def api_aggregate_transcripts_def aggregate_transcripts_def)
    with that[OF inputs S] d(1,3,4) lenm keys agg verifies[OF nz(1,2)] verified new tdm cs cs0 ms addrs nz(3)
    show ?thesis by simp
  qed
qed

section \<open>Shares and ciphertexts\<close>

context session begin

text \<open>The first \<open>k\<close> validators create their shares, each with what it aggregated itself.\<close>

lemma server_shares:
  assumes "shares (aggregate_pvss agg) = dealt_shares E A d cs" "map snd (validators d) = vs" "length kps = length vs" "k \<le> length vs"
    and "\<And>i. i < length vs \<Longrightarrow> v_public_key (vs ! i) = keypair_public_key E (kps ! i)"
    and "\<And>v. v \<in> set vs \<Longrightarrow> f v = Ok (d\<lparr> me := v \<rparr>, agg)"
    and "header_check C E h aad = Ok True"
  obtains ss where "try_map (\<lambda>(v, kp). and_then (f v) (\<lambda>(dkg, agg).
      unwrap (api_create_decryption_share_simple C E A agg dkg h aad kp)) :: _ result) (take k (zip vs kps)) = Ok ss"
    "evaluations E (hdr_commitment h) cs ss" "length ss = k" "0 \<notin> set (map api_domain_point ss)"
proof -
  define js :: "u32 list" where "js = map of_nat [0..<k]"
  have vs: "length (validators d) = length vs" "\<And>i. i < length vs \<Longrightarrow> snd (validators d ! i) = vs ! i"
    using assms(2) by auto
  have in_range: "unat i < length (validators d)" if "i \<in> set js" for i
    using that assms(4) vs(1) dkg_wf_nth(2,3)[OF wf] by (auto simp: js_def)
  have "unat (of_nat i :: u32) = i" if "i < k" for i using dkg_wf_nth(2,3)[OF wf, of i] that assms(4) vs(1) by simp
  then have zip: "take k (zip vs kps) = map (\<lambda>i. (snd (validators d ! unat i), kps ! unat i)) js"
    using assms(3,4) vs(2) by (intro nth_equalityI) (auto simp: js_def)
  have dist: "distinct js"
    unfolding js_def distinct_map using dkg_wf_nth(2,3)[OF wf] assms(4) vs(1)
    by (auto intro!: inj_on_inverseI[where g = unat])
  have all: "list_all (\<lambda>i. unat i < length (validators d)) js" using in_range by (auto simp: list_all_iff)
  have shares: "take (length (validators d)) (shares (aggregate_pvss agg)) = dealt_shares E A d cs" by (simp add: assms(1))
  have keys: "list_all (\<lambda>i. keypair_public_key E (kps ! unat i) = v_public_key (snd (validators d ! unat i))) js"
    unfolding list_all_iff using in_range assms(5) vs by simp
  obtain ss where ss: "try_map (\<lambda>i. api_create_decryption_share_simple C E A agg
      (d\<lparr> me := snd (validators d ! unat i) \<rparr>) h aad (kps ! unat i)) js = Ok ss"
    "evaluations E (hdr_commitment h) cs ss" "map api_domain_point ss = map (\<lambda>i. domain_points A d ! unat i) js"
    by (rule created_evaluations[OF shares dist all keys assms(7)])
  show ?thesis
  proof (rule that[OF _ ss(2)])
    show "try_map (\<lambda>(v, kp). and_then (f v) (\<lambda>(dkg, agg).
        unwrap (api_create_decryption_share_simple C E A agg dkg h aad kp)) :: _ result) (take k (zip vs kps)) = Ok ss"
      unfolding zip try_map_map using ss(1)
    proof (rule try_map_mono)
      fix i y assume i: "i \<in> set js" and y: "api_create_decryption_share_simple C E A agg
        (d\<lparr> me := snd (validators d ! unat i) \<rparr>) h aad (kps ! unat i) = Ok y"
      have "f (snd (validators d ! unat i)) = Ok (d\<lparr> me := snd (validators d ! unat i) \<rparr>, agg)"
        using in_range[OF i] vs by (intro assms(6)) simp
      with y show "(case (snd (validators d ! unat i), kps ! unat i) of (v, kp) \<Rightarrow> and_then (f v) (\<lambda>(dkg, agg).
        unwrap (api_create_decryption_share_simple C E A agg dkg h aad kp))) = Ok y" by simp
    qed
    show "length ss = k" using arg_cong[OF ss(3), of length] by (simp add: js_def)
    show "0 \<notin> set (map api_domain_point ss)" unfolding ss(3) by (rule points_nonzero[OF all])
  qed
qed

end

text \<open>The authenticity of the AEAD, idealised: a ciphertext made under the key of one shared secret is
  refused under the key of every other.\<close>

definition refuses_other_secrets :: "('g1, 'g2, 'gt, 'fp, 'fp2, 'ecp2) crypto \<Rightarrow> bytes \<Rightarrow> bytes \<Rightarrow> bool" where
  "refuses_other_secrets C msg aad \<longleftrightarrow> (\<forall>ss ss' key key' nonce c.
     shared_secret_to_chacha C ss = Ok key \<longrightarrow> shared_secret_to_chacha C ss' = Ok key' \<longrightarrow> ss \<noteq> ss' \<longrightarrow>
     chacha_encrypt C key nonce msg aad = Some c \<longrightarrow> chacha_decrypt C key' nonce c aad = None)"

context tdec_scheme begin

lemma encrypted_refuses:
  assumes "encrypt C E R msg aad (DkgPublicKey (g1_mul E (g1_generator E) s)) rng = (Ok ct, rng')"
    and "ct_header C ct = Ok h" "header_check C E h aad = Ok True" "refuses_other_secrets C msg aad"
    and "ss \<noteq> SharedSecret (pair E (hdr_commitment h) (g2_mul E (g2_generator E) s))"
  shows "\<exists>e. decrypt_with_shared_secret C E ct aad ss = Err e"
  using assms(1)
proof (rule encrypt_fields)
  fix r key nonce
  assume U: "ct_commitment ct = g1_mul E (g1_generator E) r"
    and nonce: "nonce_from_commitment C (ct_commitment ct) = Ok nonce"
    and key: "shared_secret_to_chacha C (SharedSecret (pair E
      (g1_mul E (dkg_pk_point (DkgPublicKey (g1_mul E (g1_generator E) s))) r) (g2_generator E))) = Ok key"
    and enc: "chacha_encrypt C key nonce msg aad = Some (ct_ciphertext ct)"
  have h: "hdr_commitment h = ct_commitment ct" using assms(2) by (auto simp: ct_header_def)
  have "pair E (ct_commitment ct) (g2_mul E (g2_generator E) s) =
      pair E (g1_mul E (g1_mul E (g1_generator E) s) r) (g2_generator E)"
    by (simp add: U g1.mul_commute[of _ s] flip: pair_shift)
  with assms(5) have ne: "SharedSecret (pair E (g1_mul E (g1_mul E (g1_generator E) s) r) (g2_generator E)) \<noteq> ss"
    by (auto simp: h)
  obtain key' where key': "shared_secret_to_chacha C ss = Ok key'" using chacha_key_Ok by blast
  have "chacha_decrypt C key' nonce (ct_ciphertext ct) aad = None"
    using assms(4)[unfolded refuses_other_secrets_def, rule_format, OF key key' _ enc] ne by simp
  then show ?thesis
    using nonce key' assms(2,3)
    by (simp add: decrypt_with_shared_secret_def decrypt_with_shared_secret_unchecked_def ciphertext_check_def)
qed

end

section \<open>Properties\<close>

text \<open>
  C4: the scenario of the interface from key generation to plaintext, for all parameters.  All \<open>n\<close>
  validators deal; each of the first \<open>t\<close> constructs its own context, aggregates the shuffled messages,
  verifies the aggregate and creates its share; the shares, shuffled, combine to the secret that
  decrypts the message; and with one share left out decryption is refused.
\<close>

theorem server_api_scenario_succeeds:
  assumes "pairing_laws E" "domain_laws (g1_mul E) A" "rand_laws R" "\<forall>r. fst (scalar_rand R r) \<noteq> 0"
    and "hex_laws hex_decode" "\<forall>xs r. mset (fst (shuffle xs r)) = mset xs" "\<forall>xs r. mset (fst (shuffle_shares xs r)) = mset xs"
    and "crypto_laws C" "\<forall>key nonce. chacha_encrypt C key nonce msg aad \<noteq> None" "\<forall>m. htp_bls12381_g2 (curve_lib C) m \<noteq> Ok 0"
    and "refuses_other_secrets C msg aad"
    and "0 < t" "t \<le> n" "dom_new A (unat n) = Some dm"
    and "generic_inputs (fst (make_test_inputs E A R hex_decode test_rng shuffle seed_rng fixture_tau t n n))"
  shows "test_server_api_tdec_simple C E A R hex_decode test_rng shuffle shuffle_shares seed_rng thread_rng msg aad n t = Ok ()"
  using assms(1-6,12-15)
proof (rule api_ritual_Ok)
  fix d ms vs rng' agg cs
  let ?kps = "gen_keypairs R test_rng n"
  assume inputs: "make_test_inputs E A R hex_decode test_rng shuffle seed_rng fixture_tau t n n = (Ok (ms, vs, ?kps), rng')"
    and S: "session E A d" and d: "map snd (validators d) = vs" "length vs = unat n" "length ms = unat n"
    and keys: "\<And>i. i < unat n \<Longrightarrow> v_public_key (vs ! i) = keypair_public_key E (?kps ! i)"
    and agg: "from_transcripts (map snd ms) = Ok agg" "api_aggregated_transcript_verify E A agg n t ms = Ok True"
      "\<And>v. v \<in> set vs \<Longrightarrow> server_aggregate E A n t vs ms v = Ok (d\<lparr> me := v \<rparr>, agg)"
    and cs: "length cs = unat t" "aggregate_pvss agg = dealt E A d cs" "peval cs 0 \<noteq> 0" "last cs \<noteq> 0"
    and pk: "agg_public_key agg = DkgPublicKey (g1_mul E (g1_generator E) (peval cs 0))"
  have scheme: "tdec_scheme C E" by (rule tdec_scheme.intro[OF assms(8,1)])
  obtain ct rng2 h where ct: "encrypt C E R msg aad (agg_public_key agg) thread_rng = (Ok ct, rng2)" "ct_header C ct = Ok h"
      and h: "header_check C E h aad = Ok True"
      and opens: "decrypt_with_shared_secret C E ct aad
        (SharedSecret (pair E (hdr_commitment h) (g2_mul E (g2_generator E) (peval cs 0)))) = Ok msg"
    by (rule tdec_scheme.encrypted_round[OF scheme pk cs(3) assms(4,9,10)])
  have t: "unat t \<le> length vs" "0 < unat t" using assms(12,13) d(2) by (simp_all add: word_le_nat_alt unat_gt_0 word_gt_0)
  have lk: "length ?kps = length vs" by (simp add: d(2) gen_keypairs_def)
  have shares: "shares (aggregate_pvss agg) = dealt_shares E A d cs" by (simp add: cs(2))
  obtain ss where ss: "try_map (\<lambda>(v, kp). and_then (server_aggregate E A n t vs ms v) (\<lambda>(dkg, agg).
      unwrap (api_create_decryption_share_simple C E A agg dkg h aad kp)) :: _ result) (take (unat t) (zip vs ?kps)) = Ok ss"
    "evaluations E (hdr_commitment h) cs ss" "length ss = unat t" "0 \<notin> set (map api_domain_point ss)"
    by (rule session.server_shares[OF S shares d(1) lk t(1) keys agg(3) h]) (use d(2) in auto)
  let ?ss = "fst (shuffle_shares ss rng')" and ?few = "take (unat t - 1) (fst (shuffle_shares ss rng'))"
  have perm: "mset ?ss = mset ss" using assms(7) by blast
  note ev = evaluations_perm[OF ss(2) perm]
  have len: "length ?ss = unat t" using mset_eq_length[OF perm] ss(3) by simp
  then have whole: "combine_shares_simple E ?ss =
      SharedSecret (pair E (hdr_commitment h) (g2_mul E (g2_generator E) (peval cs 0)))"
    using pairing_laws.combine_evaluations[OF assms(1) ev] cs(1) by simp
  have "hdr_commitment h \<noteq> 0" using h by (auto simp: header_check_def outcome_simps split: if_splits)
  moreover have "0 \<notin> set (map api_domain_point ?few)"
    using ss(4) mset_eq_setD[OF perm] by (auto dest: in_set_takeD)
  ultimately have "combine_shares_simple E ?few \<noteq>
      SharedSecret (pair E (hdr_commitment h) (g2_mul E (g2_generator E) (peval cs 0)))"
    using pairing_laws.combine_one_short[OF assms(1) evaluations_take[OF ev] _ cs(4)] cs(1) len t(2) by simp
  then obtain e where "decrypt_with_shared_secret C E ct aad (combine_shares_simple E ?few) = Err e"
    using tdec_scheme.encrypted_refuses[OF scheme ct(1)[unfolded pk] ct(2) h assms(11)] by blast
  then show ?thesis
    using inputs d agg(1,2) ct ss(1) whole opens len
    by (simp add: test_server_api_tdec_simple_def api_aggregated_transcript_new_def slice_range_def api_encrypt_def
        api_public_key_def api_ciphertext_header_def api_decrypt_with_shared_secret_def)
qed

lemma sample_refuses: "refuses_other_secrets C17 msg aad"
  unfolding refuses_other_secrets_def
proof (intro allI impI)
  fix ss ss' key key' nonce c
  assume keys: "shared_secret_to_chacha C17 ss = Ok key" "shared_secret_to_chacha C17 ss' = Ok key'"
    and ne: "ss \<noteq> ss'" and c: "chacha_encrypt C17 key nonce msg aad = Some c"
  let ?x = "f17_nat (exponent (secret_value ss))" and ?y = "f17_nat (exponent (secret_value ss'))"
  have hds: "hd key = of_nat ?x + 7" "hd key' = of_nat ?y + 7"
    using keys by (auto simp: shared_secret_to_chacha_def sha256_def C17_def codec17_gt_def codec17_def sha17_def)
  have "?x \<noteq> ?y"
  proof
    assume "?x = ?y"
    then have "exponent (secret_value ss) = exponent (secret_value ss')" by (metis f17_of_nat)
    then show False using ne by (simp add: shared_secret.expand expo.expand)
  qed
  moreover have "unat (of_nat ?x :: u8) = ?x" "unat (of_nat ?y :: u8) = ?y"
    using f17_nat_bound by (simp_all add: unat_of_nat take_bit_nat_eq_self less_trans[OF f17_nat_bound])
  ultimately have "hd key \<noteq> hd key'" using hds by auto
  then show "chacha_decrypt C17 key' nonce c aad = None"
    using c by (auto simp: C17_def aead17_tag_def)
qed

lemma sample_inputs:
  "generic_inputs (fst (make_test_inputs E17 A17 R17 hex_pairs 0 (\<lambda>xs r. (rev xs, r)) 7 fixture_tau 3 4 4))"
  by code_simp

theorem server_api_scenario_succeeds_witness:
  "test_server_api_tdec_simple C17 E17 A17 R17 hex_pairs 0 (\<lambda>xs r. (rev xs, r)) (\<lambda>xs r. (rev xs, r)) 7 2
    [10, 20] [1] 4 3 = Ok ()"
  by (intro server_api_scenario_succeeds[OF e17.pairing_laws_axioms sample_domain r17.rand_laws_axioms sample_generator
        hex.hex_laws_axioms _ _ c17.crypto_laws_axioms sample_primitives sample_refuses _ _ sample_dealers(1) sample_inputs])
    simp_all

end
