(* ===== verification/Refresh_Scenarios.thy ===== *)
theory Refresh_Scenarios
  imports Api_Scenarios
begin

text \<open>
  The refresh scenario of \<open>ferveo/src/api.rs\<close> (module \<open>test_ferveo_api\<close>): every participant prepares
  updates, every participant refreshes the aggregate on its own, and the shares they then create
  combine to the secret of before.  The iteration orders of the two \<open>HashMap\<close>s are parameters.
\<close>

section \<open>Operations\<close>

definition make_share_update_test_inputs ::
  "('g1, 'g2, 'gt, 'fp, 'fp2, 'ecp2) crypto \<Rightarrow> ('f::field, 'g1::ab_group_add, 'g2::ab_group_add, 'gt::comm_monoid_mult) pairing \<Rightarrow>
    ('f, 'g1, 'd) ark_poly \<Rightarrow> ('f, 'r) ark_rand \<Rightarrow> (bytes \<Rightarrow> bytes option) \<Rightarrow> 'r \<Rightarrow>
    (('g1, 'g2) validator_message list \<Rightarrow> 'r \<Rightarrow> ('g1, 'g2) validator_message list \<times> 'r) \<Rightarrow>
    'r \<Rightarrow> bytes \<Rightarrow> bytes \<Rightarrow> u32 \<Rightarrow> u32 \<Rightarrow> 'r \<Rightarrow> u32 \<Rightarrow>
    (('g1, 'g2) validator_message list \<times> 'g2 validator list \<times> 'f keypair list \<times> ('g2, 'd) dkg list \<times>
      ('g1, 'g2) ciphertext_header \<times> 'gt shared_secret) result \<times> 'r"
where
  "make_share_update_test_inputs C E A R hex_decode test_rng shuffle thread_rng msg aad n validators_num rng t =
     (let (res, rng1) = make_test_inputs E A R hex_decode test_rng shuffle rng fixture_tau t n validators_num in
      (and_then res (\<lambda>(messages, vs, kps).
       and_then (try_map (\<lambda>v. unwrap (api_dkg_new A fixture_tau n t vs v)) vs) (\<lambda>dkgs.
       and_then (slice_index dkgs 0) (\<lambda>dkg.
       and_then (unwrap (api_aggregate_transcripts E dkg messages)) (\<lambda>agg.
       and_then (unwrap (api_aggregated_transcript_verify E A agg validators_num t messages)) (\<lambda>valid.
       and_then (rust_assert valid) (\<lambda>_.
       and_then (unwrap (api_encrypt C E R thread_rng msg aad (api_public_key agg))) (\<lambda>ciphertext.
       and_then (unwrap (api_ciphertext_header C ciphertext)) (\<lambda>header.
       and_then (create_shared_secret_simple_tdec C E A dkg aad header kps (map snd messages))
         (\<lambda>(_, _, old_shared_secret).
       Ok (messages, vs, kps, dkgs, header, old_shared_secret)))))))))), rng1))"

text \<open>The two nested loops, over the pairs of a context and a validator in it.\<close>

fun update_loop ::
  "('f::field, 'g1, 'g2, 'gt) pairing \<Rightarrow> ('f, 'g1, 'd) ark_poly \<Rightarrow> ('f, 'r) ark_rand \<Rightarrow> 'f keypair list \<Rightarrow>
    (('g2, 'd) dkg \<times> 'g2 validator) list \<Rightarrow> (u32, ('g1, 'g2) update_transcript) hash_map \<Rightarrow>
    (u32, 'g2 public_key) hash_map \<Rightarrow> 'r \<Rightarrow>
    ((u32, ('g1, 'g2) update_transcript) hash_map \<times> (u32, 'g2 public_key) hash_map) result \<times> 'r"
where
  "update_loop E A R kps [] update_transcripts validator_map rng = (Ok (update_transcripts, validator_map), rng)"
| "update_loop E A R kps ((dkg, validator) # pairs) update_transcripts validator_map rng =
     (let (res, rng1) = api_generate_refresh_transcript E A R dkg rng; index = v_share_index validator in
      case unwrap res of
        Ok transcript \<Rightarrow>
          (case slice_get kps (unat index) of
             Some kp \<Rightarrow> update_loop E A R kps pairs (hm_insert index transcript update_transcripts)
               (hm_insert index (keypair_public_key E kp) validator_map) rng1
           | None \<Rightarrow> (Panic, rng1))
      | Err e \<Rightarrow> (Err e, rng1) | Panic \<Rightarrow> (Panic, rng1))"

definition test_dkg_api_simple_tdec_share_refresh ::
  "('g1, 'g2, 'gt, 'fp, 'fp2, 'ecp2) crypto \<Rightarrow> ('f::field, 'g1::ab_group_add, 'g2::ab_group_add, 'gt::comm_monoid_mult) pairing \<Rightarrow>
    ('f, 'g1, 'd) ark_poly \<Rightarrow> ('f, 'r) ark_rand \<Rightarrow> (bytes \<Rightarrow> bytes option) \<Rightarrow> 'r \<Rightarrow>
    (('g1, 'g2) validator_message list \<Rightarrow> 'r \<Rightarrow> ('g1, 'g2) validator_message list \<times> 'r) \<Rightarrow>
    (('f, 'g1, 'gt) api_decryption_share_simple list \<Rightarrow> 'r \<Rightarrow> ('f, 'g1, 'gt) api_decryption_share_simple list \<times> 'r) \<Rightarrow>
    ((u32, ('g1, 'g2) update_transcript) hash_map \<Rightarrow> (u32, ('g1, 'g2) update_transcript) hash_map) \<Rightarrow>
    ((u32, 'g2 public_key) hash_map \<Rightarrow> (u32, 'g2 public_key) hash_map) \<Rightarrow>
    'r \<Rightarrow> 'r \<Rightarrow> bytes \<Rightarrow> bytes \<Rightarrow> u32 \<Rightarrow> u32 \<Rightarrow> unit result"
where
  "test_dkg_api_simple_tdec_share_refresh C E A R hex_decode test_rng shuffle shuffle_shares order_updates order_keys
       seed_rng thread_rng msg aad n t =
     (let (res, rng1) = make_share_update_test_inputs C E A R hex_decode test_rng shuffle thread_rng msg aad n n seed_rng t in
      and_then res (\<lambda>(messages, _, kps, dkgs, header, old_shared_secret).
      let (loop, rng2) = update_loop E A R kps
        (concat (map (\<lambda>dkg. map (\<lambda>(_, v). (dkg, v)) (validators dkg)) dkgs)) [] [] rng1 in
      and_then loop (\<lambda>(update_transcripts, validator_map).
      and_then (try_map (\<lambda>validator_dkg.
        and_then (unwrap (api_aggregate_transcripts E validator_dkg messages)) (\<lambda>agg.
        and_then (unwrap (api_aggregated_transcript_verify E A agg n t messages)) (\<lambda>valid.
        and_then (rust_assert valid) (\<lambda>_.
        unwrap (api_refresh E A agg (order_updates update_transcripts) (order_keys validator_map)))))) dkgs)
        (\<lambda>refreshed_aggregates.
      and_then (rust_assert (length kps = length dkgs)) (\<lambda>_.
      and_then (try_map (\<lambda>(kp, validator_dkg).
        and_then (expect (slice_get refreshed_aggregates (unat (v_share_index (me validator_dkg))))) (\<lambda>agg.
        unwrap (api_create_decryption_share_simple C E A agg validator_dkg header aad kp)))
        (take (unat t) (zip kps dkgs))) (\<lambda>decryption_shares.
      and_then (slice_range (fst (shuffle_shares decryption_shares rng2)) 0 (unat t)) (\<lambda>decryption_shares.
      and_then (rust_assert (length decryption_shares = unat t)) (\<lambda>_.
      rust_assert (old_shared_secret = combine_shares_simple E decryption_shares)))))))))"

text \<open>The scenario of \<open>ferveo/src/lib.rs\<close>: one context generates all the updates.\<close>

definition test_dkg_simple_tdec_share_refreshing ::
  "('g1, 'g2, 'gt, 'fp, 'fp2, 'ecp2) crypto \<Rightarrow> ('f::field, 'g1::ab_group_add, 'g2::ab_group_add, 'gt::comm_monoid_mult) pairing \<Rightarrow>
    ('f, 'g1, 'd) ark_poly \<Rightarrow> ('f, 'r) ark_rand \<Rightarrow> (bytes \<Rightarrow> bytes option) \<Rightarrow> 'r \<Rightarrow>
    (('g1, 'g2) validator_message list \<Rightarrow> 'r \<Rightarrow> ('g1, 'g2) validator_message list \<times> 'r) \<Rightarrow>
    ((u32, ('g1, 'g2) update_transcript) hash_map \<Rightarrow> (u32, ('g1, 'g2) update_transcript) hash_map) \<Rightarrow>
    ((u32, 'g2 public_key) hash_map \<Rightarrow> (u32, 'g2 public_key) hash_map) \<Rightarrow>
    bytes \<Rightarrow> bytes \<Rightarrow> u32 \<Rightarrow> u32 \<Rightarrow> unit result"
where
  "test_dkg_simple_tdec_share_refreshing C E A R hex_decode test_rng shuffle order_updates order_keys msg aad n t =
     and_then (dealt_ritual E A n (setup_dealt_dkg_with E A R hex_decode test_rng shuffle t n)) (\<lambda>(dkg, kps, transcripts, agg).
     let (res, rng1) = encrypt C E R msg aad (agg_public_key agg) test_rng in
     and_then (unwrap res) (\<lambda>ciphertext.
     and_then (unwrap (ct_header C ciphertext)) (\<lambda>header.
     and_then (create_shared_secret_simple_tdec C E A dkg aad header kps transcripts) (\<lambda>(_, _, old_shared_secret).
     let (loop, rng2) = update_loop E A R kps (map (\<lambda>(_, v). (dkg, v)) (validators dkg)) [] [] rng1 in
     and_then loop (\<lambda>(update_transcripts, validator_map).
     and_then (unwrap (refresh E A (aggregate_pvss agg) (order_updates update_transcripts) (order_keys validator_map)))
       (\<lambda>new_aggregate.
     and_then (rust_assert (aggregate_pvss agg \<noteq> new_aggregate)) (\<lambda>_.
     and_then (try_map (\<lambda>kp.
       and_then (expect (get_validator dkg (keypair_public_key E kp))) (\<lambda>validator.
       unwrap (create_decryption_share_simple C E new_aggregate header aad kp (v_share_index validator))))
       (take (unat (security_threshold (params dkg))) kps)) (\<lambda>decryption_shares.
     and_then (slice_range (domain_points A dkg) 0 (unat t)) (\<lambda>points.
     and_then (slice_range decryption_shares 0 (unat t)) (\<lambda>decryption_shares.
     rust_assert (old_shared_secret = share_combine_simple E decryption_shares (prepare_combine_simple points))))))))))))"

section \<open>The loop\<close>

text \<open>The transcripts collected are generated ones, and the keys those of the validators met.\<close>

lemma hm_insert_all: "list_all P m \<Longrightarrow> P (k, v) \<Longrightarrow> list_all P (hm_insert k v m)"
  by (induction m) (auto simp: hm_insert_def)

context session begin

lemma update_loop_Ok:
  assumes "rand_laws R" "length kps = length (validators d)"
    and "\<And>i. i < length (validators d) \<Longrightarrow> v_public_key (snd (validators d ! i)) = keypair_public_key E (kps ! i)"
  shows "list_all (\<lambda>(dkg, v). (\<exists>m. dkg = d\<lparr> me := m \<rparr>) \<and> v \<in> snd ` set (validators d)) pairs \<Longrightarrow>
    list_all (\<lambda>(_, ut). \<exists>m rng rng'. api_generate_refresh_transcript E A R (d\<lparr> me := m \<rparr>) rng = (Ok ut, rng')) uts \<Longrightarrow>
    distinct (map fst keys) \<Longrightarrow>
    \<exists>uts' keys' rng'. update_loop E A R kps pairs uts keys rng = (Ok (uts', keys'), rng') \<and>
      list_all (\<lambda>(_, ut). \<exists>m rng rng'. api_generate_refresh_transcript E A R (d\<lparr> me := m \<rparr>) rng = (Ok ut, rng')) uts' \<and>
      distinct (map fst keys') \<and>
      map_of keys' = map_of keys ++ map_of (rev (map (\<lambda>(_, v). (v_share_index v, v_public_key v)) pairs))"
proof (induction pairs arbitrary: uts keys rng)
  case (Cons p pairs)
  obtain dkg v where p: "p = (dkg, v)" by fastforce
  obtain m where m: "dkg = d\<lparr> me := m \<rparr>" using Cons.prems(1) p by auto
  obtain i where i: "i < length (validators d)" "v = snd (validators d ! i)"
    using Cons.prems(1) p by (auto simp: in_set_conv_nth)
  have ix: "unat (v_share_index v) = i" using dkg_wf_nth(3)[OF wf i(1)] i(2) by simp
  have "\<exists>ut rng1. api_generate_refresh_transcript E A R (d\<lparr> me := m \<rparr>) rng = (Ok ut, rng1)"
    using assms(1) by (rule refresh_transcript_generated[where rng = rng])
      (simp add: api_generate_refresh_transcript_def generate_refresh_transcript_me)
  then obtain ut rng1 where ut: "api_generate_refresh_transcript E A R (d\<lparr> me := m \<rparr>) rng = (Ok ut, rng1)" by blast
  let ?uts = "hm_insert (v_share_index v) ut uts" and ?keys = "hm_insert (v_share_index v) (v_public_key v) keys"
  have "list_all (\<lambda>(_, ut). \<exists>m rng rng'. api_generate_refresh_transcript E A R (d\<lparr> me := m \<rparr>) rng = (Ok ut, rng')) ?uts"
    by (rule hm_insert_all[OF Cons.prems(2)]) (use ut in auto)
  from Cons.IH[where rng = rng1 and keys = ?keys, OF _ this hash_map.ins_invar[OF Cons.prems(3)]] Cons.prems(1)
  obtain uts' keys' rng' where "update_loop E A R kps pairs ?uts ?keys rng1 = (Ok (uts', keys'), rng')"
      "list_all (\<lambda>(_, ut). \<exists>m rng rng'. api_generate_refresh_transcript E A R (d\<lparr> me := m \<rparr>) rng = (Ok ut, rng')) uts'"
      "distinct (map fst keys')"
      "map_of keys' = map_of ?keys ++ map_of (rev (map (\<lambda>(_, v). (v_share_index v, v_public_key v)) pairs))"
    by auto
  moreover have "update_loop E A R kps (p # pairs) uts keys rng = update_loop E A R kps pairs ?uts ?keys rng1"
    using ut i assms(2) assms(3)[OF i(1)] ix by (simp add: p m slice_get_def Let_def)
  ultimately show ?case
    using hash_map.ins_lookup[OF Cons.prems(3)] by (auto simp: p fun_eq_iff map_add_def split: option.splits)
qed simp

lemma map_of_functional:
  assumes "\<And>k v v'. (k, v) \<in> set m \<Longrightarrow> (k, v') \<in> set m \<Longrightarrow> v = v'"
  shows "map_of m k = Some v \<longleftrightarrow> (k, v) \<in> set m"
  using assms by (metis map_of_SomeD weak_map_of_SomeI)

lemma collected_session_keys:
  assumes "distinct (map fst keys)" "map_of keys = map_of (rev (map (\<lambda>(_, v). (v_share_index v, v_public_key v)) pairs))"
    and "snd ` set pairs = snd ` set (validators d)"
  shows "session_keys d keys"
proof -
  let ?L = "rev (map (\<lambda>(_, v). (v_share_index v, v_public_key v)) pairs)"
  have "set ?L = (\<lambda>v. (v_share_index v, v_public_key v)) ` snd ` set pairs" by (simp add: image_image case_prod_unfold)
  also have "\<dots> = {(of_nat i, v_public_key (snd (validators d ! i))) | i. i < length (validators d)}"
  proof -
    have "set (validators d) = (!) (validators d) ` {..<length (validators d)}" by (auto simp: set_conv_nth)
    then show ?thesis using dkg_wf_nth(2)[OF wf] by (auto simp: assms(3) image_image)
  qed
  finally have L: "set ?L = {(of_nat i, v_public_key (snd (validators d ! i))) | i. i < length (validators d)}" .
  have eq: "map_of ?L k = Some v \<longleftrightarrow> (k, v) \<in> set ?L" for k v
  proof (rule map_of_functional)
    fix k v v' assume "(k, v) \<in> set ?L" "(k, v') \<in> set ?L"
    then obtain i j where ij: "k = of_nat i" "i < length (validators d)" "v = v_public_key (snd (validators d ! i))"
      "k = of_nat j" "j < length (validators d)" "v' = v_public_key (snd (validators d ! j))"
      unfolding L by blast
    then have "i = j" using dkg_wf_nth(2,3)[OF wf ij(2)] dkg_wf_nth(2,3)[OF wf ij(5)] by metis
    with ij show "v = v'" by simp
  qed
  have "(k, v) \<in> set keys \<longleftrightarrow> (k, v) \<in> set ?L" for k v
    unfolding map_of_eq_Some_iff[OF assms(1), symmetric] assms(2) by (rule eq)
  then have "set keys = set ?L" by auto
  with L show ?thesis using assms(1) by (simp add: session_keys_def)
qed

lemma session_keys_perm: "session_keys d keys \<Longrightarrow> mset keys' = mset keys \<Longrightarrow> session_keys d keys'"
  using distinct_map_perm[of keys' keys fst] mset_eq_setD[of keys' keys] by (simp add: session_keys_def)

end

text \<open>What the participants start from: their contexts, a header and the secret that it hides.\<close>

lemma api_dkg_new_session:
  assumes "pairing_laws E" "domain_laws (g1_mul E) A" "api_dkg_new A ritual n t vs v = Ok d"
  shows "session E A d"
proof -
  obtain ps where "dkg_new A vs ps v = Ok d" using assms(3) by (auto simp: api_dkg_new_def outcome_simps)
  from dkg_new_invariant(1)[OF this] show ?thesis by (intro session.intro session_axioms.intro assms(1,2))
qed

lemma verify_aggregation_me: "verify_aggregation E A p (d\<lparr> me := m \<rparr>) ts = verify_aggregation E A p d ts"
  by (simp add: verify_aggregation_def verify_full_def)

lemma server_aggregate_parts:
  assumes "server_aggregate E A n t vs ms v = Ok (d, agg)"
  shows "api_dkg_new A fixture_tau n t vs v = Ok d" "api_aggregate_transcripts E d ms = Ok agg"
    "api_aggregated_transcript_verify E A agg n t ms = Ok True"
  using assms by (auto simp: server_aggregate_def outcome_simps)

lemma share_update_inputs:
  assumes "pairing_laws E" "domain_laws (g1_mul E) A" "crypto_laws C" "\<forall>r. fst (scalar_rand R r) \<noteq> 0"
    and "\<forall>key nonce. chacha_encrypt C key nonce msg aad \<noteq> None" "\<forall>m. htp_bls12381_g2 (curve_lib C) m \<noteq> Ok 0"
    and "make_test_inputs E A R hex_decode test_rng shuffle seed_rng fixture_tau t n n = (Ok (ms, vs, kps), rng1)"
    and "map snd (validators d) = vs" "vs \<noteq> []" "length kps = length vs" "distinct kps"
    and "\<And>i. i < length vs \<Longrightarrow> v_public_key (vs ! i) = keypair_public_key E (kps ! i)"
    and "\<And>v. v \<in> set vs \<Longrightarrow> server_aggregate E A n t vs ms v = Ok (d\<lparr> me := v \<rparr>, agg)"
    and "from_transcripts (map snd ms) = Ok agg" "verify_aggregation E A (aggregate_pvss agg) d (map snd ms) = Ok True"
    and "shares (aggregate_pvss agg) = dealt_shares E A d cs" "peval cs 0 \<noteq> 0"
    and "length cs = unat (security_threshold (params d))" "length cs \<le> length vs"
    and "agg_public_key agg = DkgPublicKey (g1_mul E (g1_generator E) (peval cs 0))"
  obtains h where "make_share_update_test_inputs C E A R hex_decode test_rng shuffle thread_rng msg aad n n seed_rng t =
      (Ok (ms, vs, kps, map (\<lambda>v. d\<lparr> me := v \<rparr>) vs, h,
        SharedSecret (pair E (hdr_commitment h) (g2_mul E (g2_generator E) (peval cs 0)))), rng1)"
    "header_check C E h aad = Ok True"
proof -
  have scheme: "tdec_scheme C E" by (rule tdec_scheme.intro[OF assms(3,1)])
  obtain ct rng2 h where ct: "encrypt C E R msg aad (agg_public_key agg) thread_rng = (Ok ct, rng2)" "ct_header C ct = Ok h"
      and h: "header_check C E h aad = Ok True"
    by (rule tdec_scheme.encrypted_round[OF scheme assms(20,17,4-6)])
  let ?d = "d\<lparr> me := vs ! 0 \<rparr>"
  have 0: "vs ! 0 \<in> set vs" using assms(9) by simp
  note first = server_aggregate_parts[OF assms(13)[OF 0]]
  have vs: "length (validators d) = length vs" "\<And>i. i < length vs \<Longrightarrow> snd (validators d ! i) = vs ! i"
    using assms(8) by auto
  have "create_shared_secret_simple_tdec C E A ?d aad h kps (map snd ms) =
      Ok (agg, map (slot_share E A ?d cs (hdr_commitment h) kps) [0..<length cs],
        SharedSecret (pair E (hdr_commitment h) (g2_mul E (g2_generator E) (peval cs 0))))"
    by (rule session.create_shared_secret_Ok[OF api_dkg_new_session[OF assms(1,2) first(1)] assms(14)])
      (use assms(10-12,15,16,18,19) vs h in \<open>simp_all add: verify_aggregation_me\<close>)
  moreover have "try_map (\<lambda>v. unwrap (api_dkg_new A fixture_tau n t vs v) :: _ result) vs = Ok (map (\<lambda>v. d\<lparr> me := v \<rparr>) vs)"
    by (rule try_map_Ok_map) (simp add: server_aggregate_parts(1)[OF assms(13)])
  ultimately show ?thesis
    using that[OF _ h] assms(7,9) ct first(2,3)
    by (auto simp: make_share_update_test_inputs_def slice_index_if api_encrypt_def api_public_key_def
        api_ciphertext_header_def)
qed

text \<open>The pairs of the loop are all validators, met with the contexts of all.\<close>

lemma loop_pairs:
  assumes "map snd (validators d) = vs" "vs \<noteq> []"
  defines "pairs \<equiv> concat (map (\<lambda>dkg. map (\<lambda>(_, v). (dkg, v)) (validators dkg)) (map (\<lambda>v. d\<lparr> me := v \<rparr>) vs))"
  shows "list_all (\<lambda>(dkg, v). (\<exists>m. dkg = d\<lparr> me := m \<rparr>) \<and> v \<in> snd ` set (validators d)) pairs"
    "snd ` set pairs = snd ` set (validators d)"
proof -
  have "set pairs = (\<Union>v\<in>set vs. (\<lambda>(_, v'). (d\<lparr> me := v \<rparr>, v')) ` set (validators d))" by (auto simp: pairs_def)
  then show "list_all (\<lambda>(dkg, v). (\<exists>m. dkg = d\<lparr> me := m \<rparr>) \<and> v \<in> snd ` set (validators d)) pairs"
    "snd ` set pairs = snd ` set (validators d)"
    using assms(2) by (auto simp: list_all_iff image_UN image_image case_prod_unfold)
qed

context session begin

lemma validator_index:
  assumes "map snd (validators d) = vs" "v \<in> set vs"
  shows "unat (v_share_index v) < length vs"
proof -
  obtain i where "i < length (validators d)" "v = snd (validators d ! i)"
    using assms by (auto simp: in_set_conv_nth)
  then show ?thesis using dkg_wf_nth(3)[OF wf] arg_cong[OF assms(1), of length] by simp
qed

text \<open>Each participant creates its share from the aggregate at its own index.\<close>

lemma refreshed_shares:
  assumes "shares (aggregate_pvss agg) = dealt_shares E A d cs" "map snd (validators d) = vs" "length kps = length vs" "k \<le> length vs"
    and "\<And>i. i < length vs \<Longrightarrow> v_public_key (vs ! i) = keypair_public_key E (kps ! i)"
    and "header_check C E h aad = Ok True"
  obtains ss where "try_map (\<lambda>(kp, validator_dkg).
      and_then (expect (slice_get (map (\<lambda>_. agg) vs) (unat (v_share_index (me validator_dkg))))) (\<lambda>agg.
      unwrap (api_create_decryption_share_simple C E A agg validator_dkg h aad kp)) :: _ result)
      (take k (zip kps (map (\<lambda>v. d\<lparr> me := v \<rparr>) vs))) = Ok ss"
    "evaluations E (hdr_commitment h) cs ss" "length ss = k"
proof -
  obtain ss where ss: "try_map (\<lambda>(v, kp). and_then (Ok (d\<lparr> me := v \<rparr>, agg) :: _ result) (\<lambda>(dkg, agg).
      unwrap (api_create_decryption_share_simple C E A agg dkg h aad kp)) :: _ result) (take k (zip vs kps)) = Ok ss"
    "evaluations E (hdr_commitment h) cs ss" "length ss = k"
    by (rule server_shares[OF assms(1-5) _ assms(6)]) auto
  have zip: "take k (zip kps (map (\<lambda>v. d\<lparr> me := v \<rparr>) vs)) = map (\<lambda>(v, kp). (kp, d\<lparr> me := v \<rparr>)) (take k (zip vs kps))"
    by (rule nth_equalityI) (use assms(3) in \<open>auto simp: nth_zip\<close>)
  show ?thesis
  proof (rule that[OF _ ss(2,3)], unfold zip try_map_map, rule try_map_mono[OF ss(1)])
    fix x y assume x: "x \<in> set (take k (zip vs kps))"
      and y: "(\<lambda>(v, kp). and_then (Ok (d\<lparr> me := v \<rparr>, agg) :: _ result) (\<lambda>(dkg, agg).
        unwrap (api_create_decryption_share_simple C E A agg dkg h aad kp)) :: _ result) x = Ok y"
    obtain v kp where vkp: "x = (v, kp)" by fastforce
    then have "v \<in> set vs" using x by (auto dest: in_set_takeD set_zip_leftD)
    then have "unat (v_share_index v) < length vs" using validator_index[OF assms(2)] by blast
    with y show "((case (case x of (v, kp) \<Rightarrow> (kp, d\<lparr> me := v \<rparr>)) of (kp, validator_dkg) \<Rightarrow>
        and_then (expect (slice_get (map (\<lambda>_. agg) vs) (unat (v_share_index (me validator_dkg))))) (\<lambda>agg.
        unwrap (api_create_decryption_share_simple C E A agg validator_dkg h aad kp))) :: _ result) = Ok y"
      by (simp add: vkp slice_get_def)
  qed
qed

text \<open>The participants' updates refresh the aggregate, in any order of the two maps.\<close>

lemma participants_refresh:
  assumes "rand_laws R" "security_threshold (params d) = t" "unat t \<le> length (dom_elements A (domain d))"
    and "length cs = unat t" "aggregate_pvss agg = dealt E A d cs"
    and "agg_public_key agg = DkgPublicKey (g1_mul E (g1_generator E) (peval cs 0))"
    and "map snd (validators d) = vs" "length kps = length vs"
    and "\<And>i. i < length vs \<Longrightarrow> v_public_key (vs ! i) = keypair_public_key E (kps ! i)"
    and "\<forall>m. mset (order_updates m) = mset m" "\<forall>m. mset (order_keys m) = mset m"
    and "list_all (\<lambda>(dkg, v). (\<exists>m. dkg = d\<lparr> me := m \<rparr>) \<and> v \<in> snd ` set (validators d)) pairs"
    and "snd ` set pairs = snd ` set (validators d)"
  shows "\<exists>agg' uts keys rng' cs'. update_loop E A R kps pairs [] [] rng = (Ok (uts, keys), rng') \<and>
    api_refresh E A agg (order_updates uts) (order_keys keys) = Ok agg' \<and>
    shares (aggregate_pvss agg') = dealt_shares E A d cs' \<and> length cs' = unat t \<and> peval cs' 0 = peval cs 0"
proof -
  let ?generated = "\<lambda>(_ :: u32, ut). \<exists>m rng rng'. api_generate_refresh_transcript E A R (d\<lparr> me := m \<rparr>) rng = (Ok ut, rng')"
  have vs: "length (validators d) = length vs" "\<And>i. i < length vs \<Longrightarrow> snd (validators d ! i) = vs ! i"
    using assms(7) by auto
  obtain uts keys rng' where loop: "update_loop E A R kps pairs [] [] rng = (Ok (uts, keys), rng')"
      "list_all ?generated uts" "distinct (map fst keys)"
      "map_of keys = map_of [] ++ map_of (rev (map (\<lambda>(_, v). (v_share_index v, v_public_key v)) pairs))"
    using update_loop_Ok[OF assms(1) _ _ assms(12), of kps "[]" "[]" rng] assms(8,9) vs by auto
  have "session_keys d keys" by (rule collected_session_keys[OF loop(3) _ assms(13)]) (use loop(4) in simp)
  then have keys: "session_keys d (order_keys keys)" using assms(11) by (blast intro: session_keys_perm)
  have uts: "list_all ?generated (order_updates uts)" using loop(2) list_all_perm assms(10) by blast
  let ?s = "\<lparr> rs_dkg = d, rs_aggregate = agg \<rparr>"
  have "cs \<noteq> []" using assms(2,4) threshold_pos by auto
  then have "hd (coeffs (aggregate_pvss agg)) = g1_mul E (g1_generator E) (peval cs 0)"
    by (cases cs) (simp_all add: assms(5) peval_zero_point)
  then have "shares_secret E A t (peval cs 0) ?s"
    using wf assms(2-6) \<open>cs \<noteq> []\<close> by (auto simp: shares_secret_def)
  from shares_secret_refreshed[OF _ assms(1) this, of "order_keys keys" "order_updates uts"] session_axioms keys uts
  obtain agg' where "api_refresh E A agg (order_updates uts) (order_keys keys) = Ok agg'"
      "shares_secret E A t (peval cs 0) \<lparr> rs_dkg = d, rs_aggregate = agg' \<rparr>" by auto
  then show ?thesis using loop(1) by (auto simp: shares_secret_def)
qed

end

text \<open>The scenario of \<open>lib.rs\<close>, for all parameters: unless the updates leave every share as it was, it
  succeeds.\<close>

lemma refreshing_scenario_succeeds:
  assumes "pairing_laws E" "domain_laws (g1_mul E) A" "rand_laws R" "\<forall>r. fst (scalar_rand R r) \<noteq> 0"
    and "hex_laws hex_decode" "\<forall>xs r. mset (fst (shuffle xs r)) = mset xs"
    and "\<forall>m. mset (order_updates m) = mset m" "\<forall>m. mset (order_keys m) = mset m"
    and "crypto_laws C" "\<forall>key nonce. chacha_encrypt C key nonce msg aad \<noteq> None" "\<forall>m. htp_bls12381_g2 (curve_lib C) m \<noteq> Ok 0"
    and "0 < t" "t \<le> n" "dom_new A (unat n) = Some dm" "distinct (gen_keypairs R test_rng n)"
    and "terms_do_not_cancel (setup_dealt_dkg_with E A R hex_decode test_rng shuffle t n)"
    and "dealt_ritual E A n (setup_dealt_dkg_with E A R hex_decode test_rng shuffle t n) = Ok (dkg, kps, ts, agg)"
    and "update_loop E A R kps (map (\<lambda>(_, v). (dkg, v)) (validators dkg)) [] [] (snd (scalar_rand R test_rng)) =
      (Ok (uts, keys), rng2)"
    and "refresh E A (aggregate_pvss agg) (order_updates uts) (order_keys keys) \<noteq> Ok (aggregate_pvss agg)"
  shows "test_dkg_simple_tdec_share_refreshing C E A R hex_decode test_rng shuffle order_updates order_keys msg aad n t = Ok ()"
  using assms(1-6,9-15) assms(16)[unfolded setup_dealt_dkg_with_def setup_dealt_dkg_with_n_validators_def]
proof (rule shared_secret_Ok)
  fix d ts' agg' cs ct h
  let ?kps = "gen_keypairs R test_rng n" and ?fix = "setup_dealt_dkg_with_n_transcript_dealt E A R hex_decode test_rng shuffle t n n t"
  assume ritual: "dealt_ritual E A n ?fix = Ok (d, ?kps, ts', agg')"
    and S: "session E A d" and d: "security_threshold (params d) = t" "length (validators d) = unat n"
    and keys: "\<And>i. i < length (validators d) \<Longrightarrow> v_public_key (snd (validators d ! i)) = keypair_public_key E (?kps ! i)"
    and lk: "length ?kps = length (validators d)"
    and cs: "length cs = unat t" "length cs \<le> length (validators d)" "aggregate_pvss agg' = dealt E A d cs"
    and pk: "agg_public_key agg' = DkgPublicKey (g1_mul E (g1_generator E) (peval cs 0))"
    and ct: "encrypt C E R msg aad (agg_public_key agg') test_rng = (Ok ct, snd (scalar_rand R test_rng))" "ct_header C ct = Ok h"
    and h: "header_check C E h aad = Ok True"
    and old: "create_shared_secret_simple_tdec C E A d aad h ?kps ts' =
      Ok (agg', map (slot_share E A d cs (hdr_commitment h) ?kps) [0..<length cs], SharedSecret (pair E (hdr_commitment h) (g2_mul E (g2_generator E) (peval cs 0))))"
  have same: "dkg = d" "kps = ?kps" "ts = ts'" "agg = agg'"
    using ritual assms(17) by (simp_all add: setup_dealt_dkg_with_def setup_dealt_dkg_with_n_validators_def)
  have size: "unat t \<le> length (dom_elements A (domain d))"
    using domain_laws.dom_size[OF assms(2,14)] assms(13) dkg_wf_domain[OF session.wf[OF S]] assms(14) d(2)
    by (simp add: word_le_nat_alt)
  let ?pairs = "map (\<lambda>(_, v). (d, v)) (validators d)"
  have pairs: "list_all (\<lambda>(dkg, v). (\<exists>m. dkg = d\<lparr> me := m \<rparr>) \<and> v \<in> snd ` set (validators d)) ?pairs"
      "snd ` set ?pairs = snd ` set (validators d)"
    by (auto simp: list_all_iff image_image case_prod_unfold intro!: exI[of _ "me d"])
  obtain new cs' where new: "api_refresh E A agg' (order_updates uts) (order_keys keys) = Ok new"
      and cs': "shares (aggregate_pvss new) = dealt_shares E A d cs'" "length cs' = unat t" "peval cs' 0 = peval cs 0"
    using session.participants_refresh[OF S assms(3) d(1) size cs(1,3) pk refl _ _ assms(7,8) pairs, of ?kps
        "snd (scalar_rand R test_rng)"] lk keys assms(18) by (auto simp: same)
  then have refreshed: "refresh E A (aggregate_pvss agg') (order_updates uts) (order_keys keys) = Ok (aggregate_pvss new)"
    by (auto simp: api_refresh_def outcome_simps from_aggregate_def)
  have len: "length cs' \<le> length (validators d)" using cs'(2) cs(1,2) by simp
  note made = session.first_shares_combine[OF S cs'(1) len assms(15) lk keys h]
  show ?thesis
    using ritual ct old made assms(18,19) refreshed cs' d cs(1,2) session.length_domain_points[OF S]
    by (auto simp: test_dkg_simple_tdec_share_refreshing_def setup_dealt_dkg_with_def
        setup_dealt_dkg_with_n_validators_def slice_range_def same)
qed

section \<open>Properties\<close>

text \<open>
  C5: the refresh scenario of the interface, for all parameters.  After every participant has
  aggregated and verified the messages, prepared updates with its own context and refreshed its
  aggregate with everybody's, in any order of the maps, the first \<open>t\<close> of them create shares from
  their refreshed aggregates, and the shares, shuffled, combine to the secret of before the refresh.
\<close>

theorem refresh_scenario_succeeds:
  assumes "pairing_laws E" "domain_laws (g1_mul E) A" "rand_laws R" "\<forall>r. fst (scalar_rand R r) \<noteq> 0"
    and "hex_laws hex_decode" "\<forall>xs r. mset (fst (shuffle xs r)) = mset xs" "\<forall>xs r. mset (fst (shuffle_shares xs r)) = mset xs"
    and "\<forall>m. mset (order_updates m) = mset m" "\<forall>m. mset (order_keys m) = mset m"
    and "crypto_laws C" "\<forall>key nonce. chacha_encrypt C key nonce msg aad \<noteq> None" "\<forall>m. htp_bls12381_g2 (curve_lib C) m \<noteq> Ok 0"
    and "0 < t" "t \<le> n" "dom_new A (unat n) = Some dm" "distinct (gen_keypairs R test_rng n)"
    and "generic_inputs (fst (make_test_inputs E A R hex_decode test_rng shuffle seed_rng fixture_tau t n n))"
  shows "test_dkg_api_simple_tdec_share_refresh C E A R hex_decode test_rng shuffle shuffle_shares order_updates
    order_keys seed_rng thread_rng msg aad n t = Ok ()"
  using assms(1-6,13-15,17)
proof (rule api_ritual_Ok)
  fix d ms vs rng1 agg cs
  let ?kps = "gen_keypairs R test_rng n"
  assume inputs: "make_test_inputs E A R hex_decode test_rng shuffle seed_rng fixture_tau t n n = (Ok (ms, vs, ?kps), rng1)"
    and S: "session E A d" and d: "security_threshold (params d) = t" "map snd (validators d) = vs" "length vs = unat n"
    and keys: "\<And>i. i < unat n \<Longrightarrow> v_public_key (vs ! i) = keypair_public_key E (?kps ! i)"
    and agg: "from_transcripts (map snd ms) = Ok agg" "verify_aggregation E A (aggregate_pvss agg) d (map snd ms) = Ok True"
      "api_aggregated_transcript_verify E A agg n t ms = Ok True"
    and server: "\<And>v. v \<in> set vs \<Longrightarrow> server_aggregate E A n t vs ms v = Ok (d\<lparr> me := v \<rparr>, agg)"
      "\<And>v. v \<in> set vs \<Longrightarrow> api_dkg_new A fixture_tau n t vs v = Ok (d\<lparr> me := v \<rparr>)"
    and dm: "unat t \<le> length (dom_elements A (domain d))"
    and cs: "length cs = unat t" "aggregate_pvss agg = dealt E A d cs" "peval cs 0 \<noteq> 0"
    and pk: "agg_public_key agg = DkgPublicKey (g1_mul E (g1_generator E) (peval cs 0))"
  let ?dkgs = "map (\<lambda>v. d\<lparr> me := v \<rparr>) vs"
  have "0 < n" using assms(13,14) by simp
  then have t: "unat t \<le> length vs" "0 < length vs"
    using assms(14) d(3) by (simp_all add: word_le_nat_alt unat_gt_0 word_gt_0)
  have lk: "length ?kps = length vs" by (simp add: d(3) gen_keypairs_def)
  have ne: "vs \<noteq> []" using t(2) by auto
  have keys': "v_public_key (vs ! i) = keypair_public_key E (?kps ! i)" if "i < length vs" for i using keys that d(3) by simp
  have shares: "shares (aggregate_pvss agg) = dealt_shares E A d cs" by (simp add: cs(2))
  obtain h where prep: "make_share_update_test_inputs C E A R hex_decode test_rng shuffle thread_rng msg aad n n seed_rng t =
      (Ok (ms, vs, ?kps, ?dkgs, h, SharedSecret (pair E (hdr_commitment h) (g2_mul E (g2_generator E) (peval cs 0)))), rng1)"
    and h: "header_check C E h aad = Ok True"
    by (rule share_update_inputs[OF assms(1,2,10,4,11,12) inputs d(2) ne lk assms(16) keys' server(1) agg(1,2) shares cs(3)])
      (use cs(1) d(1) t(1) pk in simp_all)
  obtain agg' uts keys rng2 cs' where loop: "update_loop E A R ?kps
      (concat (map (\<lambda>dkg. map (\<lambda>(_, v). (dkg, v)) (validators dkg)) ?dkgs)) [] [] rng1 = (Ok (uts, keys), rng2)"
    and agg': "api_refresh E A agg (order_updates uts) (order_keys keys) = Ok agg'"
    and cs': "shares (aggregate_pvss agg') = dealt_shares E A d cs'" "length cs' = unat t" "peval cs' 0 = peval cs 0"
    using session.participants_refresh[OF S assms(3) d(1) dm cs(1,2) pk d(2) lk keys' assms(8,9) loop_pairs[OF d(2) ne], of rng1] by blast
  have refreshed: "try_map (\<lambda>validator_dkg.
        and_then (unwrap (api_aggregate_transcripts E validator_dkg ms)) (\<lambda>agg.
        and_then (unwrap (api_aggregated_transcript_verify E A agg n t ms)) (\<lambda>valid.
        and_then (rust_assert valid) (\<lambda>_.
        unwrap (api_refresh E A agg (order_updates uts) (order_keys keys))))) :: _ result) ?dkgs = Ok (map (\<lambda>_. agg') vs)"
    unfolding try_map_map by (rule try_map_Ok_map) (simp add: server_aggregate_parts(2,3)[OF server(1)] agg')
  obtain ss where create: "try_map (\<lambda>(kp, validator_dkg).
        and_then (expect (slice_get (map (\<lambda>_. agg') vs) (unat (v_share_index (me validator_dkg))))) (\<lambda>agg.
        unwrap (api_create_decryption_share_simple C E A agg validator_dkg h aad kp)) :: _ result)
        (take (unat t) (zip ?kps ?dkgs)) = Ok ss"
    and ss: "evaluations E (hdr_commitment h) cs' ss" "length ss = unat t"
    by (rule session.refreshed_shares[OF S cs'(1) d(2) lk t(1) keys' h])
  let ?ss = "fst (shuffle_shares ss rng2)"
  have perm: "mset ?ss = mset ss" using assms(7) by blast
  then have len: "length ?ss = unat t" using mset_eq_length[OF perm] ss(2) by simp
  then have "combine_shares_simple E ?ss = SharedSecret (pair E (hdr_commitment h) (g2_mul E (g2_generator E) (peval cs 0)))"
    using pairing_laws.combine_evaluations[OF assms(1) evaluations_perm[OF ss(1) perm]] cs'(2,3) by simp
  then show ?thesis
    using prep loop refreshed create lk len
    by (simp add: test_dkg_api_simple_tdec_share_refresh_def slice_range_def)
qed

theorem refresh_scenario_succeeds_witness:
  "test_dkg_api_simple_tdec_share_refresh C17 E17 A17 R17 hex_pairs 0 (\<lambda>xs r. (rev xs, r)) (\<lambda>xs r. (rev xs, r)) rev rev
    7 2 [10, 20] [1] 4 3 = Ok ()"
  by (intro refresh_scenario_succeeds[OF e17.pairing_laws_axioms sample_domain r17.rand_laws_axioms sample_generator
        hex.hex_laws_axioms _ _ _ _ c17.crypto_laws_axioms sample_primitives _ _ sample_dealers(1,2) sample_inputs])
    simp_all

lemma sample_refreshing:
  "test_dkg_simple_tdec_share_refreshing C17 E17 A17 R17 hex_pairs 0 (\<lambda>xs r. (rev xs, r)) rev rev [10, 20] [1] 4 3 = Ok ()"
  by code_simp

end
