(* ===== verification/Handover_Scenario.thy ===== *)
theory Handover_Scenario
  imports Scenarios Mobility
begin

text \<open>
  The handover scenario of \<open>ferveo/src/lib.rs\<close> (module \<open>test_dkg_full\<close>): a randomly drawn slot is handed
  over to a new validator, with every check that the scenario makes on the way.  \<open>gen_range\<close> of the
  \<open>rand\<close> crate is a parameter.
\<close>

section \<open>Operations\<close>

text \<open>\<open>unwrap_err\<close>, with the comparison of the messages: no two errors of these operations share one.\<close>

definition assert_error :: "error \<Rightarrow> 'a result \<Rightarrow> unit result" where
  "assert_error expected res = (case res of Err e \<Rightarrow> rust_assert (e = expected) | _ \<Rightarrow> Panic)"

text \<open>The part from the chosen slot to the aggregate after the handover.\<close>

definition hand_over_slot ::
  "('f::field, 'g1::ab_group_add, 'g2::ab_group_add, 'gt::comm_monoid_mult) pairing \<Rightarrow> ('f, 'g1, 'd) ark_poly \<Rightarrow>
    ('f, 'r) ark_rand \<Rightarrow> ('g2, 'd) dkg \<Rightarrow> 'f keypair list \<Rightarrow> ('g1, 'g2) aggregated_transcript \<Rightarrow> u32 \<Rightarrow>
    'f keypair \<Rightarrow> 'r \<Rightarrow> ('g1, 'g2) pvss result"
where
  "hand_over_slot E A R dkg kps agg slot incoming rng =
     and_then (expect (map_of (validators dkg) slot)) (\<lambda>departing.
     and_then (rust_assert (v_share_index departing = slot)) (\<lambda>_.
     and_then (rust_assert (v_public_key departing \<noteq> keypair_public_key E incoming)) (\<lambda>_.
     and_then (unwrap (fst (generate_handover_transcript E R dkg agg slot incoming rng))) (\<lambda>ho.
     let share_commitments = get_share_commitments_from_poly_commitments A (coeffs (aggregate_pvss agg)) (domain dkg) in
     and_then (unwrap (ok_or (slice_get share_commitments (unat slot)) (InvalidShareIndex slot))) (\<lambda>share_comm.
     and_then (unwrap (handover_validate E ho (ShareCommitment share_comm))) (\<lambda>valid.
     and_then (rust_assert valid) (\<lambda>_.
     and_then (expect (slice_get kps (unat slot))) (\<lambda>departing_kp.
     and_then (rust_assert (v_public_key departing = keypair_public_key E departing_kp)) (\<lambda>_.
     and_then (unwrap (finalize_handover E A (aggregate_pvss agg) ho departing_kp)) (\<lambda>after.
     and_then (assert_error ValidatorPublicKeyMismatch (finalize_handover E A (aggregate_pvss agg) ho incoming)) (\<lambda>_.
     Ok after)))))))))))"

text \<open>The assertions on what has changed.\<close>

definition compare_aggregates :: "('g1, 'g2) pvss \<Rightarrow> ('g1, 'g2) pvss \<Rightarrow> u32 \<Rightarrow> u32 \<Rightarrow> unit result" where
  "compare_aggregates before after n slot =
     and_then (rust_assert (before \<noteq> after)) (\<lambda>_.
     and_then (rust_assert (coeffs before = coeffs after)) (\<lambda>_.
     and_then (rust_assert (shares before \<noteq> shares after)) (\<lambda>_.
     rust_assert (list_all (\<lambda>i.
       if i = unat slot then slice_get (shares before) i \<noteq> slice_get (shares after) i
       else slice_get (shares before) i = slice_get (shares after) i) [0..<unat n]))))"

definition test_dkg_simple_tdec_handover ::
  "('g1, 'g2, 'gt, 'fp, 'fp2, 'ecp2) crypto \<Rightarrow> ('f::field, 'g1::ab_group_add, 'g2::ab_group_add, 'gt::comm_monoid_mult) pairing \<Rightarrow>
    ('f, 'g1, 'd) ark_poly \<Rightarrow> ('f, 'r) ark_rand \<Rightarrow> (bytes \<Rightarrow> bytes option) \<Rightarrow> 'r \<Rightarrow>
    (('g1, 'g2) validator_message list \<Rightarrow> 'r \<Rightarrow> ('g1, 'g2) validator_message list \<times> 'r) \<Rightarrow>
    (u32 \<Rightarrow> 'r \<Rightarrow> u32 \<times> 'r) \<Rightarrow> bytes \<Rightarrow> bytes \<Rightarrow> u32 \<Rightarrow> u32 \<Rightarrow> unit result"
where
  "test_dkg_simple_tdec_handover C E A R hex_decode test_rng shuffle gen_range msg aad n t =
     and_then (dealt_ritual E A n (setup_dealt_dkg_with E A R hex_decode test_rng shuffle t n)) (\<lambda>(dkg, kps, transcripts, agg).
     let (res, rng1) = encrypt C E R msg aad (agg_public_key agg) test_rng in
     and_then (unwrap res) (\<lambda>ciphertext.
     and_then (unwrap (ct_header C ciphertext)) (\<lambda>header.
     and_then (create_shared_secret_simple_tdec C E A dkg aad header kps transcripts) (\<lambda>(_, _, old_shared_secret).
     let (slot, rng2) = gen_range n rng1; (incoming, rng3) = keypair_new R rng2 in
     and_then (hand_over_slot E A R dkg kps agg slot incoming rng3) (\<lambda>after.
     and_then (compare_aggregates (aggregate_pvss agg) after n slot) (\<lambda>_.
     and_then (try_map (\<lambda>(index, kp).
       unwrap (create_decryption_share_simple C E after header aad
         (if index = unat slot then incoming else kp) (of_nat index)))
       (take (unat (security_threshold (params dkg))) (enumerate 0 kps))) (\<lambda>decryption_shares.
     and_then (slice_range (domain_points A dkg) 0 (unat t)) (\<lambda>points.
     and_then (slice_range decryption_shares 0 (unat t)) (\<lambda>decryption_shares.
     rust_assert (old_shared_secret = share_combine_simple E decryption_shares (prepare_combine_simple points)))))))))))"

section \<open>Supporting facts\<close>

lemma try_map_ex:
  "(\<And>x. x \<in> set xs \<Longrightarrow> \<exists>y. f x = Ok y \<and> g y = h x) \<Longrightarrow> \<exists>ys. try_map f xs = Ok ys \<and> map g ys = map h xs"
proof (induction xs)
  case (Cons x xs)
  then obtain y ys where "f x = Ok y" "g y = h x" "try_map f xs = Ok ys" "map g ys = map h xs" by fastforce
  then show ?case by (intro exI[of _ "y # ys"]) simp
qed simp

text \<open>A decryption share depends on one slot of the aggregate only.\<close>

lemma create_share_slot:
  "slice_get (shares p) (unat i) = slice_get (shares p') (unat i) \<Longrightarrow>
   create_decryption_share_simple C E p h aad kp i = create_decryption_share_simple C E p' h aad kp i"
  by (simp add: create_decryption_share_simple_def get_share_for_index_and_pubkey_def)

lemma finalize_wrong_key:
  assumes "dom_new A (length (shares p)) = Some dm" "unat (ho_share_index ho) < length (shares p)"
    and "outgoing_pubkey ho \<noteq> keypair_public_key E kp"
  shows "finalize_handover E A p ho kp = Err ValidatorPublicKeyMismatch"
  using assms by (simp add: finalize_handover_def Let_def)

context session begin

lemma validators_fit_domain: "length (validators d) \<le> length (dom_elements A (domain d))"
  by (rule dm.dom_size[OF dom])

lemma hand_over_slot_Ok:
  assumes "coeffs (aggregate_pvss agg) = map (g1_mul E (g1_generator E)) cs"
    and "shares (aggregate_pvss agg) = dealt_shares E A d cs"
    and "length cs \<le> length (dom_elements A (domain d))" "unat i < length (validators d)"
    and "length kps = length (validators d)"
    and "v_public_key (snd (validators d ! unat i)) = keypair_public_key E (kps ! unat i)"
    and "kps ! unat i \<noteq> incoming"
  shows "hand_over_slot E A R d kps agg i incoming rng = Ok ((aggregate_pvss agg)\<lparr> shares :=
      (shares (aggregate_pvss agg))[unat i := g2_mul E (encryption_key (keypair_public_key E incoming))
        (peval cs (domain_points A d ! unat i))] \<rparr>)"
  using assms(2,4) assms(6)[symmetric]
proof (rule handover_generated[where R = R and rng = rng and incoming = incoming])
  fix c ho rng'
  let ?y = "peval cs (domain_points A d ! unat i)" and ?p = "aggregate_pvss agg" and ?kp = "kps ! unat i"
  assume gen: "generate_handover_transcript E R d agg i incoming rng = (Ok ho, rng')"
    and ho: "ho_share_index ho = i" "outgoing_pubkey ho = keypair_public_key E ?kp"
    and dbs: "double_blind_share ho = g2_mul E (g2_generator E) (?y * decryption_key ?kp * decryption_key incoming)"
    and rest: "commitment_to_share ho = g2_mul E (g2_generator E) (decryption_key ?kp * (decryption_key incoming * c))"
      "commitment_to_g1 ho = g1_mul E (g1_generator E) c" "commitment_to_g2 ho = g2_mul E (g2_generator E) c"
  note kp = validator_key(1)[OF assms(4) assms(6)[symmetric]]
  have n: "length (shares ?p) = length (validators d)" by (simp add: assms(2))
  have valid: "handover_validate E ho (ShareCommitment (g1_mul E (g1_generator E) ?y)) = Ok True"
    by (rule handover_validates[OF rest(2,3) dbs rest(1)])
  have "g2_mul E (double_blind_share ho) (inverse (decryption_key ?kp)) =
      g2_mul E (encryption_key (keypair_public_key E incoming)) ?y"
    using kp by (simp add: dbs keypair_public_key_def g2.mul_mul field_simps)
  with finalize_handover_branch[OF assms(1,3) n _ ho(2) kp] valid assms(4) ho(1)
  have fin: "finalize_handover E A ?p ho ?kp = Ok (?p\<lparr> shares := (shares ?p)[unat i :=
      g2_mul E (encryption_key (keypair_public_key E incoming)) ?y] \<rparr>)" by (cases ?p) simp
  have key: "keypair_public_key E ?kp \<noteq> keypair_public_key E incoming"
    using assms(7) by (auto simp: keypair_public_key_def keypair.equality)
  then have mismatch: "finalize_handover E A ?p ho incoming = Err ValidatorPublicKeyMismatch"
    using dom n assms(4) ho by (intro finalize_wrong_key[where dm = "domain d"]) auto
  have "slice_get (get_share_commitments_from_poly_commitments A (coeffs ?p) (domain d)) (unat i) =
      Some (g1_mul E (g1_generator E) ?y)"
    using assms(3,4) dm.fft_eval[OF dom] dm.dom_size[OF dom] nth_domain_points[OF assms(4)]
    by (simp add: assms(1) get_share_commitments_from_poly_commitments_def g1.gpeval_map_mul slice_get_def)
  then show ?thesis
    using gen valid fin mismatch key assms(4-6) dkg_wf_nth(2)[OF wf assms(4)]
    by (simp add: hand_over_slot_def dkg_wf_lookup[OF wf] slice_get_def assert_error_def of_nat_unat_u32)
qed

text \<open>After a handover, the shares of the other validators and of the incoming one evaluate the
  same polynomial.\<close>

lemma shares_after_handover:
  fixes slot :: u32
  assumes "coeffs (aggregate_pvss agg) = map (g1_mul E (g1_generator E)) cs"
    and "shares (aggregate_pvss agg) = dealt_shares E A d cs"
    and "length cs \<le> length (dom_elements A (domain d))" "unat slot < length (validators d)"
    and "length kps = length (validators d)" "k \<le> length (validators d)" "decryption_key incoming \<noteq> 0"
    and "\<And>i. i < length (validators d) \<Longrightarrow> v_public_key (snd (validators d ! i)) = keypair_public_key E (kps ! i)"
    and "header_check C E h aad = Ok True"
  defines "after \<equiv> (aggregate_pvss agg)\<lparr> shares := (shares (aggregate_pvss agg))[unat slot :=
      g2_mul E (encryption_key (keypair_public_key E incoming)) (peval cs (domain_points A d ! unat slot))] \<rparr>"
  shows "\<exists>ss. try_map (\<lambda>(index, kp). unwrap (create_decryption_share_simple C E after h aad
        (if index = unat slot then incoming else kp) (of_nat index)) :: _ result) (take k (enumerate 0 kps)) = Ok ss \<and>
    map simple_decryption_share ss = map (\<lambda>(i, _). pair E (hdr_commitment h)
      (g2_mul E (g2_generator E) (peval cs (domain_points A d ! i)))) (take k (enumerate 0 kps))"
proof (rule try_map_ex, clarify)
  fix index kp assume "(index, kp) \<in> set (take k (enumerate 0 kps))"
  then have i: "index < length (validators d)" "kp = kps ! index"
    using assms(5) in_set_takeD by (fastforce simp: in_set_enumerate_eq)+
  have u: "unat (of_nat index :: u32) = index" using dkg_wf_nth(2,3)[OF wf i(1)] by simp
  let ?f = "\<lambda>kp. unwrap (create_decryption_share_simple C E after h aad kp (of_nat index)) :: _ result"
  let ?v = "pair E (hdr_commitment h) (g2_mul E (g2_generator E) (peval cs (domain_points A d ! index)))"
  have "\<exists>s. ?f (if index = unat slot then incoming else kp) = Ok s \<and> simple_decryption_share s = ?v"
  proof (cases "index = unat slot")
    case True
    have "g2_mul E (g2_mul E (encryption_key (keypair_public_key E incoming)) (peval cs (domain_points A d ! index)))
        (inverse (decryption_key incoming)) = g2_mul E (g2_generator E) (peval cs (domain_points A d ! index))"
      using assms(7) by (simp add: keypair_public_key_def g2.mul_mul field_simps)
    then show ?thesis
      using assms(2,4,7,9) True by (simp add: after_def of_nat_unat_u32 create_decryption_share_simple_def
          get_share_for_index_and_pubkey_def slice_get_def bks_create_decryption_share_simple_def unblind_eq
          decryption_share_simple_create_def decryption_share_simple_create_unchecked_def
          validator_share_checksum_new_def)
  next
    case False
    then have "create_decryption_share_simple C E after h aad kp (of_nat index) =
        create_decryption_share_simple C E (aggregate_pvss agg) h aad kp (of_nat index)"
      by (intro create_share_slot) (simp add: after_def u slice_get_def)
    moreover have "take (length (validators d)) (shares (aggregate_pvss agg)) = dealt_shares E A d cs"
      by (simp add: assms(2))
    ultimately show ?thesis
      using share_from_verified[of "aggregate_pvss agg" cs "of_nat index" kp C h aad] i u assms(8)[OF i(1)] assms(9) False
      by simp
  qed
  then show "\<exists>y. ?f (if index = unat slot then incoming else kp) = Ok y \<and> simple_decryption_share y = ?v" .
qed

end

text \<open>Re-blinding changes exactly one share, unless that share is zero.\<close>

lemma compare_aggregates_Ok:
  assumes "unat slot < length (shares p)" "x \<noteq> shares p ! unat slot"
  shows "compare_aggregates p (p\<lparr> shares := (shares p)[unat slot := x] \<rparr>) n slot = Ok ()"
proof -
  have ne: "(shares p)[unat slot := x] ! unat slot \<noteq> shares p ! unat slot" using assms by simp
  then have "shares p \<noteq> (shares p)[unat slot := x]" by metis
  moreover from this have "p \<noteq> p\<lparr> shares := (shares p)[unat slot := x] \<rparr>" by (metis pvss.select_convs(2) pvss.surjective pvss.update_convs(2))
  ultimately show ?thesis using assms by (auto simp: compare_aggregates_def list_all_iff slice_get_def)
qed

context session begin

lemma reblinded_share_differs:
  assumes "unat slot < length (validators d)" "dealt_shares E A d cs ! unat slot \<noteq> 0"
    and "v_public_key (snd (validators d ! unat slot)) = keypair_public_key E kp" "kp \<noteq> incoming"
  shows "g2_mul E (encryption_key (keypair_public_key E incoming)) (peval cs (domain_points A d ! unat slot)) \<noteq>
    dealt_shares E A d cs ! unat slot"
proof -
  let ?y = "peval cs (domain_points A d ! unat slot)"
  have share: "dealt_shares E A d cs ! unat slot = g2_mul E (g2_generator E) (?y * decryption_key kp)"
    using validator_key(2)[OF assms(1) assms(3)[symmetric]] by (simp add: g2.mul_mul)
  with assms(2) have "?y \<noteq> 0" by auto
  moreover have "decryption_key incoming \<noteq> decryption_key kp" using assms(4) by (auto intro: keypair.equality)
  ultimately show ?thesis by (simp add: share keypair_public_key_def g2.mul_mul mult.commute)
qed

text \<open>The shares made after the handover combine to the secret that was shared before it.\<close>

lemma secret_after_handover:
  fixes slot :: u32
  assumes "aggregate_pvss agg = dealt E A d cs" "length cs = unat (security_threshold (params d))"
    and "length cs \<le> length (validators d)" "unat slot < length (validators d)"
    and "length kps = length (validators d)" "decryption_key incoming \<noteq> 0"
    and "\<And>i. i < length (validators d) \<Longrightarrow> v_public_key (snd (validators d ! i)) = keypair_public_key E (kps ! i)"
    and "header_check C E h aad = Ok True"
  defines "after \<equiv> (aggregate_pvss agg)\<lparr> shares := (shares (aggregate_pvss agg))[unat slot :=
      g2_mul E (encryption_key (keypair_public_key E incoming)) (peval cs (domain_points A d ! unat slot))] \<rparr>"
  obtains ss where "try_map (\<lambda>(index, kp). unwrap (create_decryption_share_simple C E after h aad
        (if index = unat slot then incoming else kp) (of_nat index)) :: _ result) (take (length cs) (enumerate 0 kps)) = Ok ss"
    "length ss = length cs"
    "share_combine_simple E ss (prepare_combine_simple (take (length cs) (domain_points A d))) =
      SharedSecret (pair E (hdr_commitment h) (g2_mul E (g2_generator E) (peval cs 0)))"
proof -
  let ?t = "length cs"
  have dealt: "coeffs (aggregate_pvss agg) = map (g1_mul E (g1_generator E)) cs"
      "shares (aggregate_pvss agg) = dealt_shares E A d cs" by (simp_all add: assms(1))
  obtain ss where ss: "try_map (\<lambda>(index, kp). unwrap (create_decryption_share_simple C E after h aad
        (if index = unat slot then incoming else kp) (of_nat index)) :: _ result) (take ?t (enumerate 0 kps)) = Ok ss"
      "map simple_decryption_share ss = map (\<lambda>(i, _). pair E (hdr_commitment h)
        (g2_mul E (g2_generator E) (peval cs (domain_points A d ! i)))) (take ?t (enumerate 0 kps))"
    using shares_after_handover[OF dealt order.trans[OF assms(3) validators_fit_domain] assms(4,5,3,6,7,8)]
    unfolding after_def by blast
  have "map fst (take ?t (enumerate 0 kps)) = [0..<?t]"
    using assms(3,5) by (simp add: take_map[symmetric] enumerate_eq_zip take_upt)
  from arg_cong[OF this, of "map (\<lambda>i. pair E (hdr_commitment h)
      (g2_mul E (g2_generator E) (peval cs (domain_points A d ! i))))"]
  have "map simple_decryption_share ss = map (\<lambda>x. pair E (hdr_commitment h)
        (g2_mul E (g2_generator E) (peval cs x))) (take ?t (domain_points A d))"
    using ss(2) assms(3) by (simp add: take_eq_map_nth case_prod_unfold o_def)
  moreover have "length ss = ?t" using arg_cong[OF ss(2), of length] assms(3,5) by simp
  moreover have "distinct (take ?t (domain_points A d))" by (simp add: distinct_take)
  ultimately show ?thesis
    using that[OF ss(1)] combine_simple_secret assms(3) by simp
qed

text \<open>The part of the scenario from the handover on.\<close>

lemma handover_round:
  fixes slot :: u32
  assumes "aggregate_pvss agg = dealt E A d cs" "length cs = unat (security_threshold (params d))"
    and "length cs \<le> length (validators d)" "unat slot < length (validators d)"
    and "length kps = length (validators d)" "decryption_key incoming \<noteq> 0"
    and "\<And>i. i < length (validators d) \<Longrightarrow> v_public_key (snd (validators d ! i)) = keypair_public_key E (kps ! i)"
    and "header_check C E h aad = Ok True" "kps ! unat slot \<noteq> incoming" "dealt_shares E A d cs ! unat slot \<noteq> 0"
  obtains after ss where "hand_over_slot E A R d kps agg slot incoming rng = Ok after"
    "compare_aggregates (aggregate_pvss agg) after n slot = Ok ()"
    "try_map (\<lambda>(index, kp). unwrap (create_decryption_share_simple C E after h aad
        (if index = unat slot then incoming else kp) (of_nat index)) :: _ result) (take (length cs) (enumerate 0 kps)) = Ok ss"
    "length ss = length cs"
    "share_combine_simple E ss (prepare_combine_simple (take (length cs) (domain_points A d))) =
      SharedSecret (pair E (hdr_commitment h) (g2_mul E (g2_generator E) (peval cs 0)))"
proof -
  have dealt: "coeffs (aggregate_pvss agg) = map (g1_mul E (g1_generator E)) cs"
      "shares (aggregate_pvss agg) = dealt_shares E A d cs" by (simp_all add: assms(1))
  note slot_key = assms(7)[OF assms(4)]
  let ?x = "g2_mul E (encryption_key (keypair_public_key E incoming)) (peval cs (domain_points A d ! unat slot))"
  let ?after = "(aggregate_pvss agg)\<lparr> shares := (shares (aggregate_pvss agg))[unat slot := ?x] \<rparr>"
  have handed: "hand_over_slot E A R d kps agg slot incoming rng = Ok ?after"
    by (rule hand_over_slot_Ok[OF dealt order.trans[OF assms(3) validators_fit_domain] assms(4,5) slot_key assms(9)])
  have "?x \<noteq> shares (aggregate_pvss agg) ! unat slot"
    unfolding dealt(2) by (rule reblinded_share_differs[OF assms(4,10) slot_key assms(9)])
  then have compared: "compare_aggregates (aggregate_pvss agg) ?after n slot = Ok ()"
    using assms(4) by (intro compare_aggregates_Ok) (simp_all add: dealt(2))
  from assms(1-8) show ?thesis by (rule secret_after_handover) (assumption | rule that[OF handed compared])+
qed

end

section \<open>Properties\<close>

text \<open>
  C6: a handover leaves the shared secret unchanged, for all parameters and every slot.  When the
  incoming validator's keypair is not the departing one's and the slot's share is not zero, the
  whole scenario succeeds: the incoming validator generates the handover transcript, it validates
  against the slot's commitment, the departing validator finalizes it and the incoming one cannot;
  the new aggregate differs from the old one in that slot's share only; and the shares of the first
  \<open>t\<close> validators, the incoming one using its own key in that slot, combine to the secret shared before.
\<close>

theorem handover_scenario_succeeds:
  assumes "pairing_laws E" "domain_laws (g1_mul E) A" "rand_laws R" "\<forall>r. fst (scalar_rand R r) \<noteq> 0"
    and "hex_laws hex_decode" "\<forall>xs r. mset (fst (shuffle xs r)) = mset xs"
    and "crypto_laws C" "\<forall>key nonce. chacha_encrypt C key nonce msg aad \<noteq> None" "\<forall>m. htp_bls12381_g2 (curve_lib C) m \<noteq> Ok 0"
    and "0 < t" "t \<le> n" "dom_new A (unat n) = Some dm" "distinct (gen_keypairs R test_rng n)"
    and "terms_do_not_cancel (setup_dealt_dkg_with E A R hex_decode test_rng shuffle t n)"
    and "gen_range n (snd (scalar_rand R test_rng)) = (slot, rng2)" "slot < n"
    and "gen_keypairs R test_rng n ! unat slot \<noteq> fst (keypair_new R rng2)"
    and "slot_share_nonzero (dealt_ritual E A n (setup_dealt_dkg_with E A R hex_decode test_rng shuffle t n)) slot"
  shows "test_dkg_simple_tdec_handover C E A R hex_decode test_rng shuffle gen_range msg aad n t = Ok ()"
  using assms(1-13) assms(14)[unfolded setup_dealt_dkg_with_def setup_dealt_dkg_with_n_validators_def]
proof (rule shared_secret_Ok)
  fix d ts agg cs ct h
  let ?kps = "gen_keypairs R test_rng n" and ?fix = "setup_dealt_dkg_with_n_transcript_dealt E A R hex_decode test_rng shuffle t n n t"
  assume ritual: "dealt_ritual E A n ?fix = Ok (d, ?kps, ts, agg)"
    and S: "session E A d" and d: "security_threshold (params d) = t" "length (validators d) = unat n"
    and keys: "\<And>i. i < length (validators d) \<Longrightarrow> v_public_key (snd (validators d ! i)) = keypair_public_key E (?kps ! i)"
    and lk: "length ?kps = length (validators d)"
    and cs: "length cs = unat t" "length cs \<le> length (validators d)" "aggregate_pvss agg = dealt E A d cs"
    and ct: "encrypt C E R msg aad (agg_public_key agg) test_rng = (Ok ct, snd (scalar_rand R test_rng))" "ct_header C ct = Ok h"
    and h: "header_check C E h aad = Ok True"
    and old: "create_shared_secret_simple_tdec C E A d aad h ?kps ts =
      Ok (agg, map (slot_share E A d cs (hdr_commitment h) ?kps) [0..<length cs], SharedSecret (pair E (hdr_commitment h) (g2_mul E (g2_generator E) (peval cs 0))))"
  obtain incoming rng3 where new: "keypair_new R rng2 = (incoming, rng3)" by fastforce
  then have fresh: "decryption_key incoming \<noteq> 0" "?kps ! unat slot \<noteq> incoming"
    using assms(4)[rule_format, of rng2] assms(17) by (auto simp: keypair_new_def split: prod.splits)
  have nz: "dealt_shares E A d cs ! unat slot \<noteq> 0"
    using assms(18) ritual cs(3)
    by (simp add: slot_share_nonzero_def setup_dealt_dkg_with_def setup_dealt_dkg_with_n_validators_def)
  have slot: "unat slot < length (validators d)" using d(2) assms(16) by (simp add: word_less_nat_alt)
  have "length cs = unat (security_threshold (params d))" using cs(1) d(1) by simp
  from S cs(3) this cs(2) slot lk fresh(1) keys h fresh(2) nz show ?thesis
  proof (rule session.handover_round)
    fix after ss assume "length ss = length cs" "hand_over_slot E A R d ?kps agg slot incoming rng3 = Ok after"
      "compare_aggregates (aggregate_pvss agg) after n slot = Ok ()"
      "share_combine_simple E ss (prepare_combine_simple (take (length cs) (domain_points A d))) =
        SharedSecret (pair E (hdr_commitment h) (g2_mul E (g2_generator E) (peval cs 0)))"
      "try_map (\<lambda>(index, kp). unwrap (create_decryption_share_simple C E after h aad
        (if index = unat slot then incoming else kp) (of_nat index)) :: _ result) (take (length cs) (enumerate 0 ?kps)) = Ok ss"
    then show ?thesis
      using ritual ct old assms(15) new d(1) cs(1,2) session.length_domain_points[OF S]
      by (simp add: test_dkg_simple_tdec_handover_def setup_dealt_dkg_with_def setup_dealt_dkg_with_n_validators_def
          slice_range_def)
  qed
qed

lemma sample_slot:
  "terms_do_not_cancel (setup_dealt_dkg_with E17 A17 R17 hex_pairs 0 (\<lambda>xs r. (rev xs, r)) 3 4)"
  "gen_keypairs R17 0 4 ! unat (1 :: u32) \<noteq> fst (keypair_new R17 9)"
  "slot_share_nonzero (dealt_ritual E17 A17 4 (setup_dealt_dkg_with E17 A17 R17 hex_pairs 0 (\<lambda>xs r. (rev xs, r)) 3 4)) 1"
  by code_simp+

theorem handover_scenario_succeeds_witness:
  "test_dkg_simple_tdec_handover C17 E17 A17 R17 hex_pairs 0 (\<lambda>xs r. (rev xs, r)) (\<lambda>_ r. (1, r + 8)) [10, 20] [1] 4 3 = Ok ()"
  by (intro handover_scenario_succeeds[OF e17.pairing_laws_axioms sample_domain r17.rand_laws_axioms sample_generator
        hex.hex_laws_axioms _ c17.crypto_laws_axioms sample_primitives _ _ sample_dealers(1,2) sample_slot(1) _ _
        sample_slot(2,3)])
    (simp_all add: R17_def)

end
