(* ===== verification/Verification_Scenarios.thy ===== *)
theory Verification_Scenarios
  imports Api_Scenarios
begin

text \<open>
  The verification scenarios of \<open>ferveo/src/api.rs\<close> (module \<open>test_ferveo_api\<close>): an aggregate is verified
  against the messages of the ritual, by a validator and by a client, and every aggregate that was not
  made from exactly these messages is refused.
\<close>

section \<open>Operations\<close>

text \<open>\<open>assert!(matches!(result, Err(pattern)))\<close> and \<open>assert!(result.is_ok())\<close>.\<close>

definition assert_matches :: "(error \<Rightarrow> bool) \<Rightarrow> 'a result \<Rightarrow> unit result" where
  "assert_matches pattern res = (case res of Err e \<Rightarrow> rust_assert (pattern e) | _ \<Rightarrow> Panic)"

definition assert_ok :: "'a result \<Rightarrow> unit result" where
  "assert_ok res = (case res of Ok _ \<Rightarrow> Ok () | _ \<Rightarrow> Panic)"

fun is_parameter_error :: "error \<Rightarrow> bool" where
  "is_parameter_error (InvalidAggregateVerificationParameters _ _) = True"
| "is_parameter_error _ = False"

definition client_side_local_verification ::
  "('f::field, 'g1::ab_group_add, 'g2::ab_group_add, 'gt::comm_monoid_mult) pairing \<Rightarrow>
    ('f, 'g1, 'd) ark_poly \<Rightarrow> ('f, 'r) ark_rand \<Rightarrow> (bytes \<Rightarrow> bytes option) \<Rightarrow> 'r \<Rightarrow>
    (('g1, 'g2) validator_message list \<Rightarrow> 'r \<Rightarrow> ('g1, 'g2) validator_message list \<times> 'r) \<Rightarrow>
    'r \<Rightarrow> u32 \<Rightarrow> u32 \<Rightarrow> unit result"
where
  "client_side_local_verification E A R hex_decode test_rng shuffle seed_rng n t =
     (let (res, rng1) = make_test_inputs E A R hex_decode test_rng shuffle seed_rng fixture_tau t n n in
      and_then res (\<lambda>(all_messages, _, _).
      and_then (slice_range all_messages 0 (unat n)) (\<lambda>messages.
      and_then (unwrap (api_aggregated_transcript_new messages)) (\<lambda>good_aggregate.
      let result = api_aggregated_transcript_verify E A good_aggregate n t messages in
      and_then (assert_ok result) (\<lambda>_.
      and_then (unwrap result) (\<lambda>valid.
      and_then (rust_assert valid) (\<lambda>_.
      and_then (assert_matches is_parameter_error (api_aggregated_transcript_verify E A good_aggregate
        (of_nat (length messages) - 1) t messages)) (\<lambda>_.
      and_then (assert_matches ((=) NoTranscriptsToAggregate)
        (api_aggregated_transcript_new ([] :: ('g1, 'g2) validator_message list))) (\<lambda>_.
      and_then (slice_range messages 0 (unat t - 1)) (\<lambda>not_enough_messages.
      and_then (rust_assert (length not_enough_messages < unat t)) (\<lambda>_.
      and_then (unwrap (api_aggregated_transcript_new not_enough_messages)) (\<lambda>insufficient_aggregate.
      and_then (assert_matches ((=) InvalidTranscriptAggregate)
        (api_aggregated_transcript_verify E A insufficient_aggregate n t messages)) (\<lambda>_.
      and_then (fst (make_test_inputs E A R hex_decode test_rng shuffle rng1 fixture_tau t n n)) (\<lambda>(bad_messages, _, _).
      and_then (slice_range messages 0 2) (\<lambda>first_two.
      and_then (slice_range bad_messages 0 1) (\<lambda>bad_one.
      and_then (unwrap (api_aggregated_transcript_new (first_two @ bad_one))) (\<lambda>bad_aggregate.
      assert_matches ((=) InvalidTranscriptAggregate)
        (api_aggregated_transcript_verify E A bad_aggregate n t messages))))))))))))))))))"

text \<open>Where \<open>t - 2\<close> is computed, \<open>t\<close> is at least 2: aggregating the first \<open>t - 1\<close> messages has succeeded.\<close>

definition server_side_local_verification ::
  "('f::field, 'g1::ab_group_add, 'g2::ab_group_add, 'gt::comm_monoid_mult) pairing \<Rightarrow>
    ('f, 'g1, 'd) ark_poly \<Rightarrow> ('f, 'r) ark_rand \<Rightarrow> (bytes \<Rightarrow> bytes option) \<Rightarrow> 'r \<Rightarrow>
    (('g1, 'g2) validator_message list \<Rightarrow> 'r \<Rightarrow> ('g1, 'g2) validator_message list \<times> 'r) \<Rightarrow>
    'r \<Rightarrow> u32 \<Rightarrow> u32 \<Rightarrow> unit result"
where
  "server_side_local_verification E A R hex_decode test_rng shuffle seed_rng n t =
     (let (res, rng1) = make_test_inputs E A R hex_decode test_rng shuffle seed_rng fixture_tau t n n in
      and_then res (\<lambda>(all_messages, vs, _).
      and_then (slice_range all_messages 0 (unat n)) (\<lambda>messages.
      and_then (slice_index vs 0) (\<lambda>self.
      let new_dkg = unwrap (api_dkg_new A fixture_tau n t vs self) in
      and_then new_dkg (\<lambda>dkg.
      and_then (unwrap (api_aggregate_transcripts E dkg messages)) (\<lambda>good_aggregate.
      and_then (assert_ok (api_aggregated_transcript_verify E A good_aggregate n t messages)) (\<lambda>_.
      and_then (assert_matches is_parameter_error (api_aggregated_transcript_verify E A good_aggregate
        (of_nat (length messages) - 1) t messages)) (\<lambda>_.
      and_then new_dkg (\<lambda>dkg.
      and_then (assert_matches ((=) NoTranscriptsToAggregate)
        (api_aggregate_transcripts E dkg ([] :: ('g1, 'g2) validator_message list))) (\<lambda>_.
      and_then new_dkg (\<lambda>dkg.
      and_then (slice_range messages 0 (unat t - 1)) (\<lambda>not_enough_messages.
      and_then (rust_assert (length not_enough_messages < unat t)) (\<lambda>_.
      and_then (unwrap (api_aggregate_transcripts E dkg not_enough_messages)) (\<lambda>insufficient_aggregate.
      and_then (assert_matches ((=) InvalidTranscriptAggregate)
        (api_aggregated_transcript_verify E A insufficient_aggregate n t messages)) (\<lambda>_.
      and_then (slice_index vs (unat t - 1)) (\<lambda>v1.
      and_then (slice_index messages (unat t - 1)) (\<lambda>m1.
      and_then (slice_index messages (unat t - 2)) (\<lambda>m2.
      and_then (assert_err (api_aggregate_transcripts E dkg [(v1, snd m1), (v1, snd m2)])) (\<lambda>_.
      and_then (slice_index vs (unat t - 2)) (\<lambda>v2.
      and_then (assert_err (api_aggregate_transcripts E dkg [(v1, snd m1), (v2, snd m1)])) (\<lambda>_.
      and_then new_dkg (\<lambda>dkg.
      and_then (unwrap (fst (api_generate_transcript E A R dkg rng1))) (\<lambda>bad_transcript.
      let mixed_messages = not_enough_messages @ [(fst m1, bad_transcript)] in
      and_then (rust_assert (length mixed_messages = unat t)) (\<lambda>_.
      and_then (unwrap (api_aggregate_transcripts E dkg mixed_messages)) (\<lambda>bad_aggregate.
      assert_matches ((=) InvalidTranscriptAggregate)
        (api_aggregated_transcript_verify E A bad_aggregate n t messages))))))))))))))))))))))))))"

section \<open>Verification against honest messages\<close>

text \<open>The number of coefficients up to the last nonzero one.\<close>

definition pinned_length :: "'a::zero list \<Rightarrow> nat" where
  "pinned_length Fs = (case rposition (\<lambda>c. c \<noteq> 0) Fs of None \<Rightarrow> 0 | Some i \<Rightarrow> i + 1)"

context session begin

lemma honest_messages_optimistic:
  assumes "unat (security_threshold (params d)) \<le> length (dom_elements A (domain d))" "list_all (honest_message E A d) ms"
  shows "list_all (verify_optimistic E) (map snd ms)"
  using honest_message_verifies[OF session_axioms assms(1)] assms(2) by (auto simp: list_all_iff)

lemma dealt_optimistic:
  assumes "cs \<noteq> []"
  shows "verify_optimistic E (dealt E A d cs) \<longleftrightarrow> hd (coeffs (dealt E A d cs)) \<noteq> 0"
  unfolding verify_optimistic_iff using assms by (cases cs) (auto simp: peval_zero_point)

lemma dealt_verify_full:
  assumes "unat (security_threshold (params d)) \<le> length (dom_elements A (domain d))"
    and "length cs = unat (security_threshold (params d))" "mset vs = mset (map snd (validators d))"
    and "hd (coeffs (dealt E A d cs)) \<noteq> 0"
  shows "do_verify_full E A (coeffs (dealt E A d cs)) (shares (dealt E A d cs)) vs (domain d) (security_threshold (params d)) =
    (if last (coeffs (dealt E A d cs)) = 0 then Err (InvalidTranscriptDegree (security_threshold (params d))
       (of_nat (pinned_length (coeffs (dealt E A d cs))))) else Ok True)"
proof (cases "last (coeffs (dealt E A d cs)) = 0")
  case True
  have ix: "map v_share_index (map snd (validators d)) = map fst (validators d)"
    using dkg_wf_nth(1,2)[OF wf] by (intro nth_equalityI) simp_all
  have "distinct (map v_share_index vs)"
    unfolding distinct_map_perm[OF assms(3)] ix by (rule dkg_wf_distinct[OF wf])
  then have "assert_no_share_duplicates vs = Ok ()" by (simp add: outcome_simps)
  moreover have "pinned_length (coeffs (dealt E A d cs)) \<noteq> unat (security_threshold (params d))"
    using rposition_full[of "\<lambda>c. c \<noteq> 0" "coeffs (dealt E A d cs)"] True assms(2) threshold_pos
    by (auto simp: pinned_length_def)
  ultimately show ?thesis
    using True assms(2) by (simp add: do_verify_full_def pinned_length_def Let_def)
next
  case False
  have "cs \<noteq> []" using assms(2) threshold_pos by auto
  then have "hd cs \<noteq> 0" "last cs \<noteq> 0" using assms(4) False by (auto simp: hd_map last_map)
  then have "verify_full E A (dealt E A d cs) d = Ok True" by (rule dealt_verifies(1)[OF assms(1,2)])
  then show ?thesis
    using False do_verify_full_perm[OF threshold_pos assms(3), of E A] by (simp add: verify_full_def)
qed

text \<open>The outcome of verifying, against honest messages, the aggregate of a polynomial.\<close>

lemma dealt_aggregate_decided:
  assumes "unat (security_threshold (params d)) \<le> length (dom_elements A (domain d))"
    and "list_all (honest_message E A d) ms" "mset (map fst ms) = mset (map snd (validators d))"
    and "length (validators d) = unat n"
    and "aggregate_pvss agg = dealt E A d cs" "length cs = unat (security_threshold (params d))"
    and "agg_public_key agg = DkgPublicKey (g1_mul E (g1_generator E) (peval cs 0))"
  shows "api_aggregated_transcript_verify E A agg n (security_threshold (params d)) ms =
    (let Fs = coeffs (aggregate_pvss agg) in
     if hd Fs = 0 then Err InvalidTranscriptAggregate
     else if last Fs = 0 then Err (InvalidTranscriptDegree (security_threshold (params d)) (of_nat (pinned_length Fs)))
     else if sum_list (map (hd \<circ> coeffs \<circ> snd) ms) = hd Fs then Ok True else Err InvalidTranscriptAggregate)"
proof -
  let ?t = "security_threshold (params d)" and ?p = "dealt E A d cs"
  have len: "length ms = unat n" using mset_eq_length[OF assms(3)] assms(4) by simp
  have ne: "ms \<noteq> []" "of_nat (length ms) = n" using len assms(4) validators_nonempty by (auto simp: of_nat_unat_u32)
  have dm: "dom_new A (unat n) = Some (domain d)" using dkg_wf_domain[OF wf] assms(4) by simp
  have cs: "cs \<noteq> []" using assms(6) threshold_pos by auto
  then have first: "slice_first (coeffs ?p) = Some (hd (coeffs ?p))"
      "hd (coeffs ?p) = g1_mul E (g1_generator E) (peval cs 0)"
    by (cases cs; simp add: peval_zero_point)+
  have fold: "(try_fold (\<lambda>acc pvss. and_then (ok_or (slice_first (coeffs pvss)) EmptyTranscript) (\<lambda>f_0.
      if \<not> verify_optimistic E pvss then Err InvalidTranscriptAggregate
      else Ok (acc + into_group f_0))) 0 (map snd ms) :: _ result) = Ok (sum_list (map (hd \<circ> coeffs \<circ> snd) ms))"
    unfolding fold_constant_terms using honest_messages_optimistic[OF assms(1,2)] by (simp add: comp_assoc)
  show ?thesis
    using ne first dm fold dealt_optimistic[OF cs] dealt_verify_full[OF assms(1,6,3)] assms(7)
    unfolding api_aggregated_transcript_verify_def do_verify_aggregation_def assms(5)
    by (simp add: Let_def del: dealt_simps)
qed

end

text \<open>Two lists of transcripts that the verification can tell apart: the constant terms have
  different sums, and the first list aggregates to a polynomial of full degree.\<close>

definition tells_apart :: "('g1::ab_group_add, 'g2::ab_group_add) pvss list \<Rightarrow> ('g1, 'g2) pvss list \<Rightarrow> bool" where
  "tells_apart ts ts' \<longleftrightarrow> (case from_transcripts ts of
     Ok a \<Rightarrow> (case from_transcripts ts' of
       Ok b \<Rightarrow> hd (coeffs (aggregate_pvss a)) \<noteq> hd (coeffs (aggregate_pvss b)) \<and> last (coeffs (aggregate_pvss a)) \<noteq> 0
     | _ \<Rightarrow> True) | _ \<Rightarrow> True)"

context session begin

lemma other_aggregate_refused:
  assumes "unat (security_threshold (params d)) \<le> length (dom_elements A (domain d))"
    and "list_all (honest_message E A d) ms" "mset (map fst ms) = mset (map snd (validators d))"
    and "length (validators d) = unat n" "from_transcripts (map snd ms) = Ok good"
    and "verify_aggregation E A (aggregate_pvss good) d (map snd ms) = Ok True"
    and "list_all (honest_message E A d) ps" "ps \<noteq> []" "tells_apart (map snd ps) (map snd ms)"
  obtains agg where "from_transcripts (map snd ps) = Ok agg"
    "api_aggregated_transcript_verify E A agg n (security_threshold (params d)) ms = Err InvalidTranscriptAggregate"
proof (rule honest_messages_aggregate[OF assms(1,7,8)])
  fix cs agg
  assume agg: "length cs = unat (security_threshold (params d))" "from_transcripts (map snd ps) = Ok agg"
    "aggregate_pvss agg = dealt E A d cs" "agg_public_key agg = DkgPublicKey (g1_mul E (g1_generator E) (peval cs 0))"
  have "sum_list (map (hd \<circ> coeffs \<circ> snd) ms) = hd (coeffs (aggregate_pvss good))"
    using assms(6) unfolding verify_aggregation_Ok by (simp add: comp_assoc)
  moreover have "hd (coeffs (aggregate_pvss agg)) \<noteq> hd (coeffs (aggregate_pvss good))"
      "last (coeffs (aggregate_pvss agg)) \<noteq> 0"
    using assms(5,9) agg(2) by (simp_all add: tells_apart_def)
  ultimately have "api_aggregated_transcript_verify E A agg n (security_threshold (params d)) ms = Err InvalidTranscriptAggregate"
    unfolding dealt_aggregate_decided[OF assms(1-4) agg(3,1,4)] by (auto simp: Let_def)
  with agg(2) show ?thesis by (rule that)
qed

end

lemma make_test_inputs_validators:
  assumes "make_test_inputs E A R hex_decode test_rng shuffle rng ritual t n vn = (Ok (ms, vs, kps), rng')"
  shows "gen_validators E hex_decode (gen_keypairs R test_rng vn) = Ok vs" "kps = gen_keypairs R test_rng vn"
  using assms by (auto simp: make_test_inputs_def Let_def split: outcome.splits prod.splits)

text \<open>Two runs of the inputs deal in the same context.\<close>

lemma second_inputs:
  assumes "pairing_laws E" "domain_laws (g1_mul E) A" "rand_laws R" "\<forall>r. fst (scalar_rand R r) \<noteq> 0"
    and "hex_laws hex_decode" "\<forall>xs r. mset (fst (shuffle xs r)) = mset xs"
    and "0 < t" "t \<le> n" "dom_new A (unat n) = Some dm"
    and "make_test_inputs E A R hex_decode test_rng shuffle rng fixture_tau t n n = (Ok (bad, vs', kps), rng')"
    and "gen_validators E hex_decode (gen_keypairs R test_rng n) = Ok vs" "v \<in> set vs"
    and "api_dkg_new A fixture_tau n t vs v = Ok (d\<lparr> me := v \<rparr>)"
  shows "list_all (honest_message E A d) bad \<and> length bad = unat n"
  using assms(1-9)
proof (rule test_inputs)
  fix d2 ms vs2 rng2
  assume inputs: "make_test_inputs E A R hex_decode test_rng shuffle rng fixture_tau t n n =
      (Ok (ms, vs2, gen_keypairs R test_rng n), rng2)"
    and new: "\<And>v. v \<in> set vs2 \<Longrightarrow> api_dkg_new A fixture_tau n t vs2 v = Ok (d2\<lparr> me := v \<rparr>)"
    and ms: "mset (map fst ms) = mset vs2" "list_all (honest_message E A d2) ms" "length vs2 = unat n"
  have "vs2 = vs" using make_test_inputs_validators(1)[OF inputs] assms(11) by simp
  then have "d2\<lparr> me := v \<rparr> = d\<lparr> me := v \<rparr>" using new assms(12,13) by simp
  then have "(d2\<lparr> me := v \<rparr>)\<lparr> me := me d2 \<rparr> = (d\<lparr> me := v \<rparr>)\<lparr> me := me d2 \<rparr>" by simp
  then have "d2 = d\<lparr> me := me d2 \<rparr>" by simp
  then have "list_all (honest_message E A (d\<lparr> me := me d2 \<rparr>)) ms" using ms(2) by simp
  moreover have "honest_message E A (d\<lparr> me := m \<rparr>) = honest_message E A d" for m
    by (simp add: fun_eq_iff honest_message_def dealt_me)
  ultimately have "list_all (honest_message E A d) ms" by simp
  moreover have "length ms = unat n" using mset_eq_length[OF ms(1)] ms(3) by simp
  ultimately show ?thesis using inputs assms(10) by simp
qed

lemma generate_transcript_me: "generate_transcript E A R (d\<lparr> me := m \<rparr>) rng = generate_transcript E A R d rng"
  by (simp add: generate_transcript_def pvss_new_def domain_points_def cong: if_cong)

context session begin

text \<open>Some of the honest messages, with a further transcript under the name of a dealer whose message
  is not among them.\<close>

lemma honest_mixture:
  assumes "list_all (honest_message E A d) ms" "distinct (map (v_address \<circ> fst) ms)" "distinct (map snd ms)"
    and "k < length ms" "length ms \<le> length (validators d)"
    and "rand_laws R" "\<And>r. fst (scalar_rand R r) \<noteq> 0" "generate_transcript E A R d rng = (Ok p, rng')"
    and "p \<notin> set (map snd (take k ms))"
    and "unat (security_threshold (params d)) \<le> length (dom_elements A (domain d))"
  defines "mixed \<equiv> take k ms @ [(fst (ms ! k), p)]"
  shows "list_all (honest_message E A d) mixed" "verify_transcripts E (d\<lparr> me := m \<rparr>) mixed = Ok ()"
proof -
  have "fst (ms ! k) \<in> snd ` set (validators d)"
    using assms(1,4) by (auto simp: list_all_iff honest_message_def)
  moreover obtain cs where "p = dealt E A d cs" "length cs = unat (security_threshold (params d))" "hd cs \<noteq> 0" "last cs \<noteq> 0"
    using generated_transcript_dealt[OF assms(6,7), of rng] assms(8) by auto
  ultimately have "honest_message E A d (fst (ms ! k), p)" by (auto simp: honest_message_def)
  then show honest: "list_all (honest_message E A d) mixed"
    using assms(1) by (auto simp: mixed_def list_all_iff dest: in_set_takeD)
  have "map (v_address \<circ> fst) mixed = take (Suc k) (map (v_address \<circ> fst) ms)"
    using assms(4) by (simp add: mixed_def take_map take_Suc_conv_app_nth)
  then have addr: "distinct (map (v_address \<circ> fst) mixed)" using assms(2) by (simp only: distinct_take)
  have "distinct (map snd mixed)" using assms(3,9) by (simp add: mixed_def distinct_take flip: take_map)
  moreover have "length mixed \<le> length (validators d)" using assms(4,5) by (simp add: mixed_def)
  ultimately show "verify_transcripts E (d\<lparr> me := m \<rparr>) mixed = Ok ()"
    by (rule honest_verify_transcripts[OF assms(10) honest addr])
qed

end

section \<open>The scenarios\<close>

lemma no_transcripts: "from_transcripts [] = Err NoTranscriptsToAggregate"
  by (simp add: from_transcripts_def aggregate_def)

lemma no_messages: "api_aggregate_transcripts E d [] = Err NoTranscriptsToAggregate"
  by (simp add: api_aggregate_transcripts_def aggregate_transcripts_def verify_transcripts_def no_transcripts)

lemma too_few_validators:
  assumes "length ms = unat n" "ms \<noteq> []"
  shows "api_aggregated_transcript_verify E A agg (of_nat (length ms) - 1) t ms =
    Err (InvalidAggregateVerificationParameters (n - 1) n)"
proof -
  have "0 < unat n" using assms by (metis length_greater_0_conv)
  moreover from this have "n \<noteq> 0" by auto
  ultimately have "n - 1 < n" by (simp add: word_less_nat_alt unat_minus_one)
  then show ?thesis using assms by (auto simp: api_aggregated_transcript_verify_def of_nat_unat_u32)
qed

lemma duplicates_refused:
  assumes "\<not> (distinct (map (v_address \<circ> fst) msgs) \<and> distinct (map snd msgs))"
  shows "assert_err (api_aggregate_transcripts E d msgs) = Ok ()"
proof -
  have "verify_transcripts E d msgs \<noteq> Ok ()" using assms by (auto simp: verify_transcripts_Ok)
  then obtain e where "verify_transcripts E d msgs = Err e" by (cases "verify_transcripts E d msgs") auto
  then show ?thesis by (simp add: api_aggregate_transcripts_def aggregate_transcripts_def)
qed

text \<open>What both scenarios rest on: the context, the accepted aggregate, and that others are refused.\<close>

lemma verified_inputs:
  assumes "pairing_laws E" "domain_laws (g1_mul E) A" "rand_laws R" "\<forall>r. fst (scalar_rand R r) \<noteq> 0"
    and "hex_laws hex_decode" "\<forall>xs r. mset (fst (shuffle xs r)) = mset xs"
    and "0 < t" "t \<le> n" "dom_new A (unat n) = Some dm"
    and "make_test_inputs E A R hex_decode test_rng shuffle seed_rng fixture_tau t n n = (Ok (ms, vs, kps), rng1)"
    and "generic_inputs (Ok (ms, vs, kps))"
  obtains d agg where "session E A d" "length (validators d) = unat n" "length vs = unat n" "length ms = unat n"
    "unat (security_threshold (params d)) \<le> length (dom_elements A (domain d))"
    "list_all (honest_message E A d) ms" "distinct (map (v_address \<circ> fst) ms)" "distinct (map snd ms)"
    "from_transcripts (map snd ms) = Ok agg" "api_aggregated_transcript_verify E A agg n t ms = Ok True"
    "\<And>v. v \<in> set vs \<Longrightarrow> api_dkg_new A fixture_tau n t vs v = Ok (d\<lparr> me := v \<rparr>)"
    "\<And>ps. list_all (honest_message E A d) ps \<Longrightarrow> ps \<noteq> [] \<Longrightarrow> tells_apart (map snd ps) (map snd ms) \<Longrightarrow>
      \<exists>agg'. from_transcripts (map snd ps) = Ok agg' \<and>
        api_aggregated_transcript_verify E A agg' n t ms = Err InvalidTranscriptAggregate"
proof -
  have generic: "generic_inputs (fst (make_test_inputs E A R hex_decode test_rng shuffle seed_rng fixture_tau t n n))"
    using assms(10,11) by simp
  from assms(1-9) generic show ?thesis
  proof (rule api_ritual_Ok)
    fix d ms' vs' rng' agg
    assume inputs: "make_test_inputs E A R hex_decode test_rng shuffle seed_rng fixture_tau t n n =
        (Ok (ms', vs', gen_keypairs R test_rng n), rng')"
      and S: "session E A d" and d: "security_threshold (params d) = t" "map snd (validators d) = vs'"
        "length vs' = unat n" "length ms' = unat n"
      and agg: "from_transcripts (map snd ms') = Ok agg" "verify_aggregation E A (aggregate_pvss agg) d (map snd ms') = Ok True"
        "api_aggregated_transcript_verify E A agg n t ms' = Ok True"
      and new: "\<And>v. v \<in> set vs' \<Longrightarrow> api_dkg_new A fixture_tau n t vs' v = Ok (d\<lparr> me := v \<rparr>)"
      and tdm: "unat t \<le> length (dom_elements A (domain d))"
      and ms: "list_all (honest_message E A d) ms'" "mset (map fst ms') = mset vs'"
        "distinct (map (v_address \<circ> fst) ms')" "distinct (map snd ms')"
    have same: "ms' = ms" "vs' = vs" using inputs assms(10) by simp_all
    have lv: "length (validators d) = unat n" using arg_cong[OF d(2), of length] d(3) by simp
    have "\<exists>agg'. from_transcripts (map snd ps) = Ok agg' \<and>
        api_aggregated_transcript_verify E A agg' n t ms' = Err InvalidTranscriptAggregate"
      if "list_all (honest_message E A d) ps" "ps \<noteq> []" "tells_apart (map snd ps) (map snd ms')" for ps
      using session.other_aggregate_refused[OF S tdm[folded d(1)] ms(1) _ lv agg(1,2) that] ms(2) d(1,2) by auto
    then show ?thesis using that[OF S lv] d tdm ms agg new by (simp add: same)
  qed
qed

text \<open>The negative cases do not depend on chance beyond the sums of the constant and leading terms.\<close>

lemma client_side_scenario_succeeds:
  assumes "pairing_laws E" "domain_laws (g1_mul E) A" "rand_laws R" "\<forall>r. fst (scalar_rand R r) \<noteq> 0"
    and "hex_laws hex_decode" "\<forall>xs r. mset (fst (shuffle xs r)) = mset xs"
    and "1 < t" "t \<le> n" "dom_new A (unat n) = Some dm"
    and "make_test_inputs E A R hex_decode test_rng shuffle seed_rng fixture_tau t n n = (Ok (ms, vs, kps), rng1)"
    and "make_test_inputs E A R hex_decode test_rng shuffle rng1 fixture_tau t n n = (Ok (bad, vs', kps'), rng2)"
    and "generic_inputs (Ok (ms, vs, kps))" "tells_apart (map snd (take (unat t - 1) ms)) (map snd ms)"
    and "tells_apart (map snd (take 2 ms @ take 1 bad)) (map snd ms)"
  shows "client_side_local_verification E A R hex_decode test_rng shuffle seed_rng n t = Ok ()"
proof -
  have t: "0 < t" "1 < unat t" "unat t \<le> unat n" using assms(7,8) by (auto simp: word_less_nat_alt word_le_nat_alt)
  from assms(1-6) t(1) assms(8-10,12) show ?thesis
  proof (rule verified_inputs)
    fix d agg
    assume len: "length vs = unat n" "length ms = unat n" and ms: "list_all (honest_message E A d) ms"
      and agg: "from_transcripts (map snd ms) = Ok agg" "api_aggregated_transcript_verify E A agg n t ms = Ok True"
      and new: "\<And>v. v \<in> set vs \<Longrightarrow> api_dkg_new A fixture_tau n t vs v = Ok (d\<lparr> me := v \<rparr>)"
      and refused: "\<And>ps. list_all (honest_message E A d) ps \<Longrightarrow> ps \<noteq> [] \<Longrightarrow> tells_apart (map snd ps) (map snd ms) \<Longrightarrow>
        \<exists>agg'. from_transcripts (map snd ps) = Ok agg' \<and>
          api_aggregated_transcript_verify E A agg' n t ms = Err InvalidTranscriptAggregate"
    have v: "vs ! 0 \<in> set vs" using len(1) t(2,3) by simp
    have bad: "list_all (honest_message E A d) bad" "length bad = unat n"
      using second_inputs[OF assms(1-6) t(1) assms(8,9,11) make_test_inputs_validators(1)[OF assms(10)] v new[OF v]] by simp_all
    have few: "list_all (honest_message E A d) (take (unat t - 1) ms)" "take (unat t - 1) ms \<noteq> []"
      and mixed: "list_all (honest_message E A d) (take 2 ms @ take 1 bad)" "take 2 ms @ take 1 bad \<noteq> []"
      using ms bad(1) len(2) t(2,3) by (auto simp: list_all_iff dest: in_set_takeD)
    have "api_aggregated_transcript_verify E A agg (of_nat (length ms) - 1) t ms =
        Err (InvalidAggregateVerificationParameters (n - 1) n)"
      by (rule too_few_validators) (use len(2) few(2) in auto)
    then show ?thesis
      using assms(10,11) len(2) bad(2) t(2,3) agg refused[OF few assms(13)] refused[OF mixed assms(14)]
      by (auto simp: client_side_local_verification_def slice_range_def api_aggregated_transcript_new_def
          assert_ok_def assert_matches_def no_transcripts)
  qed
qed

lemma server_side_scenario_succeeds:
  assumes "pairing_laws E" "domain_laws (g1_mul E) A" "rand_laws R" "\<forall>r. fst (scalar_rand R r) \<noteq> 0"
    and "hex_laws hex_decode" "\<forall>xs r. mset (fst (shuffle xs r)) = mset xs"
    and "1 < t" "t \<le> n" "dom_new A (unat n) = Some dm"
    and "make_test_inputs E A R hex_decode test_rng shuffle seed_rng fixture_tau t n n = (Ok (ms, vs, kps), rng1)"
    and "api_dkg_new A fixture_tau n t vs (vs ! 0) = Ok dkg" "generate_transcript E A R dkg rng1 = (Ok p, rng2)"
    and "generic_inputs (Ok (ms, vs, kps))" "tells_apart (map snd (take (unat t - 1) ms)) (map snd ms)"
    and "p \<notin> set (map snd (take (unat t - 1) ms))" "tells_apart (map snd (take (unat t - 1) ms) @ [p]) (map snd ms)"
  shows "server_side_local_verification E A R hex_decode test_rng shuffle seed_rng n t = Ok ()"
proof -
  have t: "0 < t" "1 < unat t" "unat t \<le> unat n" using assms(7,8) by (auto simp: word_less_nat_alt word_le_nat_alt)
  from assms(1-6) t(1) assms(8-10,13) show ?thesis
  proof (rule verified_inputs)
    fix d agg
    let ?few = "take (unat t - 1) ms" and ?m1 = "ms ! (unat t - 1)"
    let ?mixed = "?few @ [(fst ?m1, p)]"
    assume S: "session E A d" and len: "length (validators d) = unat n" "length vs = unat n" "length ms = unat n"
      and tdm: "unat (security_threshold (params d)) \<le> length (dom_elements A (domain d))"
      and ms: "list_all (honest_message E A d) ms" "distinct (map (v_address \<circ> fst) ms)" "distinct (map snd ms)"
      and agg: "from_transcripts (map snd ms) = Ok agg" "api_aggregated_transcript_verify E A agg n t ms = Ok True"
      and new: "\<And>v. v \<in> set vs \<Longrightarrow> api_dkg_new A fixture_tau n t vs v = Ok (d\<lparr> me := v \<rparr>)"
      and refused: "\<And>ps. list_all (honest_message E A d) ps \<Longrightarrow> ps \<noteq> [] \<Longrightarrow> tells_apart (map snd ps) (map snd ms) \<Longrightarrow>
        \<exists>agg'. from_transcripts (map snd ps) = Ok agg' \<and>
          api_aggregated_transcript_verify E A agg' n t ms = Err InvalidTranscriptAggregate"
    have k: "unat t - 1 < length ms" "length ms \<le> length (validators d)" "unat t - 2 < length ms" "vs \<noteq> []"
      using len t by auto
    have dkg: "dkg = d\<lparr> me := vs ! 0 \<rparr>" using new[of "vs ! 0"] assms(11) k(4) by simp
    have few: "list_all (honest_message E A d) ?few" "?few \<noteq> []"
      using ms(1) k(1) t(2) by (auto simp: list_all_iff dest: in_set_takeD)
    have p: "generate_transcript E A R d rng1 = (Ok p, rng2)" using assms(12) by (simp add: dkg generate_transcript_me)
    note mixed = session.honest_mixture[OF S ms k(1,2) assms(3) assms(4)[rule_format] p assms(15) tdm]
    have "distinct (map (v_address \<circ> fst) ?few)" "distinct (map snd ?few)" "length ?few \<le> length (validators d)"
      using ms(2,3) k by (simp_all add: distinct_take flip: take_map)
    then have accepted: "verify_transcripts E dkg ?few = Ok ()" "verify_transcripts E dkg ms = Ok ()"
        "verify_transcripts E dkg ?mixed = Ok ()"
      using session.honest_verify_transcripts[OF S tdm] few(1) ms k(2) mixed(2)[of "vs ! 0"] by (simp_all add: dkg)
    obtain few_agg where "api_aggregate_transcripts E dkg ?few = Ok few_agg"
        "api_aggregated_transcript_verify E A few_agg n t ms = Err InvalidTranscriptAggregate"
      using refused[OF few assms(14)] accepted(1) by (auto simp: api_aggregate_transcripts_def aggregate_transcripts_def)
    moreover obtain bad_agg where "api_aggregate_transcripts E dkg ?mixed = Ok bad_agg"
        "api_aggregated_transcript_verify E A bad_agg n t ms = Err InvalidTranscriptAggregate"
      using refused[OF mixed(1)] assms(16) accepted(3) by (auto simp: api_aggregate_transcripts_def aggregate_transcripts_def)
    moreover have "api_aggregate_transcripts E dkg ms = Ok agg"
      using agg(1) accepted(2) by (simp add: api_aggregate_transcripts_def aggregate_transcripts_def)
    moreover have "api_aggregated_transcript_verify E A agg (of_nat (length ms) - 1) t ms =
        Err (InvalidAggregateVerificationParameters (n - 1) n)"
      by (rule too_few_validators) (use len(3) few(2) in auto)
    ultimately show ?thesis
      using assms(10-12) len(2,3) t(2,3) k agg(2)
      by (simp add: server_side_local_verification_def slice_range_def slice_index_if duplicates_refused no_messages
          assert_ok_def assert_matches_def api_generate_transcript_def)
  qed
qed

section \<open>Properties\<close>

text \<open>
  C13: what verification of an aggregate decides, on every branch.  Against the messages of all
  validators, honestly dealt, an aggregate of any honest messages (fewer, repeated, or of another run
  of the same validators) is accepted exactly when its constant term is the sum of theirs and neither
  its constant nor its leading term is zero; it is refused as wrong when the constant term is, and
  with the degree found when only the leading term vanishes.
\<close>

theorem aggregate_verification_decides:
  assumes "session E A d" "unat (security_threshold (params d)) \<le> length (dom_elements A (domain d))"
    and "list_all (honest_message E A d) ms" "mset (map fst ms) = mset (map snd (validators d))"
    and "length (validators d) = unat n"
    and "list_all (honest_message E A d) ps" "ps \<noteq> []"
  shows "\<exists>agg. api_aggregated_transcript_new ps = Ok agg \<and>
    api_aggregated_transcript_verify E A agg n (security_threshold (params d)) ms =
      (let Fs = coeffs (aggregate_pvss agg) in
       if hd Fs = 0 then Err InvalidTranscriptAggregate
       else if last Fs = 0 then Err (InvalidTranscriptDegree (security_threshold (params d)) (of_nat (pinned_length Fs)))
       else if sum_list (map (hd \<circ> coeffs \<circ> snd) ms) = hd Fs then Ok True else Err InvalidTranscriptAggregate)"
  using assms(1,2,6,7)
proof (rule session.honest_messages_aggregate)
  fix cs agg
  assume "from_transcripts (map snd ps) = Ok agg" and agg: "length cs = unat (security_threshold (params d))"
    "aggregate_pvss agg = dealt E A d cs" "agg_public_key agg = DkgPublicKey (g1_mul E (g1_generator E) (peval cs 0))"
  with session.dealt_aggregate_decided[OF assms(1-5) agg(2,1,3)] show ?thesis
    unfolding api_aggregated_transcript_new_def by blast
qed

definition sample_honest :: "(f17, f17) validator_message list" where
  "sample_honest = map (\<lambda>i. (snd (validators sample_dkg ! i), dealt E17 A17 sample_dkg [of_nat i + 1, 2, of_nat i + 3])) [0..<4]"

lemma sample_honest_ok: "list_all (honest_message E17 A17 sample_dkg) sample_honest"
proof -
  have "security_threshold (params sample_dkg) = 3" "length (validators sample_dkg) = 4" by code_simp+
  moreover have "of_nat i + 1 \<noteq> (0 :: f17)" "of_nat i + 3 \<noteq> (0 :: f17)" if "i < 4" for i
  proof -
    have "i \<in> set [0, 1, 2, 3]" using that by auto
    moreover have "list_all (\<lambda>i. of_nat i + 1 \<noteq> (0 :: f17) \<and> of_nat i + 3 \<noteq> (0 :: f17)) [0, 1, 2, 3]" by code_simp
    ultimately show "of_nat i + 1 \<noteq> (0 :: f17)" "of_nat i + 3 \<noteq> (0 :: f17)" by (auto simp: list_all_iff)
  qed
  ultimately show ?thesis
    by (fastforce simp: sample_honest_def list_all_iff honest_message_def
        intro!: exI[of _ "[of_nat _ + 1, 2, of_nat _ + 3]"])
qed

theorem aggregate_verification_decides_witness:
  "\<exists>agg. api_aggregated_transcript_new (take 2 sample_honest) = Ok agg \<and>
    api_aggregated_transcript_verify E17 A17 agg 4 3 sample_honest = Err InvalidTranscriptAggregate"
proof -
  have d: "security_threshold (params sample_dkg) = 3" "length (validators sample_dkg) = unat (4 :: u32)" by code_simp+
  have "map fst sample_honest = map snd (validators sample_dkg)" by code_simp
  then have senders: "mset (map fst sample_honest) = mset (map snd (validators sample_dkg))" by simp
  have two: "list_all (honest_message E17 A17 sample_dkg) (take 2 sample_honest)"
    using sample_honest_ok by (auto simp: list_all_iff dest: in_set_takeD)
  have ne: "take 2 sample_honest \<noteq> []" by (simp add: sample_honest_def)
  have "case api_aggregated_transcript_new (take 2 sample_honest) of
      Ok agg \<Rightarrow> (let Fs = coeffs (aggregate_pvss agg) in
        hd Fs \<noteq> 0 \<and> last Fs \<noteq> 0 \<and> sum_list (map (hd \<circ> coeffs \<circ> snd) sample_honest) \<noteq> hd Fs)
    | _ \<Rightarrow> False" by code_simp
  then show ?thesis
    using aggregate_verification_decides[OF session17.session_axioms sample_threshold sample_honest_ok senders d(2) two ne]
    by (auto simp: Let_def d(1))
qed

text \<open>Both scenarios run on the sample field.\<close>

lemma sample_client_side: "client_side_local_verification E17 A17 R17 hex_pairs 0 (\<lambda>xs r. (rev xs, r)) 0 4 3 = Ok ()"
  by code_simp

lemma sample_server_side: "server_side_local_verification E17 A17 R17 hex_pairs 0 (\<lambda>xs r. (rev xs, r)) 0 4 3 = Ok ()"
  by code_simp

end
