(* ===== verification/Share_Scenarios.thy ===== *)
theory Share_Scenarios
  imports Verification_Scenarios
begin

text \<open>
  The share-verification scenarios of \<open>ferveo/src/lib.rs\<close> (module \<open>test_dkg_full\<close>) and \<open>ferveo/src/api.rs\<close>
  (module \<open>test_ferveo_api\<close>): a decryption share is accepted for the index and the key it was made with,
  and for nothing else.  The zero of the target field is a parameter.
\<close>

section \<open>Operations\<close>

definition test_dkg_simple_tdec_share_verification ::
  "('g1, 'g2, 'gt, 'fp, 'fp2, 'ecp2) crypto \<Rightarrow> ('f::field, 'g1::ab_group_add, 'g2::ab_group_add, 'gt::comm_monoid_mult) pairing \<Rightarrow>
    ('f, 'g1, 'd) ark_poly \<Rightarrow> ('f, 'r) ark_rand \<Rightarrow> (bytes \<Rightarrow> bytes option) \<Rightarrow> 'r \<Rightarrow>
    (('g1, 'g2) validator_message list \<Rightarrow> 'r \<Rightarrow> ('g1, 'g2) validator_message list \<times> 'r) \<Rightarrow>
    'gt \<Rightarrow> bytes \<Rightarrow> bytes \<Rightarrow> u32 \<Rightarrow> u32 \<Rightarrow> unit result"
where
  "test_dkg_simple_tdec_share_verification C E A R hex_decode test_rng shuffle target_zero msg aad n t =
     and_then (dealt_ritual E A n (setup_dealt_dkg_with E A R hex_decode test_rng shuffle t n)) (\<lambda>(dkg, kps, transcripts, agg).
     and_then (unwrap (fst (encrypt C E R msg aad (agg_public_key agg) test_rng))) (\<lambda>ciphertext.
     and_then (unwrap (ct_header C ciphertext)) (\<lambda>header.
     and_then (create_shared_secret_simple_tdec C E A dkg aad header kps transcripts) (\<lambda>(agg, decryption_shares, _).
     and_then (rust_assert (list_all (\<lambda>(aggregated_share, kp, share).
       decryption_share_simple_verify E share aggregated_share (encryption_key (keypair_public_key E kp)) ciphertext)
       (zip (shares (aggregate_pvss agg)) (zip kps decryption_shares)))) (\<lambda>_.
     and_then (slice_index decryption_shares 0) (\<lambda>decryption_share.
     and_then (slice_index (shares (aggregate_pvss agg)) 0) (\<lambda>first_share.
     and_then (slice_index kps 0) (\<lambda>first_kp.
     let verify = (\<lambda>share. decryption_share_simple_verify E share first_share
       (encryption_key (keypair_public_key E first_kp)) ciphertext) in
     and_then (rust_assert (\<not> verify (decryption_share\<lparr> simple_decryption_share := target_zero \<rparr>))) (\<lambda>_.
     rust_assert (\<not> verify (decryption_share\<lparr> simple_validator_checksum := \<lparr> checksum = 0 \<rparr> \<rparr>)))))))))))"

text \<open>\<open>assert!(result.unwrap())\<close> and \<open>assert!(!result.unwrap())\<close>.\<close>

definition assert_verdict :: "bool \<Rightarrow> bool result \<Rightarrow> unit result" where
  "assert_verdict expected res = and_then (unwrap res) (\<lambda>verdict. rust_assert (verdict = expected))"

definition verify_decryption_share_simple_scenario ::
  "('g1, 'g2, 'gt, 'fp, 'fp2, 'ecp2) crypto \<Rightarrow> ('f::field, 'g1::ab_group_add, 'g2::ab_group_add, 'gt::comm_monoid_mult) pairing \<Rightarrow>
    ('f, 'g1, 'd) ark_poly \<Rightarrow> ('f, 'r) ark_rand \<Rightarrow> (bytes \<Rightarrow> bytes option) \<Rightarrow> 'r \<Rightarrow>
    (('g1, 'g2) validator_message list \<Rightarrow> 'r \<Rightarrow> ('g1, 'g2) validator_message list \<times> 'r) \<Rightarrow>
    'r \<Rightarrow> 'r \<Rightarrow> bytes \<Rightarrow> bytes \<Rightarrow> u32 \<Rightarrow> u32 \<Rightarrow> unit result"
where
  "verify_decryption_share_simple_scenario C E A R hex_decode test_rng shuffle seed_rng thread_rng msg aad n t =
     (let (res, rng1) = make_test_inputs E A R hex_decode test_rng shuffle seed_rng fixture_tau t n n in
      and_then res (\<lambda>(all_messages, vs, kps).
      and_then (slice_range all_messages 0 (unat n)) (\<lambda>messages.
      and_then (slice_index vs 0) (\<lambda>self.
      and_then (slice_index vs 1) (\<lambda>other.
      and_then (unwrap (api_dkg_new A fixture_tau n t vs self)) (\<lambda>dkg.
      and_then (unwrap (api_aggregate_transcripts E dkg messages)) (\<lambda>agg.
      and_then (assert_verdict True (api_aggregated_transcript_verify E A agg n t messages)) (\<lambda>_.
      and_then (unwrap (api_encrypt C E R thread_rng msg aad (api_public_key agg))) (\<lambda>ciphertext.
      and_then (unwrap (api_ciphertext_header C ciphertext)) (\<lambda>header.
      and_then (slice_index kps 0) (\<lambda>kp.
      and_then (unwrap (api_create_decryption_share_simple C E A agg dkg header aad kp)) (\<lambda>share.
      let verify = (\<lambda>share index pk. api_verify_decryption_share_simple E A agg dkg share index pk ciphertext) in
      and_then (assert_verdict True (verify share (v_share_index self) (v_public_key self))) (\<lambda>_.
      and_then (assert_verdict False (verify share (v_share_index self) (v_public_key other))) (\<lambda>_.
      and_then (assert_verdict False (verify share (v_share_index other) (v_public_key self))) (\<lambda>_.
      and_then (assert_verdict False (verify share (v_share_index other) (v_public_key other))) (\<lambda>_.
      and_then (fst (make_test_inputs E A R hex_decode test_rng shuffle rng1 fixture_tau t n n)) (\<lambda>(other_messages, _, _).
      and_then (slice_range other_messages 0 (unat n)) (\<lambda>other_messages.
      and_then (unwrap (api_aggregate_transcripts E dkg other_messages)) (\<lambda>other_aggregate.
      and_then (rust_assert (api_public_key agg \<noteq> api_public_key other_aggregate)) (\<lambda>_.
      and_then (unwrap (api_create_decryption_share_simple C E A other_aggregate dkg header aad kp)) (\<lambda>other_share.
      and_then (assert_verdict False (verify other_share (v_share_index self) (v_public_key self))) (\<lambda>_.
      and_then (unwrap (get_domain_point A dkg (v_share_index other))) (\<lambda>other_point.
      let tampered = \<lparr> api_share = api_share share, api_domain_point = other_point \<rparr> in
      and_then (slice_index (shares (aggregate_pvss agg)) (unat (v_share_index self))) (\<lambda>blinded.
      and_then (rust_assert (decryption_share_simple_verify E (api_share tampered) blinded
        (encryption_key (v_public_key self)) ciphertext)) (\<lambda>_.
      and_then (assert_verdict False (verify tampered (v_share_index self) (v_public_key self))) (\<lambda>_.
      assert_matches ((=) (InvalidShareIndex n)) (verify share n (v_public_key self))))))))))))))))))))))))))))"

section \<open>The share of a slot\<close>

text \<open>What the holder of a keypair makes of the slot at an index.\<close>

definition made_share ::
  "('f::field, 'g1, 'g2, 'gt) pairing \<Rightarrow> ('f, 'g1, 'd) ark_poly \<Rightarrow> ('g2, 'd) dkg \<Rightarrow> ('g1, 'g2) aggregated_transcript \<Rightarrow>
    'g1 \<Rightarrow> 'f keypair \<Rightarrow> u32 \<Rightarrow> ('f, 'g1, 'gt) api_decryption_share_simple"
where
  "made_share E A d agg U kp i = \<lparr>
     api_share = \<lparr>
       simple_decryption_share = pair E U (g2_mul E (shares (aggregate_pvss agg) ! unat i) (inverse (decryption_key kp))),
       simple_validator_checksum = \<lparr> checksum = g1_mul E U (inverse (decryption_key kp)) \<rparr> \<rparr>,
     api_domain_point = domain_points A d ! unat i \<rparr>"

lemma get_domain_point_me: "get_domain_point A (d\<lparr> me := m \<rparr>) i = get_domain_point A d i"
  by (simp add: get_domain_point_def domain_points_def)

context session begin

lemma created_share:
  assumes "length (validators d) \<le> length (shares (aggregate_pvss agg))" "unat (v_share_index m) < length (validators d)"
    and "decryption_key kp \<noteq> 0" "header_check C E h aad = Ok True"
  shows "api_create_decryption_share_simple C E A agg (d\<lparr> me := m \<rparr>) h aad kp =
    Ok (made_share E A d agg (hdr_commitment h) kp (v_share_index m))"
  using assms by (simp add: api_create_decryption_share_simple_def create_decryption_share_simple_def
      get_share_for_index_and_pubkey_def slice_get_def bks_create_decryption_share_simple_def unblind_eq
      decryption_share_simple_create_def decryption_share_simple_create_unchecked_def validator_share_checksum_new_def
      get_domain_point_me get_domain_point_eq made_share_def)

lemma verified_share:
  assumes "length (validators d) \<le> length (shares (aggregate_pvss agg))" "decryption_key kp \<noteq> 0"
  shows "api_verify_decryption_share_simple E A agg (d\<lparr> me := m \<rparr>) share i (keypair_public_key E kp) ct =
    (if unat i < length (validators d) then Ok (share = made_share E A d agg (ct_commitment ct) kp i)
     else Err (InvalidShareIndex i))"
proof -
  let ?h = "\<lparr> hdr_commitment = ct_commitment ct, hdr_auth_tag = 0, hdr_ciphertext_hash = [] \<rparr>"
  show ?thesis
    using assms simple_verify_iff[OF assms(2), of ?h ct] by (cases share)
      (auto simp: api_verify_decryption_share_simple_def get_share_for_index_and_pubkey_def slice_get_def
        get_domain_point_me get_domain_point_eq keypair_public_key_def outcome_simps simple_create_unchecked_Ok made_share_def)
qed

end

section \<open>The scenario\<close>

context session begin

text \<open>Shares made with another key, at another index or from another slot are different.\<close>

lemma made_share_differs:
  assumes "U \<noteq> 0" "decryption_key kp \<noteq> 0"
  shows "kp' \<noteq> kp \<Longrightarrow> made_share E A d agg U kp i \<noteq> made_share E A d agg' U kp' j"
    "unat i < length (validators d) \<Longrightarrow> unat j < length (validators d) \<Longrightarrow> i \<noteq> j \<Longrightarrow>
      domain_points A d ! unat i \<noteq> domain_points A d ! unat j"
    "shares (aggregate_pvss agg) ! unat i \<noteq> shares (aggregate_pvss agg') ! unat j \<Longrightarrow>
      made_share E A d agg U kp i \<noteq> made_share E A d agg' U kp j"
proof -
  show "kp' \<noteq> kp \<Longrightarrow> made_share E A d agg U kp i \<noteq> made_share E A d agg' U kp' j"
    using assms(1) by (auto simp: made_share_def g1.mul_left_cancel intro: keypair.equality)
  show "unat i < length (validators d) \<Longrightarrow> unat j < length (validators d) \<Longrightarrow> i \<noteq> j \<Longrightarrow>
      domain_points A d ! unat i \<noteq> domain_points A d ! unat j"
    using distinct_domain_points by (simp add: nth_eq_iff_index_eq word_unat_eq_iff)
  show "shares (aggregate_pvss agg) ! unat i \<noteq> shares (aggregate_pvss agg') ! unat j \<Longrightarrow>
      made_share E A d agg U kp i \<noteq> made_share E A d agg' U kp j"
    using assms by (auto simp: made_share_def pair_left_cancel g2.mul_right_cancel)
qed

text \<open>The verdicts of the scenario on the share of the first validator.\<close>

lemma share_verdicts:
  fixes i j n :: u32 and m :: "'g2 validator"
  assumes "length (validators d) \<le> length (shares (aggregate_pvss agg))" "length (validators d) = unat n"
    and "unat i < unat n" "unat j < unat n" "i \<noteq> j" "decryption_key kp \<noteq> 0" "decryption_key kp' \<noteq> 0" "kp' \<noteq> kp"
    and "ct_commitment ct \<noteq> 0" "shares (aggregate_pvss agg) ! unat i \<noteq> shares (aggregate_pvss agg') ! unat i"
  defines "share \<equiv> made_share E A d agg (ct_commitment ct) kp i"
    and "other \<equiv> made_share E A d agg' (ct_commitment ct) kp i"
    and "verify \<equiv> \<lambda>s i kp. api_verify_decryption_share_simple E A agg (d\<lparr> me := m \<rparr>) s i (keypair_public_key E kp) ct"
  shows "verify share i kp = Ok True" "verify share i kp' = Ok False" "verify share j kp = Ok False"
    "verify share j kp' = Ok False" "verify other i kp = Ok False"
    "verify \<lparr> api_share = api_share share, api_domain_point = domain_points A d ! unat j \<rparr> i kp = Ok False"
    "verify share n kp = Err (InvalidShareIndex n)"
    "decryption_share_simple_verify E (api_share share) (shares (aggregate_pvss agg) ! unat i)
      (encryption_key (keypair_public_key E kp)) ct"
proof -
  note eqs = verified_share[OF assms(1,6), of m] verified_share[OF assms(1,7), of m]
  have point: "domain_points A d ! unat i \<noteq> domain_points A d ! unat j"
    using made_share_differs(2)[OF assms(9,6)] assms(2-5) by simp
  then have at: "share \<noteq> made_share E A d agg (ct_commitment ct) k j" for k by (simp add: share_def made_share_def)
  show "verify share i kp = Ok True" "verify share j kp = Ok False" "verify share j kp' = Ok False"
      "verify share n kp = Err (InvalidShareIndex n)"
    using assms(2-4) at by (simp_all add: verify_def eqs) (simp add: share_def)
  show "verify share i kp' = Ok False"
    using assms(2,3) made_share_differs(1)[OF assms(9,6,8)] by (simp add: verify_def eqs share_def)
  show "verify other i kp = Ok False"
    using assms(2,3) made_share_differs(3)[OF assms(9,6,10)] by (simp add: verify_def eqs other_def eq_commute)
  show "verify \<lparr> api_share = api_share share, api_domain_point = domain_points A d ! unat j \<rparr> i kp = Ok False"
    using assms(2,3) point by (simp add: verify_def eqs share_def made_share_def)
  let ?h = "\<lparr> hdr_commitment = ct_commitment ct, hdr_auth_tag = 0, hdr_ciphertext_hash = [] \<rparr>"
  show "decryption_share_simple_verify E (api_share share) (shares (aggregate_pvss agg) ! unat i)
      (encryption_key (keypair_public_key E kp)) ct"
    using simple_verify_iff[OF assms(6), of ?h ct] assms(6)
    by (simp add: share_def made_share_def keypair_public_key_def simple_create_unchecked_Ok)
qed

end

text \<open>The facts about the generated validators and aggregates that the scenario uses.\<close>

context session begin

lemma honest_shares_length:
  assumes "unat (security_threshold (params d)) \<le> length (dom_elements A (domain d))"
    and "list_all (honest_message E A d) ms" "ms \<noteq> []" "from_transcripts (map snd ms) = Ok agg"
  shows "length (shares (aggregate_pvss agg)) = length (validators d)"
  by (rule honest_messages_aggregate[OF assms(1-3)]) (use assms(4) in auto)

end

lemma generated_validators:
  assumes "hex_laws hex_decode" "\<forall>r. fst (scalar_rand R r) \<noteq> 0"
    and "gen_validators E hex_decode (gen_keypairs R test_rng n) = Ok vs" "i < unat n"
  shows "v_public_key (vs ! i) = keypair_public_key E (gen_keypairs R test_rng n ! i)"
    "unat (v_share_index (vs ! i)) = i" "decryption_key (gen_keypairs R test_rng n ! i) \<noteq> 0"
proof -
  let ?kps = "gen_keypairs R test_rng n"
  have len: "length ?kps = unat n" by (simp add: gen_keypairs_def)
  have "length ?kps \<le> 2 ^ 32" unfolding len by (rule less_imp_le[OF u32_bound])
  from gen_validators_Ok[OF assms(1) this, of E] assms(3,4) len
  have v: "v_public_key (vs ! i) = keypair_public_key E (?kps ! i)" "v_share_index (vs ! i) = of_nat i" by auto
  show "v_public_key (vs ! i) = keypair_public_key E (?kps ! i)" by (rule v(1))
  show "unat (v_share_index (vs ! i)) = i"
    unfolding v(2) using assms(4) u32_bound[of n] by (simp add: unat_of_nat_u32)
  show "decryption_key (?kps ! i) \<noteq> 0"
    using keypairs_nonzero[of R "unat n" test_rng] assms(2,4) len by (simp add: gen_keypairs_def)
qed

lemma verified_key:
  assumes "pairing_laws E" "0 < t" "api_aggregated_transcript_verify E A agg n t ms = Ok True"
  obtains s where "agg_public_key agg = DkgPublicKey (g1_mul E (g1_generator E) s)" "s \<noteq> 0"
proof -
  have "0 < unat t" using assms(2) by (simp add: unat_gt_0 word_gt_0)
  note ok = assms(3)[unfolded api_verify_Ok[OF this]]
  then obtain s Fs where "s \<noteq> 0" "coeffs (aggregate_pvss agg) = g1_mul E (g1_generator E) s # Fs"
    unfolding pairing_laws.verify_optimistic_iff[OF assms(1)] by blast
  then show ?thesis using that[of s] ok by (cases "agg_public_key agg") auto
qed

lemma share_verification_scenario_succeeds:
  assumes "pairing_laws E" "domain_laws (g1_mul E) A" "rand_laws R" "\<forall>r. fst (scalar_rand R r) \<noteq> 0"
    and "hex_laws hex_decode" "\<forall>xs r. mset (fst (shuffle xs r)) = mset xs"
    and "crypto_laws C" "\<forall>key nonce. chacha_encrypt C key nonce msg aad \<noteq> None" "\<forall>m. htp_bls12381_g2 (curve_lib C) m \<noteq> Ok 0"
    and "0 < t" "t \<le> n" "1 < n" "dom_new A (unat n) = Some dm" "distinct (gen_keypairs R test_rng n)"
    and "make_test_inputs E A R hex_decode test_rng shuffle seed_rng fixture_tau t n n = (Ok (ms, vs, kps), rng1)"
    and "make_test_inputs E A R hex_decode test_rng shuffle rng1 fixture_tau t n n = (Ok (ms', vs', kps'), rng2)"
    and "generic_inputs (Ok (ms, vs, kps))" "generic_inputs (Ok (ms', vs', kps'))"
    and "from_transcripts (map snd ms) = Ok agg" "from_transcripts (map snd ms') = Ok agg'"
    and "agg_public_key agg \<noteq> agg_public_key agg'"
    and "shares (aggregate_pvss agg) ! 0 \<noteq> shares (aggregate_pvss agg') ! 0"
  shows "verify_decryption_share_simple_scenario C E A R hex_decode test_rng shuffle seed_rng thread_rng msg aad n t = Ok ()"
  using assms(1-6,10,11,13,15,17)
proof (rule verified_inputs)
  fix d agg0
  let ?kps = "gen_keypairs R test_rng n"
  assume S: "session E A d" and len: "length (validators d) = unat n" "length vs = unat n" "length ms = unat n"
    and tdm: "unat (security_threshold (params d)) \<le> length (dom_elements A (domain d))"
    and ms: "list_all (honest_message E A d) ms" "distinct (map (v_address \<circ> fst) ms)" "distinct (map snd ms)"
    and agg0: "from_transcripts (map snd ms) = Ok agg0" "api_aggregated_transcript_verify E A agg0 n t ms = Ok True"
    and new: "\<And>v. v \<in> set vs \<Longrightarrow> api_dkg_new A fixture_tau n t vs v = Ok (d\<lparr> me := v \<rparr>)"
  have verified: "api_aggregated_transcript_verify E A agg n t ms = Ok True" using agg0 assms(19) by simp
  note gen = make_test_inputs_validators(1)[OF assms(15)]
  have n: "0 < unat n" "1 < unat n" using assms(12) by (simp_all add: word_less_nat_alt)
  have v0: "vs ! 0 \<in> set vs" using n len(2) by simp
  note val0 = generated_validators[OF assms(5,4) gen n(1)] and val1 = generated_validators[OF assms(5,4) gen n(2)]
  have other: "list_all (honest_message E A d) ms'" "length ms' = unat n"
    using second_inputs[OF assms(1-6,10,11,13,16) gen v0 new[OF v0]] by simp_all
  have addr: "distinct (map (v_address \<circ> fst) ms')" by (rule verified_inputs[OF assms(1-6,10,11,13,16,18)])
  have fresh: "distinct (map snd ms')" using assms(18) by (simp add: generic_inputs_def)
  have accepted: "api_aggregate_transcripts E (d\<lparr> me := vs ! 0 \<rparr>) ms = Ok agg"
      "api_aggregate_transcripts E (d\<lparr> me := vs ! 0 \<rparr>) ms' = Ok agg'"
    using session.honest_verify_transcripts[OF S tdm] ms other addr fresh len assms(19,20)
    by (simp_all add: api_aggregate_transcripts_def aggregate_transcripts_def)
  have ne: "ms \<noteq> []" "ms' \<noteq> []" using n(1) len(3) other(2) by auto
  have slots: "length (validators d) \<le> length (shares (aggregate_pvss agg))"
      "length (validators d) \<le> length (shares (aggregate_pvss agg'))"
    using session.honest_shares_length[OF S tdm ms(1) ne(1) assms(19)]
      session.honest_shares_length[OF S tdm other(1) ne(2) assms(20)] by simp_all
  obtain x where pk: "agg_public_key agg = DkgPublicKey (g1_mul E (g1_generator E) x)" "x \<noteq> 0"
    by (rule verified_key[OF assms(1,10) verified])
  have scheme: "tdec_scheme C E" by (rule tdec_scheme.intro[OF assms(7,1)])
  obtain ct rng' h where ct: "encrypt C E R msg aad (agg_public_key agg) thread_rng = (Ok ct, rng')" "ct_header C ct = Ok h"
      and h: "header_check C E h aad = Ok True"
    by (rule tdec_scheme.encrypted_round[OF scheme pk assms(4,8,9)])
  have U: "hdr_commitment h = ct_commitment ct" "ct_commitment ct \<noteq> 0"
    using ct(2) h by (auto simp: ct_header_def header_check_def outcome_simps split: if_splits)
  have distinct_keys: "?kps ! 1 \<noteq> ?kps ! 0"
    using assms(14) n(2) by (simp add: nth_eq_iff_index_eq gen_keypairs_def)
  have idx: "unat (v_share_index (vs ! 0)) < unat n" "unat (v_share_index (vs ! 1)) < unat n"
      "v_share_index (vs ! 0) \<noteq> v_share_index (vs ! 1)"
    using val0(2) val1(2) n by auto
  have "shares (aggregate_pvss agg) ! unat (v_share_index (vs ! 0)) \<noteq>
      shares (aggregate_pvss agg') ! unat (v_share_index (vs ! 0))" using assms(22) val0(2) by simp
  note verdicts = session.share_verdicts[OF S slots(1) len(1) idx val0(3) val1(3) distinct_keys U(2) this]
  have i0: "unat (v_share_index (vs ! 0)) < length (validators d)" using idx len(1) by simp
  have "vs \<noteq> []" "?kps \<noteq> []" using n(1) len(2) by (auto simp: gen_keypairs_def simp flip: length_greater_0_conv)
  then show ?thesis
    using assms(15,16,21) len n new[OF v0] accepted verified ct slots other(2) make_test_inputs_validators(2)[OF assms(15)]
      session.created_share[OF S slots(1) i0 val0(3) h] session.created_share[OF S slots(2) i0 val0(3) h]
      verdicts(1-7)[where m = "vs ! 0"] verdicts(8) val0(1) val1(1) idx U(1)
    by (simp add: verify_decryption_share_simple_scenario_def slice_range_def slice_index_if assert_verdict_def
        api_encrypt_def api_public_key_def api_ciphertext_header_def assert_matches_def get_domain_point_me
        session.get_domain_point_eq[OF S])
qed

context session begin

lemma slot_share_verdicts:
  fixes cs :: "'f list"
  assumes "i < length (validators d)" "v_public_key (snd (validators d ! i)) = keypair_public_key E (kps ! i)"
    and "ct_commitment ct \<noteq> 0"
  defines "share \<equiv> slot_share E A d cs (ct_commitment ct) kps i"
    and "verify \<equiv> \<lambda>s. decryption_share_simple_verify E s (dealt_shares E A d cs ! i)
      (encryption_key (keypair_public_key E (kps ! i))) ct"
  shows "verify share" "\<not> verify (share\<lparr> simple_validator_checksum := \<lparr> checksum = 0 \<rparr> \<rparr>)"
    "dealt_shares E A d cs ! i \<noteq> 0 \<Longrightarrow> \<forall>P Q. P \<noteq> 0 \<longrightarrow> Q \<noteq> 0 \<longrightarrow> pair E P Q \<noteq> z \<Longrightarrow>
      \<not> verify (share\<lparr> simple_decryption_share := z \<rparr>)"
proof -
  note b = validator_key[OF assms(1) assms(2)[symmetric]]
  let ?h = "\<lparr> hdr_commitment = ct_commitment ct, hdr_auth_tag = 0, hdr_ciphertext_hash = [] \<rparr>"
  show "verify share"
    unfolding verify_def using simple_verify_iff[OF b(1), of ?h ct] b
    by (simp add: share_def slot_share_def keypair_public_key_def simple_create_unchecked_Ok)
  show "\<not> verify (share\<lparr> simple_validator_checksum := \<lparr> checksum = 0 \<rparr> \<rparr>)"
    using assms(3) by (simp add: verify_def decryption_share_simple_verify_def checksum_verify_iff)
  show "\<not> verify (share\<lparr> simple_decryption_share := z \<rparr>)"
    if "dealt_shares E A d cs ! i \<noteq> 0" "\<forall>P Q. P \<noteq> 0 \<longrightarrow> Q \<noteq> 0 \<longrightarrow> pair E P Q \<noteq> z"
  proof -
    have "pair E (g1_mul E (ct_commitment ct) (inverse (decryption_key (kps ! i)))) (dealt_shares E A d cs ! i) \<noteq> z"
      using that assms(3) b(1) by simp
    then show ?thesis
      by (auto simp: verify_def share_def slot_share_def decryption_share_simple_verify_def checksum_verify_iff)
  qed
qed

end

text \<open>No pairing of nonzero points is the zero of the target field; every share of the scenario is
  accepted, and the first one no longer when its value or its checksum is replaced.\<close>

lemma low_level_verification_scenario_succeeds:
  assumes "pairing_laws E" "domain_laws (g1_mul E) A" "rand_laws R" "\<forall>r. fst (scalar_rand R r) \<noteq> 0"
    and "hex_laws hex_decode" "\<forall>xs r. mset (fst (shuffle xs r)) = mset xs"
    and "crypto_laws C" "\<forall>key nonce. chacha_encrypt C key nonce msg aad \<noteq> None" "\<forall>m. htp_bls12381_g2 (curve_lib C) m \<noteq> Ok 0"
    and "0 < t" "t \<le> n" "dom_new A (unat n) = Some dm" "distinct (gen_keypairs R test_rng n)"
    and "terms_do_not_cancel (setup_dealt_dkg_with E A R hex_decode test_rng shuffle t n)"
    and "slot_share_nonzero (dealt_ritual E A n (setup_dealt_dkg_with E A R hex_decode test_rng shuffle t n)) 0"
    and "\<forall>P Q. P \<noteq> 0 \<longrightarrow> Q \<noteq> 0 \<longrightarrow> pair E P Q \<noteq> target_zero"
  shows "test_dkg_simple_tdec_share_verification C E A R hex_decode test_rng shuffle target_zero msg aad n t = Ok ()"
  using assms(1-13) assms(14)[unfolded setup_dealt_dkg_with_def setup_dealt_dkg_with_n_validators_def]
proof (rule shared_secret_Ok)
  fix d ts agg cs ct h
  let ?kps = "gen_keypairs R test_rng n" and ?fix = "setup_dealt_dkg_with_n_transcript_dealt E A R hex_decode test_rng shuffle t n n t"
  assume ritual: "dealt_ritual E A n ?fix = Ok (d, ?kps, ts, agg)"
    and S: "session E A d" and d: "length (validators d) = unat n"
    and keys: "\<And>i. i < length (validators d) \<Longrightarrow> v_public_key (snd (validators d ! i)) = keypair_public_key E (?kps ! i)"
    and lk: "length ?kps = length (validators d)"
    and cs: "length cs = unat t" "length cs \<le> length (validators d)" "aggregate_pvss agg = dealt E A d cs"
    and ct: "encrypt C E R msg aad (agg_public_key agg) test_rng = (Ok ct, snd (scalar_rand R test_rng))" "ct_header C ct = Ok h"
    and h: "header_check C E h aad = Ok True"
    and old: "create_shared_secret_simple_tdec C E A d aad h ?kps ts =
      Ok (agg, map (slot_share E A d cs (hdr_commitment h) ?kps) [0..<length cs], SharedSecret (pair E (hdr_commitment h) (g2_mul E (g2_generator E) (peval cs 0))))"
  let ?ss = "map (slot_share E A d cs (hdr_commitment h) ?kps) [0..<length cs]"
  have U: "hdr_commitment h = ct_commitment ct" "ct_commitment ct \<noteq> 0"
    using ct(2) h by (auto simp: ct_header_def header_check_def outcome_simps split: if_splits)
  note verdicts = session.slot_share_verdicts[OF S _ keys U(2)]
  have t: "0 < unat t" using assms(10) by (simp add: unat_gt_0 word_gt_0)
  have first: "0 < length (validators d)" using less_le_trans[OF t] cs(1,2) by metis
  have nz: "dealt_shares E A d cs ! 0 \<noteq> 0"
    using assms(15) ritual cs(3)
    by (simp add: slot_share_nonzero_def setup_dealt_dkg_with_def setup_dealt_dkg_with_n_validators_def)
  have all: "list_all (\<lambda>(Y, kp, s). decryption_share_simple_verify E s Y (encryption_key (keypair_public_key E kp)) ct)
      (zip (dealt_shares E A d cs) (zip ?kps ?ss))"
    using verdicts(1) cs(2) U(1) by (auto simp: list_all_length)
  have ne: "dealt_shares E A d cs \<noteq> []" "?kps \<noteq> []" "cs \<noteq> []"
    using first lk t cs(1) session.length_dealt_shares[OF S, of cs] by (auto simp flip: length_greater_0_conv)
  show ?thesis
    using ritual ct old all ne verdicts(2)[OF first first] verdicts(3)[OF first first nz assms(16)] cs(1,3) t U(1)
    by (simp add: test_dkg_simple_tdec_share_verification_def setup_dealt_dkg_with_def
        setup_dealt_dkg_with_n_validators_def slice_index_if)
qed

section \<open>Properties\<close>

text \<open>
  C19: verification of a decryption share is exact.  For every aggregate with a slot for each validator,
  every valid ciphertext, every share, every index and every keypair, registered or not: a share is
  accepted under an index and the public key of the pair exactly when it is the share, with its domain
  point, that the holder of the pair creates at this index; an index without a validator is an error.
\<close>

theorem share_verification_decides:
  assumes "session E A d" "length (validators d) \<le> length (shares (aggregate_pvss agg))"
    and "decryption_key kp \<noteq> 0" "ct_header C ct = Ok h" "header_check C E h aad = Ok True"
  shows "api_verify_decryption_share_simple E A agg d share i (keypair_public_key E kp) ct =
    (if unat i < length (validators d)
     then Ok (api_create_decryption_share_simple C E A agg (d\<lparr> me := (me d)\<lparr> v_share_index := i \<rparr> \<rparr>) h aad kp = Ok share)
     else Err (InvalidShareIndex i))"
proof -
  have "hdr_commitment h = ct_commitment ct" using assms(4) by (auto simp: ct_header_def)
  then show ?thesis
    using session.verified_share[OF assms(1-3), of "me d"] assms(5)
      session.created_share[OF assms(1,2) _ assms(3,5), of "(me d)\<lparr> v_share_index := i \<rparr>"] by auto
qed

theorem share_verification_decides_witness:
  "api_verify_decryption_share_simple E17 A17 sample_agg sample_dkg
     (made_share E17 A17 sample_dkg sample_agg (ct_commitment sample_ct) (sample_keys 2) 2) 2
     (keypair_public_key E17 (sample_keys 2)) sample_ct = Ok True"
proof -
  have "length (validators sample_dkg) \<le> length (shares (aggregate_pvss sample_agg))" "decryption_key (sample_keys 2) \<noteq> 0"
    "ct_header C17 sample_ct = Ok sample_header" by code_simp+
  note decides = share_verification_decides[OF session17.session_axioms this sample_header_ok, of
      "made_share E17 A17 sample_dkg sample_agg (ct_commitment sample_ct) (sample_keys 2) 2" 2]
  show ?thesis unfolding decides by code_simp
qed

text \<open>Both scenarios run on the sample field.\<close>

lemma sample_low_level_verification:
  "test_dkg_simple_tdec_share_verification C17 E17 A17 R17 hex_pairs 0 (\<lambda>xs r. (rev xs, r)) 1 [10, 20] [1] 4 3 = Ok ()"
  by code_simp

lemma sample_share_verification:
  "verify_decryption_share_simple_scenario C17 E17 A17 R17 hex_pairs 0 (\<lambda>xs r. (rev xs, r)) 0 2 [10, 20] [1] 4 2 = Ok ()"
  by code_simp

end
