(* ===== verification/Precomputed_Scenario.thy ===== *)
theory Precomputed_Scenario
  imports Api_Scenarios
begin

text \<open>
  The precomputed scenario of \<open>ferveo/src/api.rs\<close> (module \<open>test_ferveo_api\<close>): the client draws the validators
  that decrypt, these create shares that combine by multiplication alone, and with one share left out
  decryption is refused.  \<open>choose_multiple\<close> of the \<open>rand\<close> crate is a parameter.
\<close>

section \<open>Operations\<close>

definition test_server_api_tdec_precomputed ::
  "('g1, 'g2, 'gt, 'fp, 'fp2, 'ecp2) crypto \<Rightarrow> ('f::field, 'g1::ab_group_add, 'g2::ab_group_add, 'gt::comm_monoid_mult) pairing \<Rightarrow>
    ('f, 'g1, 'd) ark_poly \<Rightarrow> ('f, 'r) ark_rand \<Rightarrow> (bytes \<Rightarrow> bytes option) \<Rightarrow> 'r \<Rightarrow>
    (('g1, 'g2) validator_message list \<Rightarrow> 'r \<Rightarrow> ('g1, 'g2) validator_message list \<times> 'r) \<Rightarrow>
    ('g2 validator list \<Rightarrow> nat \<Rightarrow> 'r \<Rightarrow> 'g2 validator list \<times> 'r) \<Rightarrow>
    (('g1, 'gt) decryption_share_precomputed list \<Rightarrow> 'r \<Rightarrow> ('g1, 'gt) decryption_share_precomputed list \<times> 'r) \<Rightarrow>
    'r \<Rightarrow> 'r \<Rightarrow> bytes \<Rightarrow> bytes \<Rightarrow> u32 \<Rightarrow> u32 \<Rightarrow> unit result"
where
  "test_server_api_tdec_precomputed C E A R hex_decode test_rng shuffle choose_multiple shuffle_shares
       seed_rng thread_rng msg aad n t =
     (let (res, rng1) = make_test_inputs E A R hex_decode test_rng shuffle seed_rng fixture_tau t n n in
      and_then res (\<lambda>(all_messages, vs, kps).
      and_then (slice_range all_messages 0 (unat n)) (\<lambda>messages.
      and_then (slice_index vs 0) (\<lambda>self.
      and_then (server_aggregate E A n t vs messages self) (\<lambda>(_, local_aggregate).
      and_then (unwrap (api_encrypt C E R thread_rng msg aad (api_public_key local_aggregate))) (\<lambda>ciphertext.
      let (selected_validators, rng2) = choose_multiple vs (unat t) rng1 in
      and_then (try_map (\<lambda>v.
        and_then (expect (find (\<lambda>kp. keypair_public_key E kp = v_public_key v) kps)) (\<lambda>kp.
        and_then (server_aggregate E A n t vs messages v) (\<lambda>(dkg, agg).
        and_then (unwrap (api_ciphertext_header C ciphertext)) (\<lambda>header.
        unwrap (api_create_decryption_share_precomputed C E A agg dkg header aad kp selected_validators)))))
        (take (unat t) selected_validators)) (\<lambda>made_shares.
      let decryption_shares = fst (shuffle_shares made_shares rng2) in
      and_then (unwrap (api_decrypt_with_shared_secret C E ciphertext aad
        (share_combine_precomputed decryption_shares))) (\<lambda>plaintext.
      and_then (rust_assert (plaintext = msg)) (\<lambda>_.
      assert_err (api_decrypt_with_shared_secret C E ciphertext aad
        (share_combine_precomputed (take (unat t - 1) decryption_shares))))))))))))"

section \<open>One share fewer\<close>

lemma lagrange_basis_nonzero:
  assumes "finite S" "0 \<notin> S"
  shows "lagrange_basis S x 0 \<noteq> 0"
  using assms by (auto simp: lagrange_basis_def prod_zero_iff)

context pairing_laws begin

lemma product_one_short:
  assumes "share_combine_precomputed ss = SharedSecret (pair E U Q)" "ss \<noteq> []"
    and "list_all (\<lambda>s. precomputed_decryption_share s \<noteq> 1) ss"
  shows "share_combine_precomputed (take (length ss - 1) ss) \<noteq> SharedSecret (pair E U Q)"
proof
  assume few: "share_combine_precomputed (take (length ss - 1) ss) = SharedSecret (pair E U Q)"
  let ?v = "precomputed_decryption_share (last ss)"
  have "ss = take (length ss - 1) ss @ [last ss]"
    unfolding butlast_conv_take[symmetric] using assms(2) by simp
  then have "map precomputed_decryption_share ss =
      map precomputed_decryption_share (take (length ss - 1) ss) @ [?v]" by (metis map_append list.map(1,2))
  then have "pair E U Q = pair E U Q * ?v"
    using assms(1) few by (simp add: share_combine_precomputed_prod)
  then have "pair E (- U) Q * pair E U Q = pair E (- U) Q * pair E U Q * ?v" by (simp add: mult.assoc)
  then have "?v = 1" by (simp add: pair_minus_left)
  with assms(2,3) show False by (simp add: list_all_iff)
qed

end

section \<open>The drawn validators\<close>

lemma find_unique:
  assumes "x \<in> set xs" "P x" "\<And>y. P y \<Longrightarrow> y = x"
  shows "find P xs = Some x"
proof -
  obtain y where y: "find P xs = Some y" using assms(1,2) by (cases "find P xs") (auto simp: find_None_iff)
  then have "P y" by (auto simp: find_Some_iff)
  with y assms(3) show ?thesis by blast
qed

context session begin

lemma drawn_validators:
  assumes "mset sel \<subseteq># mset (map snd (validators d))"
  obtains js :: "u32 list" where "sel = map (\<lambda>i. snd (validators d ! unat i)) js" "distinct js"
    "list_all (\<lambda>i. unat i < length (validators d)) js" "map v_share_index sel = js"
proof -
  let ?vs = "map snd (validators d)"
  have ix: "map v_share_index ?vs = map fst (validators d)"
    using dkg_wf_nth(1,2)[OF wf] by (intro nth_equalityI) simp_all
  have sub: "set sel \<subseteq> set ?vs" using set_mset_mono[OF assms] by simp
  have v: "unat (v_share_index v) < length (validators d) \<and> snd (validators d ! unat (v_share_index v)) = v"
    if "v \<in> set sel" for v
  proof -
    from that sub have "v \<in> set ?vs" by blast
    then obtain i where "i < length (validators d)" "v = snd (validators d ! i)" by (auto simp: in_set_conv_nth)
    then show ?thesis using dkg_wf_nth(3)[OF wf] by simp
  qed
  obtain rest where "mset rest = mset ?vs - mset sel" using ex_mset by blast
  then have perm: "mset (sel @ rest) = mset ?vs" using assms by simp
  have "distinct (map v_share_index (sel @ rest))"
    unfolding distinct_map_perm[OF perm] ix by (rule dkg_wf_distinct[OF wf])
  then have "distinct (map v_share_index sel)" by simp
  moreover have "sel = map (\<lambda>i. snd (validators d ! unat i)) (map v_share_index sel)" using v by (simp add: map_idI)
  moreover have "list_all (\<lambda>i. unat i < length (validators d)) (map v_share_index sel)"
    using v by (simp add: list_all_iff)
  ultimately show ?thesis using that by blast
qed

lemma drawn_points:
  assumes "distinct kps" "length kps = length (validators d)"
    and "\<And>i. i < length (validators d) \<Longrightarrow> v_public_key (snd (validators d ! i)) = keypair_public_key E (kps ! i)"
    and "distinct js" "list_all (\<lambda>i :: u32. unat i < length (validators d)) js"
  shows "mset (selected_domain_points A d (map (\<lambda>i. snd (validators d ! unat i)) js)) =
    mset (map (\<lambda>i. (i, domain_points A d ! unat i)) js)"
proof -
  have "map_option (\<lambda>point. (v_share_index v, point)) (ok (get_domain_point A d (v_share_index v))) =
      (case get_domain_point A d (v_share_index v) of Ok x \<Rightarrow> Some (v_share_index v, x) | _ \<Rightarrow> None)" for v :: "'g2 validator"
    by (cases "get_domain_point A d (v_share_index v)") simp_all
  then show ?thesis using drawn_lookups(2)[OF assms] by (simp add: selected_domain_points_def)
qed

text \<open>A precomputed share of a nonzero slot is not trivial.\<close>

lemma drawn_shares_nontrivial:
  assumes "shares p = dealt_shares E A d cs"
    and "\<And>i. i < length (validators d) \<Longrightarrow> v_public_key (snd (validators d ! i)) = keypair_public_key E (kps ! i)"
    and "distinct js" "list_all (\<lambda>i :: u32. unat i < length (validators d)) js"
    and "mset m = mset (map (\<lambda>i. (i, domain_points A d ! unat i)) js)"
    and "header_check C E h aad = Ok True" "0 \<notin> set (shares p)"
    and "try_map (\<lambda>i. create_decryption_share_precomputed C E p h aad (kps ! unat i) i m) js = Ok ss"
  shows "list_all (\<lambda>s. precomputed_decryption_share s \<noteq> 1) ss"
proof -
  let ?x = "\<lambda>i. domain_points A d ! unat i"
  have set: "set m = (\<lambda>i. (i, ?x i)) ` set js" using mset_eq_setD[OF assms(5)] by simp
  have fst: "mset (map fst m) = mset js" and snd: "mset (map snd m) = mset (map ?x js)"
    using arg_cong[OF assms(5), of "image_mset fst"] arg_cong[OF assms(5), of "image_mset snd"]
    by (simp_all add: multiset.map_comp o_def)
  have keys: "distinct (map fst m)" using assms(3) mset_eq_imp_distinct_iff[OF fst] by simp
  have points: "distinct (map snd m)"
    unfolding mset_eq_imp_distinct_iff[OF snd] by (rule distinct_points[OF assms(3,4)])
  have nonzero: "0 \<notin> set (map snd m)"
    using points_nonzero[OF assms(4)] mset_eq_setD[OF snd] by simp
  have "precomputed_decryption_share s \<noteq> 1"
    if i: "i \<in> set js" and s: "create_decryption_share_precomputed C E p h aad (kps ! unat i) i m = Ok s" for i s
  proof -
    have r: "unat i < length (validators d)" using i assms(4) by (auto simp: list_all_iff)
    note key = assms(2)[OF r, symmetric]
    have "map_of m i = Some (?x i)" using keys set i by (simp add: map_of_eq_Some_iff)
    then have "precomputed_decryption_share s = pair E (g1_mul E (hdr_commitment h) (lagrange_basis (set (map snd m)) (?x i) 0))
        (g2_mul E (g2_generator E) (peval cs (?x i)))"
      using s precomputed_share_from_verified[OF _ r key assms(6) keys points, of p cs "?x i"] assms(1) by auto
    moreover have "peval cs (?x i) \<noteq> 0"
      using validator_key(2)[OF r key, of cs] assms(1,7) nth_mem[of "unat i" "dealt_shares E A d cs"] r by auto
    moreover have "hdr_commitment h \<noteq> 0" using assms(6) by (auto simp: header_check_def split: if_splits)
    ultimately show ?thesis using lagrange_basis_nonzero[OF _ nonzero] by simp
  qed
  then show ?thesis using assms(8) by (fastforce simp: try_map_Ok list_all_iff list_all2_conv_all_nth in_set_conv_nth)
qed

end

context session begin

lemma drawn_server_shares:
  assumes "shares (aggregate_pvss agg) = dealt_shares E A d cs" "map snd (validators d) = vs" "length kps = length vs" "distinct kps"
    and "\<And>i. i < length vs \<Longrightarrow> v_public_key (vs ! i) = keypair_public_key E (kps ! i)"
    and "\<And>v. v \<in> set vs \<Longrightarrow> f v = Ok (d\<lparr> me := v \<rparr>, agg)"
    and "header_check C E h aad = Ok True" "mset sel \<subseteq># mset vs" "length cs \<le> length sel" "0 \<notin> set (shares (aggregate_pvss agg))"
  obtains ss where "try_map (\<lambda>v. and_then (expect (find (\<lambda>kp. keypair_public_key E kp = v_public_key v) kps)) (\<lambda>kp.
      and_then (f v) (\<lambda>(dkg, agg). unwrap (api_create_decryption_share_precomputed C E A agg dkg h aad kp sel))) :: _ result) sel = Ok ss"
    "share_combine_precomputed ss = SharedSecret (pair E (hdr_commitment h) (g2_mul E (g2_generator E) (peval cs 0)))"
    "list_all (\<lambda>s. precomputed_decryption_share s \<noteq> 1) ss" "length ss = length sel"
proof -
  have sub: "mset sel \<subseteq># mset (map snd (validators d))" using assms(2,8) by simp
  obtain js :: "u32 list" where js: "sel = map (\<lambda>i. snd (validators d ! unat i)) js" "distinct js"
      "list_all (\<lambda>i. unat i < length (validators d)) js" "map v_share_index sel = js"
    by (rule drawn_validators[OF sub])
  have vs: "length (validators d) = length vs" "\<And>i. i < length vs \<Longrightarrow> snd (validators d ! i) = vs ! i"
    using assms(2) by auto
  have lk: "length kps = length (validators d)"
    and keys: "\<And>i. i < length (validators d) \<Longrightarrow> v_public_key (snd (validators d ! i)) = keypair_public_key E (kps ! i)"
    using vs assms(3,5) by simp_all
  let ?m = "selected_domain_points A d sel" and ?p = "aggregate_pvss agg"
  have m: "mset ?m = mset (map (\<lambda>i. (i, domain_points A d ! unat i)) js)"
    unfolding js(1) by (rule drawn_points[OF assms(4) lk keys js(2,3)])
  have len: "length cs \<le> length js" using assms(9) js(1) by simp
  obtain ss where ss: "try_map (\<lambda>i. create_decryption_share_precomputed C E ?p h aad (kps ! unat i) i ?m) js = Ok ss"
    "share_combine_precomputed ss = SharedSecret (pair E (hdr_commitment h) (g2_mul E (g2_generator E) (peval cs 0)))"
    by (rule drawn_shares_combine[OF assms(1) len assms(4) lk keys js(2,3) m assms(7)])
  have "length ss = length sel" using ss(1) js(1) by (auto simp: try_map_Ok dest: list_all2_lengthD)
  show ?thesis
  proof (rule that[OF _ ss(2) drawn_shares_nontrivial[OF assms(1) keys js(2,3) m assms(7,10) ss(1)] \<open>length ss = length sel\<close>])
    show "try_map (\<lambda>v. and_then (expect (find (\<lambda>kp. keypair_public_key E kp = v_public_key v) kps)) (\<lambda>kp.
      and_then (f v) (\<lambda>(dkg, agg). unwrap (api_create_decryption_share_precomputed C E A agg dkg h aad kp sel))) :: _ result) sel = Ok ss"
    proof (subst (2) js(1), unfold try_map_map, rule try_map_mono[OF ss(1)])
      fix i y assume i: "i \<in> set js" and y: "create_decryption_share_precomputed C E ?p h aad (kps ! unat i) i ?m = Ok y"
      let ?v = "snd (validators d ! unat i)"
      have r: "unat i < length (validators d)" using i js(3) by (auto simp: list_all_iff)
      have "find (\<lambda>kp. keypair_public_key E kp = v_public_key ?v) kps = Some (kps ! unat i)"
      proof (rule find_unique)
        show "kps ! unat i \<in> set kps" "keypair_public_key E (kps ! unat i) = v_public_key ?v" using r lk keys[OF r] by simp_all
        show "kp = kps ! unat i" if "keypair_public_key E kp = v_public_key ?v" for kp
          using that keys[OF r] by (simp add: keypair_public_key_def keypair.equality)
      qed
      moreover have "f ?v = Ok (d\<lparr> me := ?v \<rparr>, agg)" using r vs by (intro assms(6)) simp
      moreover have "v_share_index ?v = i" using dkg_wf_nth(2)[OF wf r] by (simp add: of_nat_unat_u32)
      moreover have "selected_domain_points A (d\<lparr> me := ?v \<rparr>) sel = ?m"
        by (simp add: selected_domain_points_def get_domain_point_def)
      ultimately show "(and_then (expect (find (\<lambda>kp. keypair_public_key E kp = v_public_key ?v) kps)) (\<lambda>kp.
          and_then (f ?v) (\<lambda>(dkg, agg). unwrap (api_create_decryption_share_precomputed C E A agg dkg h aad kp sel)))
          :: _ result) = Ok y"
        using y by (simp add: api_create_decryption_share_precomputed_def)
    qed
  qed
qed

end

section \<open>The scenario\<close>

text \<open>
  C10: the precomputed scenario of the interface succeeds for all \<open>0 < t \<le> n\<close>, every message and whichever
  \<open>t\<close> validators are drawn and however their shares are shuffled: the drawn validators find their keys,
  verify and aggregate on their own, and create shares whose product decrypts, while decryption with one
  share left out is refused.  The inputs are generic, no slot of the aggregate is zero, and the cipher
  refuses a ciphertext under every other secret.\<close>

theorem api_precomputed_scenario_succeeds:
  assumes "pairing_laws E" "domain_laws (g1_mul E) A" "rand_laws R" "\<forall>r. fst (scalar_rand R r) \<noteq> 0"
    and "hex_laws hex_decode" "\<forall>xs r. mset (fst (shuffle xs r)) = mset xs" "\<forall>xs r. mset (fst (shuffle_shares xs r)) = mset xs"
    and "\<forall>xs k r. mset (fst (choose_multiple xs k r)) \<subseteq># mset xs \<and> length (fst (choose_multiple xs k r)) = min k (length xs)"
    and "crypto_laws C" "\<forall>key nonce. chacha_encrypt C key nonce msg aad \<noteq> None" "\<forall>m. htp_bls12381_g2 (curve_lib C) m \<noteq> Ok 0"
    and "refuses_other_secrets C msg aad"
    and "0 < t" "t \<le> n" "dom_new A (unat n) = Some dm" "distinct (gen_keypairs R test_rng n)"
    and "make_test_inputs E A R hex_decode test_rng shuffle seed_rng fixture_tau t n n = (Ok (ms, vs, kps), rng1)"
    and "generic_inputs (Ok (ms, vs, kps))" "from_transcripts (map snd ms) = Ok agg" "0 \<notin> set (shares (aggregate_pvss agg))"
  shows "test_server_api_tdec_precomputed C E A R hex_decode test_rng shuffle choose_multiple shuffle_shares
    seed_rng thread_rng msg aad n t = Ok ()"
proof -
  have generic: "generic_inputs (fst (make_test_inputs E A R hex_decode test_rng shuffle seed_rng fixture_tau t n n))"
    using assms(17,18) by simp
  from assms(1-6,13-15) generic show ?thesis
  proof (rule api_ritual_Ok)
    fix d ms' vs' rng' agg' cs
    let ?kps = "gen_keypairs R test_rng n"
    assume inputs: "make_test_inputs E A R hex_decode test_rng shuffle seed_rng fixture_tau t n n = (Ok (ms', vs', ?kps), rng')"
      and S: "session E A d" and d: "map snd (validators d) = vs'" "length vs' = unat n" "length ms' = unat n"
      and keys: "\<And>i. i < unat n \<Longrightarrow> v_public_key (vs' ! i) = keypair_public_key E (?kps ! i)"
      and agg': "from_transcripts (map snd ms') = Ok agg'"
        "\<And>v. v \<in> set vs' \<Longrightarrow> server_aggregate E A n t vs' ms' v = Ok (d\<lparr> me := v \<rparr>, agg')"
      and cs: "length cs = unat t" "aggregate_pvss agg' = dealt E A d cs" "peval cs 0 \<noteq> 0"
      and pk: "agg_public_key agg' = DkgPublicKey (g1_mul E (g1_generator E) (peval cs 0))"
    have same: "ms' = ms" "vs' = vs" "kps = ?kps" "rng' = rng1" "agg' = agg" using inputs assms(17,19) agg'(1) by auto
    have scheme: "tdec_scheme C E" by (rule tdec_scheme.intro[OF assms(9,1)])
    obtain ct rng2 h where ct: "encrypt C E R msg aad (agg_public_key agg') thread_rng = (Ok ct, rng2)" "ct_header C ct = Ok h"
        and h: "header_check C E h aad = Ok True"
        and opens: "decrypt_with_shared_secret C E ct aad
          (SharedSecret (pair E (hdr_commitment h) (g2_mul E (g2_generator E) (peval cs 0)))) = Ok msg"
      by (rule tdec_scheme.encrypted_round[OF scheme pk cs(3) assms(4,10,11)])
    obtain sel rng3 where sel: "choose_multiple vs (unat t) rng1 = (sel, rng3)" by fastforce
    have t: "unat t \<le> unat n" "0 < unat t" using assms(13,14) by (simp_all add: word_le_nat_alt unat_gt_0 word_gt_0)
    have drawn: "mset sel \<subseteq># mset vs'" "length sel = unat t"
      using assms(8)[rule_format, of vs "unat t" rng1] sel d(2) same(2) t(1) by simp_all
    have sizes: "length ?kps = length vs'" "length cs \<le> length sel" using cs(1) drawn(2) d(2) by (simp_all add: gen_keypairs_def)
    have keys': "\<And>i. i < length vs' \<Longrightarrow> v_public_key (vs' ! i) = keypair_public_key E (?kps ! i)" using keys d(2) by simp
    have shares: "shares (aggregate_pvss agg') = dealt_shares E A d cs" by (simp add: cs(2))
    obtain ss where ss: "try_map (\<lambda>v. and_then (expect (find (\<lambda>kp. keypair_public_key E kp = v_public_key v) ?kps)) (\<lambda>kp.
        and_then (server_aggregate E A n t vs' ms' v) (\<lambda>(dkg, agg).
        unwrap (api_create_decryption_share_precomputed C E A agg dkg h aad kp sel))) :: _ result) sel = Ok ss"
      "share_combine_precomputed ss = SharedSecret (pair E (hdr_commitment h) (g2_mul E (g2_generator E) (peval cs 0)))"
      "list_all (\<lambda>s. precomputed_decryption_share s \<noteq> 1) ss" "length ss = length sel"
      by (rule session.drawn_server_shares[OF S shares d(1) sizes(1) assms(16) keys' agg'(2) h drawn(1) sizes(2) assms(20)[folded same(5)]])
    let ?ss = "fst (shuffle_shares ss rng3)"
    have perm: "mset ?ss = mset ss" using assms(7) by blast
    have len: "length ?ss = unat t" using mset_eq_length[OF perm] ss(4) drawn(2) by simp
    have whole: "share_combine_precomputed ?ss = SharedSecret (pair E (hdr_commitment h) (g2_mul E (g2_generator E) (peval cs 0)))"
      using share_combine_precomputed_perm[OF perm] ss(2) by simp
    have nontrivial: "list_all (\<lambda>s. precomputed_decryption_share s \<noteq> 1) ?ss"
      using ss(3) mset_eq_setD[OF perm] by (simp add: list_all_iff)
    have "?ss \<noteq> []" using len t(2) by auto
    from pairing_laws.product_one_short[OF assms(1) whole this nontrivial] len
    obtain e where "decrypt_with_shared_secret C E ct aad (share_combine_precomputed (take (unat t - 1) ?ss)) = Err e"
      using tdec_scheme.encrypted_refuses[OF scheme ct(1)[unfolded pk] ct(2) h assms(12)] by auto
    moreover have ne: "vs \<noteq> []" using d(2) same(2) t by auto
    moreover have "server_aggregate E A n t vs ms' (vs ! 0) = Ok (d\<lparr> me := vs ! 0 \<rparr>, agg')"
      using agg'(2)[of "vs ! 0"] ne same(2) by simp
    ultimately show ?thesis
      using inputs d(2,3) ct ss(1) whole opens drawn(2) sel same(2,4)
      by (simp add: test_server_api_tdec_precomputed_def Let_def slice_range_def slice_index_if api_encrypt_def
          api_public_key_def api_ciphertext_header_def api_decrypt_with_shared_secret_def)
  qed
qed

lemma sample_api_aggregate:
  "case fst (make_test_inputs E17 A17 R17 hex_pairs 0 (\<lambda>xs r. (rev xs, r)) 7 fixture_tau 3 4 4) of
     Ok (ms, vs, kps) \<Rightarrow> (case from_transcripts (map snd ms) of
       Ok agg \<Rightarrow> 0 \<notin> set (shares (aggregate_pvss agg)) | _ \<Rightarrow> False) | _ \<Rightarrow> False"
  "distinct (gen_keypairs R17 0 4)"
  by code_simp+

theorem api_precomputed_scenario_succeeds_witness:
  "test_server_api_tdec_precomputed C17 E17 A17 R17 hex_pairs 0 (\<lambda>xs r. (rev xs, r)) (\<lambda>xs k r. (take k (rev xs), r))
    (\<lambda>xs r. (rev xs, r)) 7 2 [10, 20] [1] 4 3 = Ok ()"
proof -
  obtain ms vs kps rng1 agg where
    inputs: "make_test_inputs E17 A17 R17 hex_pairs 0 (\<lambda>xs r. (rev xs, r)) 7 fixture_tau 3 4 4 = (Ok (ms, vs, kps), rng1)"
    and agg: "from_transcripts (map snd ms) = Ok agg" "0 \<notin> set (shares (aggregate_pvss agg))"
    using sample_api_aggregate(1)
    by (cases "make_test_inputs E17 A17 R17 hex_pairs 0 (\<lambda>xs r. (rev xs, r)) 7 fixture_tau 3 4 4")
      (auto split: outcome.splits)
  have generic: "generic_inputs (Ok (ms, vs, kps))" using sample_inputs inputs by simp
  have drawn: "\<forall>xs k r. mset (fst (take k (rev xs), r)) \<subseteq># mset xs \<and> length (fst (take k (rev xs), r)) = min k (length xs)"
    for r :: nat
    by (metis fst_conv length_rev length_take min.commute mset_rev mset_subset_eq_add_left append_take_drop_id mset_append)
  show ?thesis
    by (rule api_precomputed_scenario_succeeds[OF e17.pairing_laws_axioms sample_domain r17.rand_laws_axioms sample_generator
          hex.hex_laws_axioms _ _ _ c17.crypto_laws_axioms sample_primitives sample_refuses _ _ sample_dealers(1)
          sample_api_aggregate(2) inputs generic agg]) (use drawn in simp_all)
qed

end
