(* ===== verification/Spec2Isabelle.thy ===== *)
theory Spec2Isabelle
  imports Gaps Trusted_Dealer Toeplitz Hash_To_Curve Serialization Secret_Box
    Refresh_Scenarios Handover_Scenario Share_Scenarios Precomputed_Scenario
begin

text \<open>
  Verification of ferveo, a publicly verifiable distributed key generation (DKG) and threshold
  decryption library in Rust (crates \<open>ferveo-common\<close>, \<open>ferveo-tdec\<close>, \<open>subproductdomain\<close>, \<open>ferveo\<close>).

  \<^bold>\<open>The program.\<close>  A ritual has \<open>n\<close> validators, each with a keypair and a share index, and a
  security threshold \<open>t\<close>.  Every dealer publishes a transcript: Feldman commitments to a secret
  polynomial of \<open>t\<close> coefficients, the polynomial's value at each validator's point of an FFT
  domain, blinded with that validator's key, and a proof of knowledge.  Transcripts are verified
  with pairings and added up to an aggregate, whose constant term is the public key.  Messages are
  encrypted to it; each validator unblinds its share and makes a decryption share of a ciphertext;
  \<open>t\<close> of them combine by Lagrange interpolation in the exponent to the shared secret that
  decrypts.  An experimental feature refreshes shares and hands them over to new validators.

  \<^bold>\<open>Theories, in the order of their imports.\<close>
  \<^item> \<open>Prelude\<close>: machine integers, byte strings, outcomes of Rust calls (\<open>Ok\<close>, \<open>Err\<close>, \<open>Panic\<close>),
    slices and iterators, \<open>HashMap\<close> and \<open>BTreeMap\<close> behind the interface \<open>entry_map\<close>.
  \<^item> \<open>Poly_Lists\<close>: polynomials as coefficient lists over a group with scalars (\<open>scalar_action\<close>),
    root counting, uniqueness and Lagrange interpolation.
  \<^item> \<open>Ark\<close>: the arkworks crates as parameters, \<open>pairing_laws\<close>, \<open>domain_laws\<close> and \<open>rand_laws\<close>, and
    \<open>Sample\<close>: an instance of all of them over the field of 17 elements, on which witnesses run.
  \<^item> \<open>Keypair\<close> (\<open>ferveo-common/src/keypair.rs\<close>), \<open>Ciphertext\<close>, \<open>Decryption\<close>, \<open>Combine\<close>, \<open>Key_Share\<close>,
    \<open>Context\<close> (the files of those names in \<open>ferveo-tdec/src\<close>): encryption and its validity check,
    decryption shares, their verification and combination, blinded key shares, the trusted-dealer
    contexts and factories; \<open>Trusted_Dealer\<close>: decryption with the factory's contexts.
  \<^item> \<open>Serialization\<close> (\<open>ferveo-common/src/serialization.rs\<close> and the messages of its \<open>lib.rs\<close>): the serde
    adapters over any data format.
  \<^item> \<open>Hash_To_Curve\<close> (\<open>ferveo-tdec/src/hash_to_curve.rs\<close>): the buffers around the external curve library,
    and its panics; \<open>Ciphertext\<close> calls it.  \<open>Secret_Box\<close> (\<open>secret_box.rs\<close>): boxes on an explicit heap, with
    the step relation \<open>box_step\<close>.  A box is one cell; buffers inside its content are not modelled.
  \<^item> \<open>Series\<close>: power series, the reference for polynomial algorithms; \<open>Dense_Poly\<close>: the polynomials of
    \<open>ark_poly\<close> as a parameter with the laws \<open>dense_poly_laws\<close>.
  \<^item> \<open>Subproduct\<close>, \<open>Subproduct_Tree\<close>, \<open>Toeplitz\<close> (\<open>subproductdomain/src/lib.rs\<close>): \<open>fast_multiexp\<close>; Newton
    inversion, fast division and subproduct trees; circulant and Toeplitz products.  \<open>Multipoint\<close>:
    the theorems of the trees.
  \<^item> \<open>Validator\<close> (\<open>ferveo/src/validator.rs\<close> and the error type of \<open>ferveo/src/lib.rs\<close>).
  \<^item> \<open>Dkg\<close> (\<open>ferveo/src/dkg.rs\<close>): parameters, the context \<open>PubliclyVerifiableDkg\<close> as the record \<open>dkg\<close>,
    its constructor, the invariant \<open>dkg_wf\<close>, and the locale \<open>session\<close>, the interface over which
    everything below is proved.
  \<^item> \<open>Pvss\<close> (\<open>ferveo/src/pvss.rs\<close>, \<open>primitives.rs\<close>): transcripts, verification, aggregation, decryption
    shares of an aggregate, the specification \<open>dealt\<close> of a transcript; \<open>Transcripts\<close>: their theorems.
  \<^item> \<open>Ritual\<close> (the transcript operations of \<open>dkg.rs\<close>): dealing, message checks, aggregation, and the
    protocol from end to end.
  \<^item> \<open>Refresh\<close> (\<open>ferveo/src/refresh.rs\<close> and the refresh and handover operations of \<open>pvss.rs\<close> and
    \<open>dkg.rs\<close>); \<open>Mobility\<close>: their theorems.
  \<^item> \<open>Api\<close> (\<open>ferveo/src/api.rs\<close>): the application interface.
  \<^item> \<open>Dealers\<close>: aggregation in closed form, independent of the order of messages, and what the last
    dealer can do.  \<open>Lifecycle\<close>: the steps a ritual takes after aggregation (\<open>ritual_step\<close>), in any order,
    with the invariant \<open>shares_secret\<close>.  \<open>Gaps\<close>: what refresh and handover leave open.
  \<^item> \<open>Fixtures\<close> (\<open>ferveo/src/test_common.rs\<close>): the factories of the \<open>test-common\<close> feature.
    \<open>Scenarios\<close>, \<open>Handover_Scenario\<close> (the module \<open>test_dkg_full\<close> of \<open>ferveo/src/lib.rs\<close>), \<open>Api_Scenarios\<close>,
    \<open>Verification_Scenarios\<close>, \<open>Precomputed_Scenario\<close> (the module \<open>test_ferveo_api\<close> of \<open>ferveo/src/api.rs\<close>),
    \<open>Refresh_Scenarios\<close>, \<open>Share_Scenarios\<close> (both): the end-to-end scenarios of the two modules, from key
    generation to the last assertion, over all parameters, and the theorems they rest on.
  \<^item> \<open>Shortfall\<close>: one share fewer than the threshold.
  \<^item> This theory: properties that span the components.

  \<^bold>\<open>Modelling.\<close>  A struct is a record and an enum a datatype with the source's constructors; a
  method takes its receiver as argument; \<open>Result\<close> with possible panics is \<open>outcome\<close>; a random
  generator is a state that is passed on; loops are structural recursions or folds, and no fuel is
  needed.  One recursion of the sources may not end, \<open>SubproductTree::new\<close>: it is a partial function,
  and the slices on which it returns are a theorem.  Affine and projective points are one type.  \<open>u32\<close> is
  \<open>32 word\<close>; \<open>usize\<close> is \<open>nat\<close>, since every one is a length or an index of an allocated vector.
  Arithmetic is that of a release build: \<open>security_threshold - 1\<close> wraps, and \<open>debug_assert!\<close> is
  compiled out.  External code (arkworks, SHA-256, ChaCha20-Poly1305, hex, point
  encodings, polynomial products, \<open>miracl_core\<close>, serde formats) is a parameter with its documented laws as locale assumptions, each of them
  interpreted on a concrete instance.

  \<^bold>\<open>Results.\<close>  The constructor establishes the session invariant and decides every input.  Dealing
  implements \<open>dealt\<close>; full verification accepts exactly the transcripts that implement it;
  aggregation is dealing the sum; the aggregation check and the interface's verification are
  characterised, with what they leave unchecked.  From a verified aggregate any \<open>t\<close> validators
  decrypt, in both variants; shares that pass verification can be combined whoever made them; \<open>t - 1\<close>
  shares are dealt with one choice of coefficients under each secret.  This remains so after any history of refreshes and
  handovers, and a ritual never gets stuck on refreshing.  The order of messages is irrelevant.  Ciphertext validity, encryption round trips,
  share verification and byte encodings are exact.  Refresh keeps the secret, handover keeps the
  evaluation, and their documented gaps are theorems, with two that the documents leave open: the
  checks of a handover do not bind the share, and a handover after a refresh panics.  The update of
  the commitments that the roadmap proposes for refresh is right.  Against the security notes, a
  dealer who speaks last can choose the shared secret.  Validators read through the checked
  constructors are always admitted.  Peer-supplied data does not panic the
  interface: the length checks keep aggregation from the panic of \<open>zip_eq\<close>, and the curve hash returns.  Several theorems hold against the sources' comments: precomputed shares do not pass
  their own verification, the trusted-dealer context picks a coefficient by the wrong index, so that only selections of a prefix of the
  participants in order are sure to decrypt, the
  address parser can panic, and dealers are matched by index only.  The trusted dealer's contexts
  decrypt.  Fast division, multi-point evaluation, interpolation and Toeplitz products agree with
  their textbook definitions whenever they return; evaluation panics at a root in the domain, and the tree of no points
  is never built.  Hashing to the curve stays within its fixed buffers.  Memory a \<open>SecretBox\<close> has
  given back holds no secret.  The serde adapters agree, and accept the identity key.  The test fixtures set up rituals of
  honest dealers, and the end-to-end scenarios run on them succeed for every threshold and message:
  decryption in both variants, refusal with one share left out, refresh, handover of any slot,
  verification of aggregates and of shares with all their negative cases.  One share fewer than the
  threshold never combines to the secret of a verified aggregate.  What verification decides is exact
  on every branch, for the aggregates of any honest messages and for every decryption share.

  \<^bold>\<open>Assumptions that the theorems state.\<close>  Where shares are interpolated, the evaluation domain has
  at least \<open>t\<close> points; the constructor does not compare the number of validators with \<open>t\<close>.
  Constant and leading coefficients are nonzero where verification asks for it.  \<open>ark_poly\<close> may refuse
  to add polynomials with trailing zeros, and Newton's iteration makes such operands: fast division and
  the trees are shown to return where that cannot occur (degrees that differ by at most one, at most
  four points), and beyond that to return the right result or to panic.  Evaluation is also shown to
  return for arithmetic that accepts such operands (\<open>total_arith\<close>).  Products are taken as total.
  The curve library is assumed to encode points that \<open>from_random_bytes\<close> decodes, as the sources say
  (\<open>curve_laws\<close>).

  The scenarios assume what random inputs satisfy with overwhelming probability: distinct keys and
  transcripts, sums of constant or leading terms that do not vanish or coincide (\<open>terms_do_not_cancel\<close>,
  \<open>generic_inputs\<close>, \<open>tells_apart\<close>), a nonzero slot (\<open>slot_share_nonzero\<close>); and, where decryption is
  refused, that the AEAD refuses a ciphertext under the key of every other secret (\<open>refuses_other_secrets\<close>,
  an idealisation: the tag has 128 bits).

  \<^bold>\<open>Not modelled.\<close>  The re-exports of \<open>ferveo-tdec/src/api.rs\<close> and the module declarations (no code),
  the unit tests of single operations outside the two scenario modules, benches and examples (they only
  call the operations above), the code that derive macros generate.  Computational hardness is
  outside the development: theorems are about what the code computes.
\<close>

section \<open>Supporting facts\<close>

lemma bks_simple_not_Panic:
  "curve_laws (curve_lib C) \<Longrightarrow> bks_create_decryption_share_simple C E self h aad kp \<noteq> Panic"
  by (simp add: bks_create_decryption_share_simple_def outcome_simps create_not_Panic(1))

lemma api_encryption_not_Panic:
  assumes "curve_laws (curve_lib C)"
  shows "api_encrypt C E R rng message aad pk \<noteq> Panic" "api_decrypt_with_shared_secret C E ct aad ss \<noteq> Panic"
  by (simp_all add: encryption_never_panics[OF assms] api_encrypt_def api_decrypt_with_shared_secret_def outcome_simps)

lemma get_share_not_Panic [simp]: "get_share_for_index_and_pubkey p i pk \<noteq> Panic"
  by (simp add: get_share_for_index_and_pubkey_def outcome_simps)

lemma get_domain_point_not_Panic [simp]: "get_domain_point A d i \<noteq> Panic"
  by (simp add: get_domain_point_def outcome_simps)

lemma do_verify_aggregation_not_Panic [simp]: "do_verify_aggregation E A Fs Ys vs dm ts t \<noteq> Panic"
  unfolding do_verify_aggregation_def
  by (auto simp: outcome_simps split: if_splits dest!: try_fold_not_Panic[THEN notE, rotated])

lemma selected_points_distinct: "distinct (map fst (selected_domain_points A d selected))"
  unfolding selected_domain_points_def by (rule hash_map.collect_distinct)

section \<open>Properties that span the components\<close>

text \<open>
  C17: peer-supplied data cannot crash a participant.  For every list of messages, every aggregate,
  ciphertext, header, share and list of selected validators, well-formed or not, the operations of the
  interface return a value or an error: message checking and aggregation (no transcript reaches the
  panic of \<open>zip_eq\<close>, since the lengths are compared first), verification of an aggregate (for a number
  of validators the field has a domain for), encryption, creation of both kinds of decryption shares and
  decryption (the curve hash of a header decodes what it encoded), and verification of a share.
\<close>

theorem interface_never_panics:
  assumes "dom_new A (unat n) \<noteq> None" "curve_laws (curve_lib C)"
  shows "api_aggregate_transcripts E d msgs \<noteq> Panic \<and> api_aggregated_transcript_new msgs \<noteq> Panic \<and>
    api_aggregated_transcript_verify E A agg n t msgs \<noteq> Panic \<and>
    api_encrypt C E R rng message aad pk \<noteq> Panic \<and>
    api_create_decryption_share_simple C E A agg d h aad kp \<noteq> Panic \<and>
    api_create_decryption_share_precomputed C E A agg d h aad kp selected \<noteq> Panic \<and>
    api_decrypt_with_shared_secret C E ct aad ss \<noteq> Panic \<and>
    api_verify_decryption_share_simple E A agg d share i vk ct \<noteq> Panic"
  using assms(1)
  by (auto simp: bks_precomputed_not_Panic[OF selected_points_distinct assms(2)] bks_simple_not_Panic[OF assms(2)]
      api_encryption_not_Panic[OF assms(2)] api_aggregate_transcripts_def
      aggregate_transcripts_def api_aggregated_transcript_new_def
      api_aggregated_transcript_verify_def api_create_decryption_share_simple_def
      api_create_decryption_share_precomputed_def api_verify_decryption_share_simple_def
      create_decryption_share_simple_def create_decryption_share_precomputed_def outcome_simps)

theorem interface_never_panics_witness:
  "api_aggregate_transcripts E17 sample_dkg [(sample_validator 0, \<lparr> coeffs = [], shares = [], sigma = 0 \<rparr>)] \<noteq> Panic \<and>
   api_aggregated_transcript_new [(sample_validator 0, \<lparr> coeffs = [] :: f17 list, shares = [], sigma = 0 \<rparr>)] \<noteq> Panic \<and>
   api_aggregated_transcript_verify E17 A17 sample_agg 4 0
     [(sample_validator 0, \<lparr> coeffs = [], shares = [], sigma = 0 \<rparr>)] \<noteq> Panic \<and>
   api_create_decryption_share_simple C17 E17 A17 sample_agg sample_dkg sample_header [] \<lparr> decryption_key = 0 \<rparr> \<noteq> Panic \<and>
   api_create_decryption_share_precomputed C17 E17 A17 sample_agg sample_dkg sample_header []
     \<lparr> decryption_key = 0 \<rparr> [] \<noteq> Panic \<and>
   api_decrypt_with_shared_secret C17 E17 sample_ct [] (SharedSecret 1) \<noteq> Panic"
proof -
  have n: "dom_new A17 (unat (4 :: u32)) \<noteq> None" by code_simp
  have M: "curve_laws (curve_lib C17)" by unfold_locales
  note safe = interface_never_panics[OF n M]
  show ?thesis by (simp only: safe not_False_eq_True simp_thms)
qed

text \<open>
  C1: decryption is robust.  Let an aggregate come out of a session's ritual and pass full
  verification, and let a message be encrypted to its public key.  Any shares that pass the
  interface's share verification for distinct registered validators, at least \<open>threshold\<close> many,
  whoever made them, combine to the secret that decrypts the message: no accepted share can spoil
  the result.
\<close>

theorem verified_shares_decrypt:
  assumes "session E A d" "crypto_laws C"
    and "unat (security_threshold (params d)) \<le> length (dom_elements A (domain d))"
    and "api_aggregate_transcripts E d msgs = Ok agg"
    and "verify_full E A (aggregate_pvss agg) d = Ok True"
    and "api_encrypt C E R rng message aad (api_public_key agg) = Ok ct"
    and "ct_commitment ct \<noteq> 0" "ct_auth_tag ct \<noteq> 0"
    and "distinct (map fst iss)" "unat (security_threshold (params d)) \<le> length iss"
    and "list_all (\<lambda>(i, s). unat i < length (validators d) \<and>
      api_verify_decryption_share_simple E A agg d s i (v_public_key (snd (validators d ! unat i))) ct = Ok True) iss"
  shows "api_decrypt_with_shared_secret C E ct aad (combine_shares_simple E (map snd iss)) = Ok message"
  using assms(1,3,5)
proof (rule session.verified_polynomial)
  fix cs assume len: "length cs = unat (security_threshold (params d))"
    and shares: "take (length (validators d)) (shares (aggregate_pvss agg)) = dealt_shares E A d cs"
    and F0: "hd (coeffs (aggregate_pvss agg)) = g1_mul E (g1_generator E) (peval cs 0)"
  have scheme: "tdec_scheme C E"
    using assms(1,2) by (auto simp: session_def intro: tdec_scheme.intro)
  have pk: "agg_public_key agg = DkgPublicKey (g1_mul E (g1_generator E) (peval cs 0))"
    using assms(4) F0 by (auto simp: api_aggregate_transcripts_def aggregate_transcripts_def
        outcome_simps from_transcripts_Ok)
  obtain rng' where "encrypt C E R message aad (DkgPublicKey (g1_mul E (g1_generator E) (peval cs 0))) rng = (Ok ct, rng')"
    using assms(6) by (cases "encrypt C E R message aad (agg_public_key agg) rng")
      (auto simp: api_encrypt_def api_public_key_def pk outcome_simps)
  from tdec_scheme.encrypt_secret[OF scheme this assms(7,8)]
    session.combine_verified_api_shares[OF assms(1) shares assms(9) _ assms(11)] len assms(10)
  show ?thesis by (simp add: api_decrypt_with_shared_secret_def)
qed

definition sample_api_shares :: "(u32 \<times> (f17, f17, f17 expo) api_decryption_share_simple) list" where
  "sample_api_shares = map (\<lambda>i. (of_nat i, case api_create_decryption_share_simple C17 E17 A17 sample_agg
     (sample_dkg\<lparr> me := sample_validator i \<rparr>) sample_header [1] (sample_keypair i) of Ok s \<Rightarrow> s)) [3, 0, 2]"

lemma sample_api_shares_ok:
  "distinct (map fst sample_api_shares)"
  "unat (security_threshold (params sample_dkg)) \<le> length sample_api_shares"
  "list_all (\<lambda>(i, s). unat i < length (validators sample_dkg) \<and>
     api_verify_decryption_share_simple E17 A17 sample_agg sample_dkg s i
       (v_public_key (snd (validators sample_dkg ! unat i))) sample_ct = Ok True) sample_api_shares"
  by code_simp+

theorem verified_shares_decrypt_witness:
  "api_decrypt_with_shared_secret C17 E17 sample_ct [1]
     (combine_shares_simple E17 (map snd sample_api_shares)) = Ok [10, 20]"
proof (rule verified_shares_decrypt[OF session17.session_axioms c17.crypto_laws_axioms sample_threshold
      _ _ _ sample_ct_ok(2,3) sample_api_shares_ok])
  show "api_aggregate_transcripts E17 sample_dkg [(sample_validator 0, sample_pvss)] = Ok sample_agg"
    using sample_agg_ok(1) by (simp add: api_aggregate_transcripts_def)
  show "verify_full E17 A17 (aggregate_pvss sample_agg) sample_dkg = Ok True"
    using sample_pvss_verifies by (simp add: sample_agg_def)
  show "api_encrypt C17 E17 R17 2 [10, 20] [1] (api_public_key sample_agg) = Ok sample_ct"
    using sample_encrypted(1) by (simp add: api_encrypt_def api_public_key_def)
qed

text \<open>A validator as it is read from its registration: address, key bytes and share index.\<close>

definition registered ::
  "'g2::zero codec \<Rightarrow> (bytes \<Rightarrow> bytes option) \<Rightarrow> bytes \<times> bytes \<times> u32 \<Rightarrow> 'g2 validator \<Rightarrow> bool"
where
  "registered K hex_decode entry v \<longleftrightarrow> (case entry of (address, key, share_index) \<Rightarrow>
     (case public_key_from_bytes K key of
        Ok pk \<Rightarrow> validator_new hex_decode address pk share_index = Ok v
      | _ \<Rightarrow> False))"

lemma registered_wellformed:
  assumes "hex_laws hex_decode" "registered K hex_decode entry v"
  shows "encryption_key (v_public_key v) \<noteq> 0" "v_share_index v = snd (snd entry)"
    "length (ethereum_address_fmt (v_address v)) = 42" "\<forall>b\<in>set (drop 2 (ethereum_address_fmt (v_address v))). is_hex_digit b"
proof -
  obtain address key i where e: "entry = (address, key, i)" by (cases entry)
  with assms(2) obtain pk where pk: "public_key_from_bytes K key = Ok pk" "validator_new hex_decode address pk i = Ok v"
    by (auto simp: registered_def split: outcome.splits)
  have v: "v = \<lparr> v_address = EthereumAddress address, v_public_key = pk, v_share_index = i \<rparr>"
    "length address = 42" "\<forall>b\<in>set (drop 2 address). is_hex_digit b"
    using pk(2) by (auto simp: validator_new_def hex_laws.from_str_cases[OF assms(1)] split: if_splits)
  then show "v_share_index v = snd (snd entry)" "length (ethereum_address_fmt (v_address v)) = 42"
    "\<forall>b\<in>set (drop 2 (ethereum_address_fmt (v_address v))). is_hex_digit b"
    by (simp_all add: e ethereum_address_fmt_def)
  show "encryption_key (v_public_key v) \<noteq> 0"
    using pk(1) by (auto simp: v(1) public_key_from_bytes_def outcome_simps split: if_splits)
qed

text \<open>
  C28: what is read from registrations is well-formed.  A validator whose key was decoded by
  \<open>PublicKey::from_bytes\<close> and whose address was parsed by \<open>Validator::new\<close> has a key that is not the
  identity, an address of 42 bytes with hexadecimal digits after the prefix, and the given index.
  Such validators with distinct indices below their number, valid parameters and an existing domain
  are accepted by the constructor for each of them, and the context satisfies the session invariant.\<close>

theorem registered_validators_admitted:
  assumes "hex_laws hex_decode" "list_all2 (registered K hex_decode) entries vs"
    and "distinct (map (snd \<circ> snd) entries)" "list_all (\<lambda>(_, _, i). unat i < length entries) entries"
    and "0 < threshold" "threshold \<le> num_shares" "dom_new A (length entries) \<noteq> None" "self \<in> set vs"
  shows "list_all (\<lambda>v. encryption_key (v_public_key v) \<noteq> 0 \<and> length (ethereum_address_fmt (v_address v)) = 42 \<and>
      (\<forall>b\<in>set (drop 2 (ethereum_address_fmt (v_address v))). is_hex_digit b)) vs \<and>
    (\<exists>d. api_dkg_new A t num_shares threshold vs self = Ok d \<and> dkg_wf A d \<and> snd ` set (validators d) = set vs)"
proof
  note wf = registered_wellformed[OF assms(1)]
  have v: "encryption_key (v_public_key v) \<noteq> 0 \<and> length (ethereum_address_fmt (v_address v)) = 42 \<and>
      (\<forall>b\<in>set (drop 2 (ethereum_address_fmt (v_address v))). is_hex_digit b)" if mem: "v \<in> set vs" for v
  proof -
    obtain i where "i < length vs" "v = vs ! i" using mem by (auto simp: in_set_conv_nth)
    then have "registered K hex_decode (entries ! i) v" using assms(2) by (simp add: list_all2_conv_all_nth)
    then show ?thesis using wf(1,3,4) by blast
  qed
  then show "list_all (\<lambda>v. encryption_key (v_public_key v) \<noteq> 0 \<and> length (ethereum_address_fmt (v_address v)) = 42 \<and>
      (\<forall>b\<in>set (drop 2 (ethereum_address_fmt (v_address v))). is_hex_digit b)) vs"
    by (simp add: list_all_iff)
  have len: "length vs = length entries" using assms(2) by (simp add: list_all2_lengthD)
  have idx: "map v_share_index vs = map (snd \<circ> snd) entries"
    using assms(2) by (induction rule: list_all2_induct) (simp_all add: wf(2))
  then have d: "distinct (map v_share_index vs)" using assms(3) by simp
  have "set (map v_share_index vs) = set (map (snd \<circ> snd) entries)" by (simp only: idx)
  then have "unat (v_share_index v) < length vs" if "v \<in> set vs" for v
    using that assms(4) by (force simp: len list_all_iff)
  then have c: "check_validators (length vs) vs = Ok ()" using v by (auto simp: check_validators_Ok)
  have "distinct (map fst (validators_by_index vs))"
    unfolding validators_by_index_def by (rule btree.collect_distinct)
  then have m: "map_of (validators_by_index vs) (v_share_index self) = Some self"
    using validators_by_index_set(1)[OF d] assms(8) by (auto simp: map_of_eq_Some_iff)
  obtain dm where "dom_new A (length vs) = Some dm" using assms(7) len by auto
  with assms(5,6) d c m have new: "api_dkg_new A t num_shares threshold vs self =
      Ok \<lparr> params = \<lparr> tau = t, security_threshold = threshold, shares_num = num_shares \<rparr>,
        validators = validators_by_index vs, domain = dm, me = self \<rparr>"
    by (auto simp: api_dkg_new_def dkg_params_new_def dkg_params_validate_def Let_def dkg_new_branches
        outcome_simps word_gt_0)
  then have "dkg_new A vs \<lparr> tau = t, security_threshold = threshold, shares_num = num_shares \<rparr> self =
      Ok \<lparr> params = \<lparr> tau = t, security_threshold = threshold, shares_num = num_shares \<rparr>,
        validators = validators_by_index vs, domain = dm, me = self \<rparr>"
    by (auto simp: api_dkg_new_def dkg_params_new_def Let_def outcome_simps)
  from dkg_new_invariant(1)[OF this] new validators_by_index_set(1)[OF d]
  show "\<exists>d. api_dkg_new A t num_shares threshold vs self = Ok d \<and> dkg_wf A d \<and> snd ` set (validators d) = set vs"
    by (auto simp: image_image)
qed

definition sample_entries :: "(bytes \<times> bytes \<times> u32) list" where
  "sample_entries = map (\<lambda>i. (replicate 42 (48 + of_nat i),
     case public_key_to_bytes (codec17 96) (v_public_key (sample_validator i)) of Ok bs \<Rightarrow> bs, of_nat i)) [2, 0, 3, 1]"

definition sample_registered :: "f17 validator list" where
  "sample_registered = map (\<lambda>i. (sample_validator i)\<lparr> v_address := EthereumAddress (replicate 42 (48 + of_nat i)) \<rparr>) [2, 0, 3, 1]"

theorem registered_validators_admitted_witness:
  "\<exists>d. api_dkg_new A17 0 4 3 sample_registered (sample_registered ! 1) = Ok d \<and> dkg_wf A17 d \<and>
    snd ` set (validators d) = set sample_registered"
proof -
  have "list_all2 (registered (codec17 96) hex_pairs) sample_entries sample_registered"
    "distinct (map (snd \<circ> snd) sample_entries)"
    "list_all (\<lambda>(_, _, i). unat i < length sample_entries) sample_entries"
    "0 < (3 :: u32)" "(3 :: u32) \<le> 4" "dom_new A17 (length sample_entries) \<noteq> None"
    "sample_registered ! 1 \<in> set sample_registered"
    by code_simp+
  from registered_validators_admitted[OF hex.hex_laws_axioms this] show ?thesis by blast
qed

end
